(* ===== verification/Prelude.thy ===== *)
theory Prelude
  imports Main "HOL-Library.Word"
begin

text \<open>
  The prelude of the development: names for the machine integers of the C sources, the
  alignment helpers that several kernel files carry as private copies, generic facts on words,
  lists and options, and the collections of lemmas that the component theories fill.
\<close>

unbundle bit_operations_syntax

subsection \<open>Machine integers\<close>

type_synonym u8 = "8 word"
type_synonym u16 = "16 word"
type_synonym u32 = "32 word"
type_synonym u64 = "64 word"

text \<open>
  A C \<open>int\<close> or \<open>int64_t\<close> result that only ever holds a count or a small negative error code
  is an \<open>int\<close>; it is cast to \<open>u64\<close> where the source casts it.
\<close>

type_synonym cint = int

text \<open>
  \<open>unat_simps\<close> collects equations that move a word computation to natural numbers;
  \<open>frame_simps\<close> the fields an operation leaves alone; \<open>inv_intros\<close> the preservation
  rules of the invariants.
\<close>

named_theorems unat_simps
named_theorems frame_simps
named_theorems inv_intros

lemma unat_u8_less [simp]: "unat (b::u8) < 256"
  using unsigned_less [of b, where ?'a = nat] by simp

lemma unat_u32_less [simp]: "unat (x::u32) < 4294967296"
  using unsigned_less [of x, where ?'a = nat] by simp

lemma unat_u64_less [simp]: "unat (x::u64) < 18446744073709551616"
  using unsigned_less [of x, where ?'a = nat] by simp

lemma unat_u64_less_pow [simp]: "unat (x::u64) < 2 ^ 64"
  using unsigned_less [of x, where ?'a = nat] by simp

lemma unat_ucast_u32_u64 [simp]: "unat (ucast (x::u32) :: u64) = unat x"
  proof -
  have "unat x < 2 ^ 64" by (rule less_trans [OF unat_u32_less]) simp
  then show ?thesis by (simp add: unsigned_ucast_eq take_bit_nat_eq_self)
qed

lemma unat_add_exact:
  fixes a b :: "'a::len word"
  assumes "unat a + unat b < 2 ^ LENGTH('a)"
  shows "unat (a + b) = unat a + unat b"
  using assms by (simp add: unat_word_ariths)

lemma unat_mult_exact:
  fixes a b :: "'a::len word"
  assumes "unat a * unat b < 2 ^ LENGTH('a)"
  shows "unat (a * b) = unat a * unat b"
  using assms by (simp add: unat_word_ariths)

lemma unat_Suc_less:
  fixes a b :: "'a::len word"
  assumes "a < b"
  shows "unat (a + 1) = Suc (unat a)"
proof -
  have "unat b < 2 ^ LENGTH('a)"
    by (rule unsigned_less)
  moreover have "unat a < unat b"
    using assms by (simp add: word_less_nat_alt)
  ultimately have "unat a + 1 < 2 ^ LENGTH('a)"
    by linarith
  then show ?thesis
    by (cases "LENGTH('a) = 1") (simp_all add: unat_word_ariths)
qed

lemma unat_eq_iff: "unat a = unat b \<longleftrightarrow> a = b"
  by (simp add: word_unat_eq_iff)

lemma unat_word_of_nat64: "n < 2 ^ 64 \<Longrightarrow> unat (word_of_nat n :: u64) = n"
  by (simp add: unat_of_nat take_bit_nat_eq_self)

lemma word_of_nat_inj64: "a < 2 ^ 64 \<Longrightarrow> b < 2 ^ 64 \<Longrightarrow> (word_of_nat a :: u64) = word_of_nat b \<longleftrightarrow> a = b"
  by (metis unat_word_of_nat64)

lemma unat_sub_exact:
  fixes a b :: "'a::len word"
  assumes "b \<le> a"
  shows "unat (a - b) = unat a - unat b"
  using assms by (rule unat_sub)

subsection \<open>Alignment\<close>

text \<open>
  \<open>align_up\<close> and \<open>align_down\<close> of \<open>kernel/pmm.c\<close>; the one-argument versions in
  \<open>vmm.c\<close>, \<open>user.c\<close> and \<open>syscall.c\<close> are the instances for the page size.
\<close>

abbreviation PAGE_SIZE :: u64 where
  "PAGE_SIZE \<equiv> 4096"

definition align_up :: "u64 \<Rightarrow> u64 \<Rightarrow> u64" where
  "align_up value align = (value + align - 1) AND NOT (align - 1)"

definition align_down :: "u64 \<Rightarrow> u64 \<Rightarrow> u64" where
  "align_down value align = value AND NOT (align - 1)"

lemma unat_and_not_mask:
  "unat ((v::'a::len word) AND NOT (mask n)) = unat v div 2 ^ n * 2 ^ n"
proof -
  have "v AND NOT (mask n) = push_bit n (drop_bit n v)"
    by (simp add: bit_eq_iff bit_simps) auto
  then have "unat (v AND NOT (mask n)) =
      take_bit LENGTH('a) (push_bit n (drop_bit n (take_bit LENGTH('a) (unat v))))"
    by (simp add: unsigned_push_bit_eq unsigned_drop_bit_eq)
  also have "take_bit LENGTH('a) (unat v) = unat v"
    by (simp add: take_bit_nat_eq_self)
  also have "push_bit n (drop_bit n (unat v)) = unat v div 2 ^ n * 2 ^ n"
    by (simp add: push_bit_eq_mult drop_bit_eq_div)
  also have "take_bit LENGTH('a) (unat v div 2 ^ n * 2 ^ n) = unat v div 2 ^ n * 2 ^ n"
    by (rule take_bit_nat_eq_self)
      (rule le_less_trans [OF div_times_less_eq_dividend unsigned_less])
  finally show ?thesis .
qed

lemma mask_12: "(4095::u64) = mask 12" and mask_4: "(15::u64) = mask 4"
  by (simp_all add: mask_eq_exp_minus_1)

lemma unat_align_down [unat_simps]:
  "unat (align_down v PAGE_SIZE) = unat v div 4096 * 4096"
  using unat_and_not_mask [of v 12] by (simp add: align_down_def mask_12)

lemma unat_align_up [unat_simps]:
  assumes "unat v + 4095 < 2 ^ 64"
  shows "unat (align_up v PAGE_SIZE) = (unat v + 4095) div 4096 * 4096"
proof -
  have "unat (v + 4095) = unat v + 4095"
    using assms by (subst unat_add_exact) simp_all
  then show ?thesis
    using unat_and_not_mask [of "v + 4095" 12]
    by (simp add: align_up_def mask_12 [symmetric] add.commute [of _ v])
qed

lemma unat_align_up_16 [unat_simps]:
  assumes "unat v + 15 < 2 ^ 64"
  shows "unat (align_up v 16) = (unat v + 15) div 16 * 16"
proof -
  have "unat (v + 15) = unat v + 15"
    using assms by (subst unat_add_exact) simp_all
  then show ?thesis
    using unat_and_not_mask [of "v + 15" 4]
    by (simp add: align_up_def mask_4 [symmetric] add.commute [of _ v])
qed

lemma align_up_16_dvd: "16 dvd unat (align_up v 16)"
  using unat_and_not_mask [of "v + 15" 4]
  by (simp add: align_up_def mask_4 [symmetric] add.commute [of _ v])

lemma align_up_16_wraps:
  assumes "2 ^ 64 - 16 < unat (v :: u64)"
  shows "align_up v 16 = 0"
proof -
  have "unat (v + 15) = (unat v + 15) mod 2 ^ 64" by (simp add: unat_word_ariths)
  also have "\<dots> = unat v + 15 - 2 ^ 64"
    using assms unat_u64_less [of v] by (simp add: le_mod_geq del: unat_u64_less)
  finally have "unat (v + 15) < 16" using unat_u64_less [of v] by (simp del: unat_u64_less)
  then have "unat (v + 15) div 16 = 0" by simp
  then have "unat (align_up v 16) = 0"
    using unat_and_not_mask [of "v + 15" 4]
    by (simp add: align_up_def mask_4 [symmetric] add.commute [of _ v])
  then show ?thesis by (simp add: unat_eq_zero)
qed

text \<open>
  Near the top of the address space \<open>align_up\<close> wraps to zero, as the C addition does.
\<close>

lemma align_up_wraps: "align_up (- 1) PAGE_SIZE = 0"
  by (simp add: align_up_def)

subsection \<open>Lists\<close>

lemma sorted_wrt_pairwise:
  "sorted_wrt P xs \<Longrightarrow> x \<in> set xs \<Longrightarrow> y \<in> set xs \<Longrightarrow> x = y \<or> P x y \<or> P y x"
  by (induction xs) auto

lemma find_split:
  assumes "find P xs = Some x"
  obtains pre post where "xs = pre @ x # post" "\<forall>y \<in> set pre. \<not> P y" "P x"
  using assms
proof (induction xs arbitrary: thesis)
  case (Cons y ys)
  show ?case
  proof (cases "P y")
    case True
    with Cons.prems(2) show ?thesis by (intro Cons.prems(1) [of "[]" ys]) simp_all
  next
    case False
    with Cons.prems(2) Cons.IH obtain pre post where "ys = pre @ x # post" "\<forall>z \<in> set pre. \<not> P z" "P x"
      by auto
    with False show ?thesis by (intro Cons.prems(1) [of "y # pre" post]) simp_all
  qed
qed simp

end
