(* ===== verification/Machine.thy ===== *)
theory Machine
  imports Prelude
begin

text \<open>
  The machine under the kernel: byte-addressed physical memory, the registers the kernel
  writes (\<open>cr3\<close>), panics as error values, and the byte loops (\<open>mem_zero\<close>,
  \<open>mem_copy\<close>) that most kernel files carry as private copies. A multi-byte load or store is
  little endian. The globals of the kernel are one record, extended by each component theory
  with the \<open>static\<close> variables of its C file.
\<close>

subsection \<open>Bytes and little-endian numbers\<close>

fun le_to_nat :: "u8 list \<Rightarrow> nat" where
  "le_to_nat [] = 0"
| "le_to_nat (b # bs) = unat b + 256 * le_to_nat bs"

fun nat_to_le :: "nat \<Rightarrow> nat \<Rightarrow> u8 list" where
  "nat_to_le 0 v = []"
| "nat_to_le (Suc n) v = word_of_nat v # nat_to_le n (v div 256)"

lemma length_nat_to_le [simp]: "length (nat_to_le n v) = n"
  by (induction n arbitrary: v) auto

lemma le_to_nat_nat_to_le: "le_to_nat (nat_to_le n v) = v mod 256 ^ n"
proof (induction n arbitrary: v)
  case (Suc n)
  have "le_to_nat (nat_to_le (Suc n) v) = v mod 256 + 256 * (v div 256 mod 256 ^ n)"
    by (simp add: Suc unat_of_nat)
  also have "\<dots> = v mod (256 * 256 ^ n)"
    by (simp add: mod_mult2_eq)
  finally show ?case by simp
qed simp

lemma le_to_nat_less: "le_to_nat bs < 256 ^ length bs"
proof (induction bs)
  case (Cons b bs)
  then show ?case
    using unat_u8_less [of b] by (simp del: unat_u8_less)
qed simp

subsection \<open>Physical memory\<close>

type_synonym memory = "u64 \<Rightarrow> u8"

definition read_bytes :: "memory \<Rightarrow> u64 \<Rightarrow> nat \<Rightarrow> u8 list" where
  "read_bytes m a n = map (\<lambda>i. m (a + word_of_nat i)) [0..<n]"

definition write_bytes :: "memory \<Rightarrow> u64 \<Rightarrow> u8 list \<Rightarrow> memory" where
  "write_bytes m a bs = (\<lambda>x. let i = unat (x - a) in if i < length bs then bs ! i else m x)"

definition read64 :: "memory \<Rightarrow> u64 \<Rightarrow> u64" where
  "read64 m a = word_of_nat (le_to_nat (read_bytes m a 8))"

definition write64 :: "memory \<Rightarrow> u64 \<Rightarrow> u64 \<Rightarrow> memory" where
  "write64 m a v = write_bytes m a (nat_to_le 8 (unat v))"

definition write32 :: "memory \<Rightarrow> u64 \<Rightarrow> u32 \<Rightarrow> memory" where
  "write32 m a v = write_bytes m a (nat_to_le 4 (unat v))"

definition read32 :: "memory \<Rightarrow> u64 \<Rightarrow> u32" where
  "read32 m a = word_of_nat (le_to_nat (read_bytes m a 4))"

lemma length_read_bytes [simp]: "length (read_bytes m a n) = n"
  by (simp add: read_bytes_def)

lemma write_bytes_outside:
  "length bs \<le> unat (x - a) \<Longrightarrow> write_bytes m a bs x = m x"
  by (simp add: write_bytes_def)

lemma read_write_bytes_same:
  assumes "length bs \<le> 2 ^ 64"
  shows "read_bytes (write_bytes m a bs) a (length bs) = bs"
  using assms
  by (intro nth_equalityI) (auto simp: read_bytes_def write_bytes_def unat_of_nat Let_def)

lemma read64_write64_same [simp]: "read64 (write64 m a v) a = v"
proof -
  have "read_bytes (write64 m a v) a 8 = nat_to_le 8 (unat v)"
    using read_write_bytes_same [of "nat_to_le 8 (unat v)" m a] by (simp add: write64_def)
  moreover have "unat v mod 256 ^ 8 = unat v"
    by simp
  ultimately show ?thesis
    unfolding read64_def by (simp only: le_to_nat_nat_to_le) simp
qed

lemma read_bytes_cong:
  "(\<And>i. i < n \<Longrightarrow> m (a + word_of_nat i) = m' (a + word_of_nat i)) \<Longrightarrow>
   read_bytes m a n = read_bytes m' a n"
  by (simp add: read_bytes_def)

text \<open>Two aligned cells of eight bytes are equal or do not overlap.\<close>

lemma aligned_cells_apart:
  fixes a b :: u64
  assumes "a \<noteq> b" "8 dvd unat a" "8 dvd unat b" "i < 8"
  shows "8 \<le> unat (b + word_of_nat i - a)"
proof -
  let ?d = "b - a"
  have "?d \<noteq> 0" using assms(1) by simp
  then have pos: "unat ?d \<noteq> 0" by (simp add: unat_eq_zero)
  have "8 dvd unat ?d"
  proof (cases "a \<le> b")
    case True
    with assms(2,3) show ?thesis by (simp add: unat_sub_exact)
  next
    case False
    then have "unat b < unat a" by (simp add: word_less_nat_alt not_le)
    then have "unat ?d = 2 ^ 64 - (unat a - unat b)"
      by (simp add: unat_sub_if_size word_size)
    moreover have "8 dvd (2::nat) ^ 64 - (unat a - unat b)"
      using assms(2,3) by (intro dvd_diff_nat) simp_all
    ultimately show ?thesis by simp
  qed
  with pos obtain k where k: "unat ?d = 8 * k" "0 < k" by (auto elim: dvdE)
  have "unat ?d < 18446744073709551616" by (rule unat_u64_less)
  with k have "unat ?d + 7 < 18446744073709551616" by presburger
  with assms(4) have "unat (?d + word_of_nat i) = unat ?d + i"
    by (subst unat_add_exact) (simp_all add: unat_of_nat)
  moreover have "b + word_of_nat i - a = ?d + word_of_nat i" by simp
  ultimately have "unat (b + word_of_nat i - a) = unat ?d + i" by (simp only:)
  with k show ?thesis by linarith
qed

lemma read64_write64_other:
  assumes "a \<noteq> b" "8 dvd unat a" "8 dvd unat b"
  shows "read64 (write64 m a v) b = read64 m b"
  using assms
  by (simp add: read64_def write64_def)
    (metis aligned_cells_apart length_nat_to_le read_bytes_cong write_bytes_outside)

lemma read64_cong:
  "(\<And>i. i < 8 \<Longrightarrow> m (a + word_of_nat i) = m' (a + word_of_nat i)) \<Longrightarrow> read64 m a = read64 m' a"
  by (simp add: read64_def cong: read_bytes_cong)

lemma write_bytes_elsewhere:
  assumes "unat a + length bs \<le> 2 ^ 64" "\<not> (unat a \<le> unat x \<and> unat x < unat a + length bs)"
  shows "write_bytes m a bs x = m x"
proof (rule write_bytes_outside)
  show "length bs \<le> unat (x - a)"
  proof (cases "a \<le> x")
    case True
    then have "unat (x - a) = unat x - unat a" "unat a \<le> unat x"
      by (simp_all add: unat_sub_exact word_le_nat_alt)
    with assms(2) show ?thesis by linarith
  next
    case False
    then have "unat (x - a) = 2 ^ 64 + unat x - unat a" "unat x < unat a"
      by (simp_all add: unat_sub_if' word_le_nat_alt)
    with assms(1) show ?thesis by linarith
  qed
qed

lemma unat_offset: "unat (a::u64) + n < 2 ^ 64 \<Longrightarrow> unat (a + word_of_nat n) = unat a + n"
  by (subst unat_add_exact) (simp_all add: unat_word_of_nat64)

lemma read_bytes_agree:
  assumes "unat a + n \<le> 2 ^ 64" "\<And>x. unat a \<le> unat x \<Longrightarrow> unat x < unat a + n \<Longrightarrow> m x = m' x"
  shows "read_bytes m a n = read_bytes m' a n"
proof (rule read_bytes_cong)
  fix i assume i: "i < n"
  then have "unat (a + word_of_nat i) = unat a + i" using assms(1) by (intro unat_offset) linarith
  with i show "m (a + word_of_nat i) = m' (a + word_of_nat i)" by (intro assms(2)) simp_all
qed

lemma read64_agree:
  "unat a + 8 \<le> 2 ^ 64 \<Longrightarrow> (\<And>x. unat a \<le> unat x \<Longrightarrow> unat x < unat a + 8 \<Longrightarrow> m x = m' x) \<Longrightarrow> read64 m a = read64 m' a"
  unfolding read64_def by (subst read_bytes_agree [of a 8 m m']) simp_all

lemma read32_agree:
  "unat a + 4 \<le> 2 ^ 64 \<Longrightarrow> (\<And>x. unat a \<le> unat x \<Longrightarrow> unat x < unat a + 4 \<Longrightarrow> m x = m' x) \<Longrightarrow> read32 m a = read32 m' a"
  unfolding read32_def by (subst read_bytes_agree [of a 4 m m']) simp_all

lemma read32_write32_same [simp]: "read32 (write32 m a v) a = v"
proof -
  have "read_bytes (write32 m a v) a 4 = nat_to_le 4 (unat v)"
    using read_write_bytes_same [of "nat_to_le 4 (unat v)" m a] by (simp add: write32_def)
  moreover have "unat v mod 256 ^ 4 = unat v"
    by simp
  ultimately show ?thesis
    unfolding read32_def by (simp only: le_to_nat_nat_to_le) simp
qed

lemma write64_elsewhere:
  "unat a + 8 \<le> 2 ^ 64 \<Longrightarrow> \<not> (unat a \<le> unat x \<and> unat x < unat a + 8) \<Longrightarrow> write64 m a v x = m x"
  unfolding write64_def by (rule write_bytes_elsewhere) simp_all

lemma write32_elsewhere:
  "unat a + 4 \<le> 2 ^ 64 \<Longrightarrow> \<not> (unat a \<le> unat x \<and> unat x < unat a + 4) \<Longrightarrow> write32 m a v x = m x"
  unfolding write32_def by (rule write_bytes_elsewhere) simp_all

lemma range_iff:
  fixes a p n :: u64
  assumes "unat p + unat n \<le> 2 ^ 64"
  shows "a - p < n \<longleftrightarrow> unat p \<le> unat a \<and> unat a < unat p + unat n"
proof (cases "p \<le> a")
  case True
  then have "unat (a - p) = unat a - unat p" "unat p \<le> unat a" by (simp_all add: unat_sub_exact word_le_nat_alt)
  then show ?thesis unfolding word_less_nat_alt by linarith
next
  case False
  then have "unat (a - p) = 2 ^ 64 + unat a - unat p" "unat a < unat p"
    by (simp_all add: unat_sub_if' word_le_nat_alt)
  with assms show ?thesis unfolding word_less_nat_alt by linarith
qed

subsection \<open>Byte loops\<close>

text \<open>
  \<open>mem_zero\<close> of \<open>pmm.c\<close> (and its copies in \<open>heap.c\<close>, \<open>vmm.c\<close>, \<open>process.c\<close> and
  \<open>okmod.c\<close>), as the loop over the byte index. Its closed form is what the proofs and the
  evaluation of concrete states use.
\<close>

function mem_zero_from :: "memory \<Rightarrow> u64 \<Rightarrow> u64 \<Rightarrow> u64 \<Rightarrow> memory" where
  "mem_zero_from m p i sz =
     (if i < sz then mem_zero_from (m(p + i := 0)) p (i + 1) sz else m)"
  by pat_completeness auto
termination
  by (relation "measure (\<lambda>(m, p, i, sz). unat sz - unat i)")
    (auto simp: unat_Suc_less word_less_nat_alt)

declare mem_zero_from.simps [simp del]

definition mem_zero :: "memory \<Rightarrow> u64 \<Rightarrow> u64 \<Rightarrow> memory" where
  "mem_zero m p sz = mem_zero_from m p 0 sz"

lemma mem_zero_from_eq:
  "mem_zero_from m p i sz = (\<lambda>a. if i \<le> a - p \<and> a - p < sz then 0 else m a)"
proof (induction m p i sz rule: mem_zero_from.induct)
  case (1 m p i sz)
  show ?case
  proof (cases "i < sz")
    case True
    have le: "i + 1 \<le> x \<longleftrightarrow> i < x" for x
      using unat_Suc_less [OF True] by (simp add: word_le_nat_alt word_less_nat_alt Suc_le_eq)
    have "mem_zero_from m p i sz = mem_zero_from (m(p + i := 0)) p (i + 1) sz"
      using True by (simp add: mem_zero_from.simps [of m p i sz])
    also have "\<dots> = (\<lambda>a. if i < a - p \<and> a - p < sz then 0 else (m(p + i := 0)) a)"
      using 1 [OF True] by (simp only: le)
    also have "\<dots> = (\<lambda>a. if i \<le> a - p \<and> a - p < sz then 0 else m a)"
    proof
      fix a
      show "(if i < a - p \<and> a - p < sz then 0 else (m(p + i := 0)) a) =
          (if i \<le> a - p \<and> a - p < sz then 0 else m a)"
      proof (cases "a = p + i")
        case True
        with \<open>i < sz\<close> show ?thesis by simp
      next
        case False
        then have "a - p \<noteq> i" by auto
        with False show ?thesis by (auto simp: order.order_iff_strict)
      qed
    qed
    finally show ?thesis .
  next
    case False
    then show ?thesis
      by (auto simp: fun_eq_iff mem_zero_from.simps [of m p i sz])
  qed
qed

lemma mem_zero_eq: "mem_zero m p sz = (\<lambda>a. if a - p < sz then 0 else m a)"
  by (simp add: mem_zero_def mem_zero_from_eq)

lemma mem_zero_zero_size [simp]: "mem_zero m p 0 = m"
  by (simp add: mem_zero_eq)

lemma mem_zero_inside: "a - p < sz \<Longrightarrow> mem_zero m p sz a = 0"
  and mem_zero_outside: "\<not> a - p < sz \<Longrightarrow> mem_zero m p sz a = m a"
  by (simp_all add: mem_zero_eq)

text \<open>
  \<open>mem_copy_local\<close> of \<open>process.c\<close> and \<open>vfs.c\<close> (\<open>mem_copy_okmod\<close>, \<open>copy_memory\<close>): bytes are copied
  one after the other in increasing order.
\<close>

fun mem_copy_loop :: "nat list \<Rightarrow> u64 \<Rightarrow> u64 \<Rightarrow> memory \<Rightarrow> memory" where
  "mem_copy_loop [] dst src m = m"
| "mem_copy_loop (i # is) dst src m =
     mem_copy_loop is dst src (m(dst + word_of_nat i := m (src + word_of_nat i)))"

definition mem_copy :: "u64 \<Rightarrow> u64 \<Rightarrow> u64 \<Rightarrow> memory \<Rightarrow> memory" where
  "mem_copy dst src sz m = mem_copy_loop [0..<unat sz] dst src m"

subsection \<open>Page loops\<close>

text \<open>
  The values of the loop variable in
  \<open>for (addr = start; addr < lim; addr += PAGE_SIZE)\<close>. The equation \<open>page_addrs_unfold\<close>
  is one turn of that loop; it needs the addition not to wrap, which holds for every page
  aligned \<open>lim\<close> (all callers align it).
\<close>

definition page_addrs :: "u64 \<Rightarrow> u64 \<Rightarrow> u64 list" where
  "page_addrs start lim =
     map (\<lambda>i. start + 4096 * word_of_nat i) [0..<(unat lim - unat start + 4095) div 4096]"

lemma ceil_div_step:
  assumes "0 < (d::nat)"
  shows "(d + 4095) div 4096 = Suc ((d - 4096 + 4095) div 4096)"
proof (cases "d \<le> 4096")
  case True
  with assms have "(d + 4095) div 4096 = 1"
    by (intro div_nat_eqI) simp_all
  with True show ?thesis by simp
next
  case False
  then have "d + 4095 = (d - 4096 + 4095) + 4096" by simp
  then show ?thesis by simp
qed

lemma page_addrs_empty: "\<not> start < lim \<Longrightarrow> page_addrs start lim = []"
  by (simp add: page_addrs_def word_less_nat_alt not_less)

lemma page_addrs_unfold:
  assumes "unat lim \<le> 2 ^ 64 - 4096"
  shows "page_addrs start lim =
    (if start < lim then start # page_addrs (start + 4096) lim else [])"
proof (cases "start < lim")
  case True
  then have lt: "unat start < unat lim" by (simp add: word_less_nat_alt)
  with assms have st: "unat (start + 4096) = unat start + 4096"
    by (subst unat_add_exact) simp_all
  define n where "n = (unat lim - (unat start + 4096) + 4095) div 4096"
  from lt have len: "(unat lim - unat start + 4095) div 4096 = Suc n"
    using ceil_div_step [of "unat lim - unat start"] by (simp add: n_def)
  have upt: "[0..<Suc n] = 0 # map Suc [0..<n]"
    by (simp add: upt_conv_Cons map_Suc_upt del: upt_Suc)
  have "page_addrs start lim = start # map (\<lambda>i. start + 4096 * word_of_nat (Suc i)) [0..<n]"
    unfolding page_addrs_def len upt by simp
  also have "start + 4096 * word_of_nat (Suc i) = start + 4096 + 4096 * word_of_nat i" for i
    by (simp add: distrib_left add.assoc)
  then have "start # map (\<lambda>i. start + 4096 * word_of_nat (Suc i)) [0..<n] =
      start # page_addrs (start + 4096) lim"
    unfolding page_addrs_def st n_def by (simp only:)
  finally show ?thesis using True by simp
qed (simp add: page_addrs_empty)

subsection \<open>Panics\<close>

text \<open>
  \<open>panic\<close> prints its message and halts the CPU for ever (\<open>kernel/panic.c\<close>): a value
  \<open>Inl (Panic message)\<close>, after which nothing runs. A loop that never ends is \<open>Inl Hang\<close>
  (\<open>of_loop\<close> turns the result of a partial function into such a value). \<open>kbind\<close> sequences
  operations that may stop the machine.
\<close>

datatype halt = Panic string | Hang

type_synonym 'a or_panic = "halt + 'a"

definition of_loop :: "'a option \<Rightarrow> 'a or_panic" where
  "of_loop r = (case r of None \<Rightarrow> Inl Hang | Some x \<Rightarrow> Inr x)"

lemma of_loop_simps [simp]: "of_loop None = Inl Hang" "of_loop (Some x) = Inr x"
  by (simp_all add: of_loop_def)

definition panic :: "string \<Rightarrow> 'a or_panic" where
  "panic message = Inl (Panic message)"

definition kbind :: "'a or_panic \<Rightarrow> ('a \<Rightarrow> 'b or_panic) \<Rightarrow> 'b or_panic" where
  "kbind r f = (case r of Inl e \<Rightarrow> Inl e | Inr x \<Rightarrow> f x)"

lemma kbind_simps [simp]: "kbind (Inl e) f = Inl e" "kbind (Inr x) f = f x"
  by (simp_all add: kbind_def)

lemma kbind_Inr_iff: "kbind r f = Inr y \<longleftrightarrow> (\<exists>x. r = Inr x \<and> f x = Inr y)"
  by (cases r) simp_all

lemma kbind_InrE:
  assumes "kbind r f = Inr y"
  obtains x where "r = Inr x" "f x = Inr y"
  using assms by (auto simp: kbind_Inr_iff)

subsection \<open>The machine state\<close>

text \<open>
  \<open>mem\<close> is physical memory, \<open>cr3\<close> the page-table root the CPU runs on
  (\<open>read_cr3\<close>, \<open>write_cr3\<close> in \<open>kernel/cpu.c\<close>).
\<close>

record machine =
  mem :: memory
  cr3 :: u64

definition read_cr3 :: "'a machine_scheme \<Rightarrow> u64" where
  "read_cr3 s = cr3 s"

definition write_cr3 :: "u64 \<Rightarrow> 'a machine_scheme \<Rightarrow> 'a machine_scheme" where
  "write_cr3 value s = s\<lparr>cr3 := value\<rparr>"

end
