(* ===== verification/Bootinfo.thy ===== *)
theory Bootinfo
  imports Machine
begin

text \<open>
  The boot protocol of \<open>include/bootinfo.h\<close>: what the UEFI loader hands to the kernel.
  \<open>memory_map\<close> is the fixed array of 256 descriptors; the kernel reads its first
  \<open>memory_map_entries\<close> elements (\<open>memory_descriptors\<close>).
\<close>

record OreMemoryDescriptor =
  md_type :: u64
  physical_start :: u64
  virtual_start :: u64
  number_of_pages :: u64
  attribute :: u64

record OreFramebuffer =
  fb_base :: u64
  fb_width :: u32
  fb_height :: u32
  pixels_per_scanline :: u32
  pixel_format :: u32

record BootInfo =
  bi_magic :: u64
  rsdp :: u64
  kernel_base :: u64
  kernel_size :: u64
  initramfs_base :: u64
  initramfs_size :: u64
  framebuffer :: OreFramebuffer
  memory_map_entries :: u64
  memory_map_descriptor_size :: u64
  memory_map :: "OreMemoryDescriptor list"
  cmdline :: "u8 list"

definition ORE_BOOTINFO_MAGIC :: u64 where
  "ORE_BOOTINFO_MAGIC = 0x4f524542494e464f"

definition memory_descriptors :: "BootInfo \<Rightarrow> OreMemoryDescriptor list" where
  "memory_descriptors bi = take (unat (memory_map_entries bi)) (memory_map bi)"

text \<open>\<open>sizeof(BootInfo)\<close>: eight words, the framebuffer, 256 descriptors of 40 bytes, 128 bytes.\<close>

definition sizeof_BootInfo :: u64 where
  "sizeof_BootInfo = 6 * 8 + 24 + 2 * 8 + 256 * 40 + 128"

end
