(* ===== verification/Pmm.thy ===== *)
theory Pmm
  imports Bootinfo
begin

text \<open>
  The physical memory manager, \<open>kernel/pmm.c\<close>: a bitmap with one bit per page frame
  (set: reserved or allocated), four counters, first-fit allocation of runs of frames. The
  \<open>static\<close> variables of the file are the fields of \<open>pmm\<close>; \<open>bitmap\<close> gives the byte at
  an offset from the bitmap pointer. The spinlock that every entry point holds makes each
  operation atomic (theory \<open>Spinlock\<close>).

  Three simplifications. The bytes of the bitmap are a field of their own and not part of \<open>mem\<close>: the
  frames they lie in are reserved by \<open>pmm_init\<close> and never handed out (theory \<open>Pmm_Boot\<close>), so a client
  that keeps to its allocations cannot reach them. \<open>BootInfo\<close> is a value that \<open>pmm_init\<close> only reads:
  filling the bitmap does not change it, as when the boot information does not lie where the bitmap
  is placed. \<open>find_slot\<close> tries the addresses of a region that lie below its end, which are all that the
  loop of \<open>find_bitmap_storage\<close> tries unless \<open>addr + pages * PAGE_SIZE\<close> wraps around; the theorems about
  \<open>pmm_init\<close> assume regions below the 52-bit limit of physical addresses, where it does not.
\<close>

record pmm = machine +
  bitmap :: "u64 \<Rightarrow> u8"
  bitmap_base :: u64
  bitmap_bytes :: u64
  max_phys :: u64
  total_page_count :: u64
  free_page_count :: u64
  reserved_page_count :: u64
  used_page_count :: u64

abbreviation LOW_RESERVED_END :: u64 where
  "LOW_RESERVED_END \<equiv> 0x100000"

abbreviation TRAMPOLINE_START :: u64 where
  "TRAMPOLINE_START \<equiv> 0x7000"

abbreviation TRAMPOLINE_END :: u64 where
  "TRAMPOLINE_END \<equiv> 0x9000"

subsection \<open>The bitmap\<close>

definition bit_of_page :: "u64 \<Rightarrow> u8" where
  "bit_of_page page = ucast (push_bit (unat (page mod 8)) (1::u32))"

definition bitmap_set :: "u64 \<Rightarrow> 'a pmm_scheme \<Rightarrow> 'a pmm_scheme" where
  "bitmap_set page s =
     s\<lparr>bitmap := (bitmap s)(page div 8 := bitmap s (page div 8) OR bit_of_page page)\<rparr>"

definition bitmap_clear :: "u64 \<Rightarrow> 'a pmm_scheme \<Rightarrow> 'a pmm_scheme" where
  "bitmap_clear page s =
     s\<lparr>bitmap := (bitmap s)(page div 8 := bitmap s (page div 8) AND NOT (bit_of_page page))\<rparr>"

definition bitmap_test :: "'a pmm_scheme \<Rightarrow> u64 \<Rightarrow> bool" where
  "bitmap_test s page \<longleftrightarrow> bitmap s (page div 8) AND bit_of_page page \<noteq> 0"

definition ranges_overlap :: "u64 \<Rightarrow> u64 \<Rightarrow> u64 \<Rightarrow> u64 \<Rightarrow> bool" where
  "ranges_overlap a_start a_end b_start b_end \<longleftrightarrow> a_start < b_end \<and> b_start < a_end"

definition usable_descriptor :: "OreMemoryDescriptor \<Rightarrow> bool" where
  "usable_descriptor d \<longleftrightarrow> md_type d = 7"

definition usable :: "BootInfo \<Rightarrow> OreMemoryDescriptor list" where
  "usable bi = filter usable_descriptor (memory_descriptors bi)"

subsection \<open>Initialisation\<close>

definition reserve_page :: "u64 \<Rightarrow> 'a pmm_scheme \<Rightarrow> 'a pmm_scheme" where
  "reserve_page page s =
     (if bitmap_test s page then s
      else (bitmap_set page s)
        \<lparr>free_page_count := (if free_page_count s \<noteq> 0 then free_page_count s - 1 else free_page_count s),
         reserved_page_count := reserved_page_count s + 1\<rparr>)"

fun reserve_addrs :: "u64 list \<Rightarrow> 'a pmm_scheme \<Rightarrow> 'a pmm_scheme" where
  "reserve_addrs [] s = s"
| "reserve_addrs (addr # addrs) s =
     (if addr < max_phys s then reserve_addrs addrs (reserve_page (addr div PAGE_SIZE) s) else s)"

definition reserve_range :: "u64 \<Rightarrow> u64 \<Rightarrow> 'a pmm_scheme \<Rightarrow> 'a pmm_scheme" where
  "reserve_range start lim s =
     reserve_addrs (page_addrs (align_down start PAGE_SIZE) (align_up lim PAGE_SIZE)) s"

definition descriptor_end :: "OreMemoryDescriptor \<Rightarrow> u64" where
  "descriptor_end d = physical_start d + number_of_pages d * PAGE_SIZE"

definition descriptor_addrs :: "OreMemoryDescriptor \<Rightarrow> u64 list" where
  "descriptor_addrs d =
     page_addrs (align_up (physical_start d) PAGE_SIZE) (align_down (descriptor_end d) PAGE_SIZE)"

fun find_slot :: "BootInfo \<Rightarrow> u64 \<Rightarrow> u64 \<Rightarrow> u64 list \<Rightarrow> u64 option" where
  "find_slot bi pages lim [] = None"
| "find_slot bi pages lim (addr # addrs) =
     (if addr + pages * PAGE_SIZE \<le> lim then
        if ranges_overlap addr (addr + pages * PAGE_SIZE) (kernel_base bi) (kernel_base bi + kernel_size bi)
        then find_slot bi pages lim addrs
        else Some addr
      else None)"

fun find_bitmap_in :: "BootInfo \<Rightarrow> u64 \<Rightarrow> OreMemoryDescriptor list \<Rightarrow> u64 option" where
  "find_bitmap_in bi pages [] = None"
| "find_bitmap_in bi pages (d # ds) =
     (let start = align_up (physical_start d) PAGE_SIZE;
          lim = align_down (descriptor_end d) PAGE_SIZE;
          start' = (if start < LOW_RESERVED_END then LOW_RESERVED_END else start)
      in case find_slot bi pages lim (page_addrs start' lim) of
           Some addr \<Rightarrow> Some addr
         | None \<Rightarrow> find_bitmap_in bi pages ds)"

definition find_bitmap_storage :: "BootInfo \<Rightarrow> u64 \<Rightarrow> u64 or_panic" where
  "find_bitmap_storage bi bytes =
     (case find_bitmap_in bi (align_up bytes PAGE_SIZE div PAGE_SIZE) (usable bi) of
        Some addr \<Rightarrow> Inr addr
      | None \<Rightarrow> panic ''PMM: no room for bitmap'')"

definition release_page :: "u64 \<Rightarrow> 'a pmm_scheme \<Rightarrow> 'a pmm_scheme" where
  "release_page page s = (bitmap_clear page s)
     \<lparr>free_page_count := free_page_count s + 1, reserved_page_count := reserved_page_count s - 1\<rparr>"

definition release_descriptor :: "OreMemoryDescriptor \<Rightarrow> 'a pmm_scheme \<Rightarrow> 'a pmm_scheme" where
  "release_descriptor d s = fold (\<lambda>addr. release_page (addr div PAGE_SIZE)) (descriptor_addrs d) s"

definition highest_usable :: "BootInfo \<Rightarrow> u64" where
  "highest_usable bi = fold (\<lambda>d m. if m < descriptor_end d then descriptor_end d else m) (usable bi) 0"

definition pmm_init :: "BootInfo \<Rightarrow> u64 \<Rightarrow> 'a pmm_scheme \<Rightarrow> 'a pmm_scheme or_panic" where
  "pmm_init bi bi_addr s =
     (let top = highest_usable bi in
      if top = 0 then panic ''PMM: no usable memory''
      else
        let total = align_up top PAGE_SIZE div PAGE_SIZE;
            bytes = align_up ((total + 7) div 8) PAGE_SIZE
        in kbind (find_bitmap_storage bi bytes) (\<lambda>addr.
          let s0 = s\<lparr>max_phys := top, total_page_count := total, bitmap_bytes := bytes,
                     bitmap_base := addr, bitmap := (\<lambda>i. if i < bytes then 0xff else bitmap s i),
                     free_page_count := 0, reserved_page_count := total, used_page_count := 0\<rparr>;
              s1 = fold release_descriptor (usable bi) s0;
              s2 = reserve_range 0 LOW_RESERVED_END s1;
              s3 = reserve_range TRAMPOLINE_START TRAMPOLINE_END s2;
              s4 = reserve_range addr (addr + bytes) s3;
              s5 = reserve_range (kernel_base bi) (kernel_base bi + kernel_size bi) s4;
              s6 = (if initramfs_base bi \<noteq> 0 \<and> initramfs_size bi \<noteq> 0
                    then reserve_range (initramfs_base bi) (initramfs_base bi + initramfs_size bi) s5
                    else s5)
          in Inr (reserve_range bi_addr (bi_addr + sizeof_BootInfo) s6)))"

subsection \<open>Allocation and release\<close>

text \<open>
  \<open>alloc_scan\<close> is the search loop of \<open>pmm_alloc_pages\<close>: the first page of the first run of
  \<open>count\<close> clear bits. \<open>page\<close>, \<open>run\<close> and \<open>start_page\<close> are its local variables.
\<close>

function alloc_scan :: "'a pmm_scheme \<Rightarrow> u32 \<Rightarrow> u64 \<Rightarrow> u64 \<Rightarrow> u64 \<Rightarrow> u64 option" where
  "alloc_scan s count page run start_page =
     (if page < total_page_count s then
        if \<not> bitmap_test s page then
          let start_page' = (if run = 0 then page else start_page);
              run' = run + 1
          in if run' = ucast count then Some start_page'
             else alloc_scan s count (page + 1) run' start_page'
        else alloc_scan s count (page + 1) 0 start_page
      else None)"
  by pat_completeness auto
termination
  by (relation "measure (\<lambda>(s, count, page, run, start_page). unat (total_page_count s) - unat page)")
    (auto simp: unat_Suc_less word_less_nat_alt)

declare alloc_scan.simps [simp del]

definition mark_pages :: "u64 \<Rightarrow> u32 \<Rightarrow> 'a pmm_scheme \<Rightarrow> 'a pmm_scheme" where
  "mark_pages start_page count s =
     fold (\<lambda>i. bitmap_set (start_page + word_of_nat i)) [0..<unat count] s"

definition pmm_alloc_pages :: "u32 \<Rightarrow> 'a pmm_scheme \<Rightarrow> u64 \<times> 'a pmm_scheme" where
  "pmm_alloc_pages count s =
     (if count = 0 then (0, s)
      else case alloc_scan s count (LOW_RESERVED_END div PAGE_SIZE) 0 0 of
             None \<Rightarrow> (0, s)
           | Some start_page \<Rightarrow>
               let s1 = mark_pages start_page count s;
                   s2 = s1\<lparr>free_page_count := free_page_count s1 - ucast count,
                           used_page_count := used_page_count s1 + ucast count\<rparr>;
                   ptr = start_page * PAGE_SIZE
               in (ptr, s2\<lparr>mem := mem_zero (mem s2) ptr (ucast count * PAGE_SIZE)\<rparr>))"

definition free_one :: "u64 \<Rightarrow> 'a pmm_scheme \<Rightarrow> 'a pmm_scheme" where
  "free_one page s =
     (if page < total_page_count s \<and> bitmap_test s page then
        (bitmap_clear page s)
          \<lparr>free_page_count := free_page_count s + 1,
           used_page_count := (if used_page_count s \<noteq> 0 then used_page_count s - 1 else used_page_count s)\<rparr>
      else s)"

definition pmm_free_pages :: "u64 \<Rightarrow> u32 \<Rightarrow> 'a pmm_scheme \<Rightarrow> 'a pmm_scheme" where
  "pmm_free_pages ptr count s =
     (if ptr = 0 \<or> count = 0 then s
      else fold (\<lambda>i. free_one (ptr div PAGE_SIZE + word_of_nat i)) [0..<unat count] s)"

definition pmm_alloc_page :: "'a pmm_scheme \<Rightarrow> u64 \<times> 'a pmm_scheme" where
  "pmm_alloc_page s = pmm_alloc_pages 1 s"

definition pmm_free_page :: "u64 \<Rightarrow> 'a pmm_scheme \<Rightarrow> 'a pmm_scheme" where
  "pmm_free_page page s = pmm_free_pages page 1 s"

definition early_alloc_pages :: "u32 \<Rightarrow> 'a pmm_scheme \<Rightarrow> u64 \<times> 'a pmm_scheme" where
  "early_alloc_pages pages s = pmm_alloc_pages pages s"

definition pmm_total_pages :: "'a pmm_scheme \<Rightarrow> u64" where
  "pmm_total_pages s = total_page_count s"

definition pmm_free_pages_count :: "'a pmm_scheme \<Rightarrow> u64" where
  "pmm_free_pages_count s = free_page_count s"

definition pmm_used_pages :: "'a pmm_scheme \<Rightarrow> u64" where
  "pmm_used_pages s = used_page_count s"

definition pmm_reserved_pages :: "'a pmm_scheme \<Rightarrow> u64" where
  "pmm_reserved_pages s = reserved_page_count s"

subsection \<open>The frames an allocator manages\<close>

text \<open>
  \<open>fits s p n\<close>: the frames \<open>p, \<dots>, p + n - 1\<close> exist, lie above the low megabyte and are
  free. \<open>free_frames\<close> is the abstract state of the allocator, \<open>pmm_ok\<close> its invariant: the
  free counter counts the clear bits, the three counters add up to the number of frames, and the
  frames lie below the 52-bit physical address limit of the architecture.
  \<open>frames_of\<close> is the block behind a pointer and a page count; \<open>alloc_result\<close> the whole state
  after an allocation at \<open>p\<close>.
\<close>

definition run_free :: "'a pmm_scheme \<Rightarrow> nat \<Rightarrow> nat \<Rightarrow> bool" where
  "run_free s p n \<longleftrightarrow> (\<forall>i<n. \<not> bitmap_test s (word_of_nat (p + i)))"

definition fits :: "'a pmm_scheme \<Rightarrow> nat \<Rightarrow> nat \<Rightarrow> bool" where
  "fits s p n \<longleftrightarrow> 256 \<le> p \<and> p + n \<le> unat (total_page_count s) \<and> run_free s p n"

definition free_frames :: "'a pmm_scheme \<Rightarrow> nat set" where
  "free_frames s = {p. p < unat (total_page_count s) \<and> \<not> bitmap_test s (word_of_nat p)}"

definition pmm_ok :: "'a pmm_scheme \<Rightarrow> bool" where
  "pmm_ok s \<longleftrightarrow> unat (total_page_count s) \<le> 2 ^ 40
     \<and> unat (free_page_count s) = card (free_frames s)
     \<and> unat (free_page_count s) + unat (used_page_count s) + unat (reserved_page_count s)
         = unat (total_page_count s)"

definition frames_of :: "u64 \<Rightarrow> u32 \<Rightarrow> nat set" where
  "frames_of ptr count = {unat (ptr div PAGE_SIZE)..<unat (ptr div PAGE_SIZE) + unat count}"

definition page_run :: "u64 \<Rightarrow> u32 \<Rightarrow> u64 list" where
  "page_run ptr count = map (\<lambda>i. ptr div PAGE_SIZE + word_of_nat i) [0..<unat count]"

definition alloc_result :: "'a pmm_scheme \<Rightarrow> u32 \<Rightarrow> u64 \<Rightarrow> 'a pmm_scheme" where
  "alloc_result s count p =
     (mark_pages (p div PAGE_SIZE) count s)
       \<lparr>free_page_count := free_page_count s - ucast count,
        used_page_count := used_page_count s + ucast count,
        mem := mem_zero (mem s) p (ucast count * PAGE_SIZE)\<rparr>"

text \<open>A sequence of requests served one after the other: the blocks granted, newest last.\<close>

fun alloc_seq :: "(u32 \<Rightarrow> 's \<Rightarrow> u64 \<times> 's) \<Rightarrow> u32 list \<Rightarrow> 's \<Rightarrow> (u64 \<times> u32) list \<times> 's" where
  "alloc_seq alloc [] s = ([], s)"
| "alloc_seq alloc (n # ns) s =
     (let (p, s1) = alloc n s;
          (blocks, s2) = alloc_seq alloc ns s1
      in (if p \<noteq> 0 then (p, n) # blocks else blocks, s2))"

text \<open>A small machine whose 272 frames are all free, for concrete instances.\<close>

definition demo_pmm :: pmm where
  "demo_pmm = \<lparr>mem = (\<lambda>_. 7), cr3 = 0, bitmap = (\<lambda>_. 0), bitmap_base = 0x180000,
     bitmap_bytes = 4096, max_phys = 0x110000, total_page_count = 272, free_page_count = 272,
     reserved_page_count = 0, used_page_count = 0\<rparr>"

subsection \<open>Facts about the bitmap and the search\<close>

lemma bit_of_page_iff: "bit (bit_of_page page) j \<longleftrightarrow> j = unat (page mod 8)"
proof -
  have "unat (page mod 8) < 8" by (simp add: unat_mod_distrib)
  then show ?thesis by (auto simp: bit_of_page_def bit_simps)
qed

lemma bitmap_test_iff: "bitmap_test s page \<longleftrightarrow> bit (bitmap s (page div 8)) (unat (page mod 8))"
proof -
  have nz: "x \<noteq> 0 \<longleftrightarrow> (\<exists>n. bit x n)" for x :: u8
    by (auto intro: bit_word_eqI)
  show ?thesis
    unfolding bitmap_test_def nz by (auto simp: bit_and_iff bit_of_page_iff)
qed

lemma page_slot_eq: "(p::u64) div 8 = q div 8 \<and> unat (p mod 8) = unat (q mod 8) \<longleftrightarrow> p = q"
  by (metis unat_eq_iff div_mult_mod_eq)

lemma bitmap_test_set [simp]: "bitmap_test (bitmap_set p s) q \<longleftrightarrow> q = p \<or> bitmap_test s q"
  using page_slot_eq [of p q]
  by (auto simp: bitmap_test_iff bitmap_set_def bit_or_iff bit_of_page_iff)

lemma bitmap_test_clear [simp]: "bitmap_test (bitmap_clear p s) q \<longleftrightarrow> q \<noteq> p \<and> bitmap_test s q"
proof -
  have "unat (q mod 8) < 8" by (simp add: unat_mod_distrib)
  then show ?thesis
    using page_slot_eq [of p q]
    by (auto simp: bitmap_test_iff bitmap_clear_def bit_and_iff bit_not_iff bit_of_page_iff)
qed

lemma bitmap_test_cong [simp]:
  "bitmap_test (s\<lparr>mem := m\<rparr>) q = bitmap_test s q"
  "bitmap_test (s\<lparr>cr3 := c\<rparr>) q = bitmap_test s q"
  "bitmap_test (s\<lparr>free_page_count := n\<rparr>) q = bitmap_test s q"
  "bitmap_test (s\<lparr>used_page_count := n\<rparr>) q = bitmap_test s q"
  "bitmap_test (s\<lparr>reserved_page_count := n\<rparr>) q = bitmap_test s q"
  by (simp_all add: bitmap_test_def)

lemma bitmap_set_frame [simp]:
  "mem (bitmap_set p s) = mem s"
  "total_page_count (bitmap_set p s) = total_page_count s"
  "free_page_count (bitmap_set p s) = free_page_count s"
  "used_page_count (bitmap_set p s) = used_page_count s"
  "reserved_page_count (bitmap_set p s) = reserved_page_count s"
  "max_phys (bitmap_set p s) = max_phys s"
  by (simp_all add: bitmap_set_def)

lemma bitmap_test_mark [simp]:
  "bitmap_test (mark_pages st c s) q \<longleftrightarrow> bitmap_test s q \<or> (\<exists>i < unat c. q = st + word_of_nat i)"
proof -
  have "bitmap_test (fold (\<lambda>i. bitmap_set (st + word_of_nat i)) [0..<n] s) q \<longleftrightarrow>
      bitmap_test s q \<or> (\<exists>i < n. q = st + word_of_nat i)" for n
    by (induction n) (auto simp: less_Suc_eq)
  then show ?thesis by (simp add: mark_pages_def)
qed

lemma run_free_Suc: "run_free s p (Suc n) \<longleftrightarrow> run_free s p n \<and> \<not> bitmap_test s (word_of_nat (p + n))"
  by (auto simp: run_free_def less_Suc_eq)

lemma not_fits_over_used:
  assumes "bitmap_test s page" "q \<le> unat page" "unat page < q + n"
  shows "\<not> fits s q n"
proof
  assume "fits s q n"
  then have "\<forall>i<n. \<not> bitmap_test s (word_of_nat (q + i))"
    unfolding fits_def run_free_def by blast
  moreover have "unat page - q < n" using assms(2,3) by linarith
  ultimately have "\<not> bitmap_test s (word_of_nat (q + (unat page - q)))"
    by blast
  moreover have "word_of_nat (q + (unat page - q)) = page" using assms(2) by simp
  ultimately show False using assms(1) by metis
qed

lemma alloc_scan_spec:
  assumes "unat run < unat count" "256 + unat run \<le> unat page"
    and "unat page \<le> unat (total_page_count s) \<or> run = 0"
    and "run_free s (unat page - unat run) (unat run)"
    and "run \<noteq> 0 \<Longrightarrow> unat start_page = unat page - unat run"
    and "\<And>q. q < unat page - unat run \<Longrightarrow> \<not> fits s q (unat count)"
  shows "case alloc_scan s count page run start_page of
      None \<Rightarrow> \<forall>q. \<not> fits s q (unat count)
    | Some st \<Rightarrow> fits s (unat st) (unat count) \<and> (\<forall>q < unat st. \<not> fits s q (unat count))"
  using assms
proof (induction s count page run start_page rule: alloc_scan.induct)
  case (1 s count page run start_page)
  let ?base = "unat page - unat run"
  show ?case
  proof (cases "page < total_page_count s")
    case False
    then have le: "unat (total_page_count s) \<le> unat page" by (simp add: word_less_nat_alt)
    have "\<not> fits s q (unat count)" for q
    proof (cases "q < ?base")
      case True
      then show ?thesis by (rule "1.prems"(6))
    next
      case False
      with "1.prems"(1,2) le show ?thesis by (auto simp: fits_def)
    qed
    with False show ?thesis by (simp add: alloc_scan.simps [of s count page])
  next
    case True
    note page1 = unat_Suc_less [OF True]
    have lt: "unat page < unat (total_page_count s)" using True by (simp add: word_less_nat_alt)
    show ?thesis
    proof (cases "bitmap_test s page")
      case used: True
      have none: "\<not> fits s q (unat count)" if "q < unat (page + 1) - unat 0" for q
      proof (cases "q < ?base")
        case True
        then show ?thesis by (rule "1.prems"(6))
      next
        case False
        with that used "1.prems"(1,2) show ?thesis
          by (intro not_fits_over_used [OF used]) (simp_all add: page1)
      qed
      show ?thesis
        using True used "1.IH"(2) [OF True] none "1.prems"(1,2) page1 lt
        by (simp add: alloc_scan.simps [of s count page] run_free_def)
    next
      case free: False
      have run1: "unat (run + 1) = Suc (unat run)"
        using "1.prems"(1) by (subst unat_Suc_less [of run "ucast count"]) (simp_all add: word_less_nat_alt)
      have ext: "run_free s ?base (Suc (unat run))"
        using "1.prems"(2,4) free by (simp add: run_free_Suc)
      let ?st = "if run = 0 then page else start_page"
      have st: "unat ?st = ?base" using "1.prems"(5) by simp
      show ?thesis
      proof (cases "run + 1 = ucast count")
        case full: True
        then have cnt: "unat count = Suc (unat run)"
          using run1 by (metis unat_ucast_u32_u64)
        have "fits s ?base (unat count)"
          using ext "1.prems"(2) lt by (simp add: fits_def cnt)
        then show ?thesis
          using True free full st "1.prems"(6)
          by (simp add: alloc_scan.simps [of s count page] Let_def)
      next
        case False
        have "unat (run + 1) \<noteq> unat count"
          using False by (metis unat_eq_iff unat_ucast_u32_u64)
        then have "unat (run + 1) < unat count"
          using "1.prems"(1) run1 by simp
        moreover have "unat (page + 1) - unat (run + 1) = ?base"
          using page1 run1 by simp
        ultimately show ?thesis
          using "1.IH"(1) [OF True free refl refl False] True free False ext st page1 run1 lt "1.prems"(2,6)
          by (simp add: alloc_scan.simps [of s count page] Let_def)
      qed
    qed
  qed
qed

subsection \<open>Free frames and the accounting invariant\<close>

lemma finite_free_frames [simp]: "finite (free_frames s)"
  by (simp add: free_frames_def)

lemma fits_iff: "fits s p n \<longleftrightarrow> 256 \<le> p \<and> p + n \<le> unat (total_page_count s) \<and> {p..<p + n} \<subseteq> free_frames s"
proof
  assume f: "fits s p n"
  have "q \<in> free_frames s" if "q \<in> {p..<p + n}" for q
  proof -
    from that have "q = p + (q - p)" "q - p < n" by auto
    then obtain i where "q = p + i" "i < n" by blast
    with f show ?thesis unfolding fits_def run_free_def free_frames_def by auto
  qed
  with f show "256 \<le> p \<and> p + n \<le> unat (total_page_count s) \<and> {p..<p + n} \<subseteq> free_frames s"
    by (auto simp: fits_def)
next
  assume a: "256 \<le> p \<and> p + n \<le> unat (total_page_count s) \<and> {p..<p + n} \<subseteq> free_frames s"
  then have "\<not> bitmap_test s (word_of_nat (p + i))" if "i < n" for i
  proof -
    have "p + i \<in> {p..<p + n}" using that by simp
    with a have "p + i \<in> free_frames s" by blast
    then show ?thesis unfolding free_frames_def by blast
  qed
  with a show "fits s p n" unfolding fits_def run_free_def by blast
qed

lemma mark_pages_frame [simp]:
  "total_page_count (mark_pages st c s) = total_page_count s"
  "free_page_count (mark_pages st c s) = free_page_count s"
  "used_page_count (mark_pages st c s) = used_page_count s"
  "reserved_page_count (mark_pages st c s) = reserved_page_count s"
  "mem (mark_pages st c s) = mem s"
proof -
  have "total_page_count (fold (\<lambda>i. bitmap_set (st + word_of_nat i)) xs s) = total_page_count s
    \<and> free_page_count (fold (\<lambda>i. bitmap_set (st + word_of_nat i)) xs s) = free_page_count s
    \<and> used_page_count (fold (\<lambda>i. bitmap_set (st + word_of_nat i)) xs s) = used_page_count s
    \<and> reserved_page_count (fold (\<lambda>i. bitmap_set (st + word_of_nat i)) xs s) = reserved_page_count s
    \<and> mem (fold (\<lambda>i. bitmap_set (st + word_of_nat i)) xs s) = mem s" for xs
    by (induction xs arbitrary: s) simp_all
  then show
    "total_page_count (mark_pages st c s) = total_page_count s"
    "free_page_count (mark_pages st c s) = free_page_count s"
    "used_page_count (mark_pages st c s) = used_page_count s"
    "reserved_page_count (mark_pages st c s) = reserved_page_count s"
    "mem (mark_pages st c s) = mem s"
    by (simp_all add: mark_pages_def)
qed

lemma free_frames_mark:
  assumes "unat st + unat c \<le> unat (total_page_count s)"
  shows "free_frames (mark_pages st c s) = free_frames s - {unat st..<unat st + unat c}"
proof -
  have "(\<exists>i<unat c. word_of_nat p = st + word_of_nat i) \<longleftrightarrow> p \<in> {unat st..<unat st + unat c}"
    if p: "p < unat (total_page_count s)" for p
  proof -
    have "p < 2 ^ 64" using p less_trans unat_u64_less_pow by blast
    moreover have "unat st + i < 2 ^ 64" if "i < unat c" for i
      using that assms unat_u64_less_pow [of "total_page_count s"] by linarith
    moreover have "st + word_of_nat i = word_of_nat (unat st + i)" for i by simp
    ultimately have "(word_of_nat p = st + word_of_nat i) \<longleftrightarrow> p = unat st + i" if "i < unat c" for i
      using that by (metis word_of_nat_inj64)
    then have "(\<exists>i<unat c. word_of_nat p = st + word_of_nat i) \<longleftrightarrow> (\<exists>i<unat c. p = unat st + i)"
      by blast
    also have "\<dots> \<longleftrightarrow> p \<in> {unat st..<unat st + unat c}"
      by (auto simp: le_iff_add)
    finally show ?thesis .
  qed
  then show ?thesis
    by (intro set_eqI) (simp add: free_frames_def bitmap_test_mark, blast)
qed

lemma free_frames_cong [simp]:
  "free_frames (s\<lparr>mem := m\<rparr>) = free_frames s"
  "free_frames (s\<lparr>cr3 := c\<rparr>) = free_frames s"
  "free_frames (s\<lparr>free_page_count := n\<rparr>) = free_frames s"
  "free_frames (s\<lparr>used_page_count := n\<rparr>) = free_frames s"
  "free_frames (s\<lparr>reserved_page_count := n\<rparr>) = free_frames s"
  by (simp_all add: free_frames_def)

lemma card_run: "card (A - {st..<st + n}) = card A - n" if "{st..<st + n} \<subseteq> A" "finite A"
  using that by (simp add: card_Diff_subset)

lemma alloc_scan_from_low:
  "case alloc_scan s count (LOW_RESERVED_END div PAGE_SIZE) 0 0 of
      None \<Rightarrow> \<forall>q. \<not> fits s q (unat count)
    | Some st \<Rightarrow> fits s (unat st) (unat count) \<and> (\<forall>q < unat st. \<not> fits s q (unat count))"
  if "count \<noteq> 0"
  using that
  by (intro alloc_scan_spec) (auto simp: unat_gt_0 run_free_def fits_def)

lemma frame_addr:
  assumes "st < unat (total_page_count s)" "unat (total_page_count s) \<le> 2 ^ 52"
  shows "unat (word_of_nat st * PAGE_SIZE) = st * 4096"
    and "word_of_nat st * PAGE_SIZE div PAGE_SIZE = word_of_nat st"
proof -
  have st: "st < 2 ^ 52" using assms by linarith
  then have u: "unat (word_of_nat st :: u64) = st"
    by (intro unat_word_of_nat64) simp
  show m: "unat (word_of_nat st * PAGE_SIZE) = st * 4096"
    using st u by (subst unat_mult_exact) simp_all
  show "word_of_nat st * PAGE_SIZE div PAGE_SIZE = word_of_nat st"
    by (simp only: word_unat_eq_iff unat_div_distrib m u) simp
qed

lemma pmm_alloc_pages_cases:
  assumes "pmm_alloc_pages count s = (p, s')" "unat (total_page_count s) \<le> 2 ^ 52"
  obtains (none) "p = 0" "s' = s" "count = 0 \<or> (\<forall>q. \<not> fits s q (unat count))"
  | (run) st where "count \<noteq> 0" "unat p = st * 4096" "p \<noteq> 0" "unat (p div PAGE_SIZE) = st"
      "fits s st (unat count)" "\<forall>q < st. \<not> fits s q (unat count)" "s' = alloc_result s count p"
proof (cases "count = 0")
  case True
  with assms show ?thesis by (intro none) (simp_all add: pmm_alloc_pages_def)
next
  case nz: False
  show ?thesis
  proof (cases "alloc_scan s count (LOW_RESERVED_END div PAGE_SIZE) 0 0")
    case None
    with assms nz alloc_scan_from_low [OF nz, of s] show ?thesis
      by (intro none) (simp_all add: pmm_alloc_pages_def)
  next
    case (Some w)
    with alloc_scan_from_low [OF nz, of s]
    have fit: "fits s (unat w) (unat count)" and least: "\<forall>q<unat w. \<not> fits s q (unat count)"
      by simp_all
    have "0 < unat count" using nz by (simp add: unat_gt_0)
    with fit have lt: "unat w < unat (total_page_count s)"
      unfolding fits_def by linarith
    note fa = frame_addr [OF lt assms(2)]
    from assms(1) nz Some have p: "p = w * PAGE_SIZE"
      and s': "s' = alloc_result s count p"
      using fa by (auto simp: pmm_alloc_pages_def Let_def alloc_result_def)
    show ?thesis
    proof (rule run [of "unat w"])
      show "unat p = unat w * 4096" "unat (p div PAGE_SIZE) = unat w"
        using fa p by simp_all
      with fit show "p \<noteq> 0" by (auto simp: fits_def)
    qed (fact nz fit least s')+
  qed
qed

lemma free_frames_alloc_result:
  assumes "fits s (unat (p div PAGE_SIZE)) (unat count)"
  shows "free_frames (alloc_result s count p)
    = free_frames s - {unat (p div PAGE_SIZE)..<unat (p div PAGE_SIZE) + unat count}"
  using assms by (simp add: alloc_result_def free_frames_mark fits_def)

lemma total_alloc_result [simp]: "total_page_count (alloc_result s count p) = total_page_count s"
  by (simp add: alloc_result_def)

lemma pmm_ok_total40: "pmm_ok s \<Longrightarrow> unat (total_page_count s) \<le> 2 ^ 40"
  by (simp add: pmm_ok_def)

lemma pmm_ok_total: "pmm_ok s \<Longrightarrow> unat (total_page_count s) \<le> 2 ^ 52"
  by (simp add: pmm_ok_def)

lemma pmm_ok_alloc_result:
  assumes ok: "pmm_ok s" and fit: "fits s (unat (p div PAGE_SIZE)) (unat count)"
  shows "pmm_ok (alloc_result s count p)"
proof -
  let ?st = "unat (p div PAGE_SIZE)"
  have sub: "{?st..<?st + unat count} \<subseteq> free_frames s" using fit by (simp add: fits_iff)
  have "card {?st..<?st + unat count} \<le> card (free_frames s)"
    by (rule card_mono [OF finite_free_frames sub])
  with ok have le: "unat count \<le> unat (free_page_count s)" by (simp add: pmm_ok_def)
  then have f: "unat (free_page_count s - ucast count) = unat (free_page_count s) - unat count"
    by (subst unat_sub_exact) (simp_all add: word_le_nat_alt)
  have u: "unat (used_page_count s + ucast count) = unat (used_page_count s) + unat count"
  proof -
    have "unat (used_page_count s) + unat count \<le> 2 ^ 40"
      using ok le unfolding pmm_ok_def by linarith
    then show ?thesis by (simp add: unat_add_exact)
  qed
  have c: "card (free_frames (alloc_result s count p)) = card (free_frames s) - unat count"
    using sub by (simp add: free_frames_alloc_result [OF fit] card_run)
  show ?thesis
    using ok le f u c by (simp add: pmm_ok_def) (simp add: alloc_result_def)
qed

lemma pmm_alloc_pages_ok: "pmm_ok s \<Longrightarrow> pmm_alloc_pages count s = (p, s') \<Longrightarrow> pmm_ok s'"
  by (erule pmm_alloc_pages_cases [OF _ pmm_ok_total]) (auto intro: pmm_ok_alloc_result)

subsection \<open>Releasing frames\<close>

lemma bitmap_clear_frame [simp]:
  "total_page_count (bitmap_clear p s) = total_page_count s"
  "free_page_count (bitmap_clear p s) = free_page_count s"
  "used_page_count (bitmap_clear p s) = used_page_count s"
  "reserved_page_count (bitmap_clear p s) = reserved_page_count s"
  "mem (bitmap_clear p s) = mem s" "max_phys (bitmap_clear p s) = max_phys s"
  by (simp_all add: bitmap_clear_def)

lemma free_one_frame [simp]:
  "total_page_count (free_one p s) = total_page_count s"
  "reserved_page_count (free_one p s) = reserved_page_count s"
  "mem (free_one p s) = mem s"
  by (simp_all add: free_one_def)

lemma test_free_frames: "unat p < unat (total_page_count s) \<Longrightarrow> bitmap_test s p \<longleftrightarrow> unat p \<notin> free_frames s"
  by (simp add: free_frames_def)

lemma free_frames_clear:
  assumes "unat p < unat (total_page_count s)"
  shows "free_frames (bitmap_clear p s) = insert (unat p) (free_frames s)"
proof -
  have "q = unat p" if "word_of_nat q = p" "q < unat (total_page_count s)" for q
    using that unat_word_of_nat64 [of q] unat_u64_less_pow [of "total_page_count s"] by fastforce
  with assms show ?thesis
    by (auto simp: free_frames_def)
qed

lemma free_frames_free_one:
  "free_frames (free_one p s) = free_frames s \<union> ({unat p} \<inter> {..<unat (total_page_count s)})"
proof (cases "unat p < unat (total_page_count s)")
  case True
  then show ?thesis
    by (auto simp: free_one_def word_less_nat_alt free_frames_clear test_free_frames)
next
  case False
  then show ?thesis by (simp add: free_one_def word_less_nat_alt)
qed

lemma pmm_ok_free_one:
  assumes "pmm_ok s"
    and "unat p < unat (total_page_count s) \<Longrightarrow> unat p \<notin> free_frames s \<Longrightarrow> used_page_count s \<noteq> 0"
  shows "pmm_ok (free_one p s)"
proof (cases "unat p < unat (total_page_count s) \<and> unat p \<notin> free_frames s")
  case True
  then have one: "free_one p s = (bitmap_clear p s)\<lparr>free_page_count := free_page_count s + 1,
      used_page_count := used_page_count s - 1\<rparr>"
    using assms(2) by (simp add: free_one_def word_less_nat_alt test_free_frames)
  have "0 < unat (used_page_count s)" using True assms(2) by (simp add: unat_gt_0)
  moreover have "unat (used_page_count s - 1) = unat (used_page_count s) - 1"
    using calculation by (subst unat_sub_exact) (simp_all add: word_le_nat_alt)
  moreover have "unat (free_page_count s + 1) = unat (free_page_count s) + 1"
  proof -
    have "unat (free_page_count s) \<le> 2 ^ 40" using assms(1) unfolding pmm_ok_def by linarith
    then show ?thesis by (simp add: unat_add_exact)
  qed
  ultimately show ?thesis
    using True assms(1) by (simp add: pmm_ok_def one free_frames_clear)
next
  case False
  then have "free_one p s = s" by (auto simp: free_one_def word_less_nat_alt test_free_frames)
  with assms(1) show ?thesis by simp
qed

lemma free_frames_fold:
  "free_frames (fold free_one ps s) = free_frames s \<union> (unat ` set ps \<inter> {..<unat (total_page_count s)})"
  by (induction ps arbitrary: s) (auto simp: free_frames_free_one)

lemma fold_free_one_frame [simp]:
  "total_page_count (fold free_one ps s) = total_page_count s"
  "reserved_page_count (fold free_one ps s) = reserved_page_count s"
  "mem (fold free_one ps s) = mem s"
  by (induction ps arbitrary: s) simp_all

lemma pmm_ok_fold_free:
  assumes "pmm_ok s"
    and "card (unat ` set ps \<inter> {..<unat (total_page_count s)} - free_frames s) \<le> unat (used_page_count s)"
  shows "pmm_ok (fold free_one ps s)"
  using assms
proof (induction ps arbitrary: s)
  case (Cons p ps)
  let ?T = "{..<unat (total_page_count s)}"
  let ?rest = "unat ` set ps \<inter> ?T - free_frames (free_one p s)"
  show ?case
  proof (cases "unat p \<in> ?T - free_frames s")
    case True
    then have "unat ` set (p # ps) \<inter> ?T - free_frames s = insert (unat p) ?rest" "unat p \<notin> ?rest"
      by (auto simp: free_frames_free_one)
    then have "Suc (card ?rest) \<le> unat (used_page_count s)" using Cons.prems(2) by simp
    moreover from this have "used_page_count s \<noteq> 0" by auto
    moreover have "unat (used_page_count (free_one p s)) = unat (used_page_count s) - 1"
      using True calculation by (simp add: free_one_def word_less_nat_alt test_free_frames)
        (subst unat_sub_exact, simp_all add: word_le_nat_alt)
    ultimately show ?thesis
      using Cons.IH [of "free_one p s"] Cons.prems(1) pmm_ok_free_one [of s p] by simp
  next
    case False
    then have "free_one p s = s" by (auto simp: free_one_def word_less_nat_alt test_free_frames)
    moreover from False have "unat ` set (p # ps) \<inter> ?T - free_frames s = unat ` set ps \<inter> ?T - free_frames s"
      by auto
    ultimately show ?thesis using Cons by simp
  qed
qed simp

lemma pmm_free_pages_fold:
  "pmm_free_pages ptr count s = (if ptr = 0 then s else fold free_one (page_run ptr count) s)"
  by (auto simp: pmm_free_pages_def page_run_def fold_map comp_def)

lemma page_index_bound: "unat (ptr div PAGE_SIZE) < 2 ^ 52"
proof -
  have "unat ptr < 2 ^ 52 * 4096" by simp
  then have "unat ptr div 4096 < 2 ^ 52" by (rule less_mult_imp_div_less)
  then show ?thesis by (simp add: unat_div_distrib)
qed

lemma unat_page_run: "unat ` set (page_run ptr count) = frames_of ptr count"
proof -
  have "unat (ptr div PAGE_SIZE + word_of_nat i) = unat (ptr div PAGE_SIZE) + i" if "i < unat count" for i
  proof -
    have "i < 4294967296" using that unat_u32_less [of count] by linarith
    moreover from this have "unat (word_of_nat i :: u64) = i" by (intro unat_word_of_nat64) simp
    ultimately show ?thesis
      using page_index_bound [of ptr] by (subst unat_add_exact) simp_all
  qed
  then have "unat ` set (page_run ptr count) = (\<lambda>i. unat (ptr div PAGE_SIZE) + i) ` {0..<unat count}"
    unfolding page_run_def set_map image_image by (intro image_cong) simp_all
  then show ?thesis by (simp add: frames_of_def image_add_atLeastLessThan add.commute)
qed

lemma free_frames_pmm_free:
  assumes "ptr \<noteq> 0"
  shows "free_frames (pmm_free_pages ptr count s)
    = free_frames s \<union> (frames_of ptr count \<inter> {..<unat (total_page_count s)})"
  using assms by (simp add: pmm_free_pages_fold free_frames_fold unat_page_run)

lemma pmm_free_pages_ok:
  assumes "pmm_ok s"
    and "card (frames_of ptr count \<inter> {..<unat (total_page_count s)} - free_frames s) \<le> unat (used_page_count s)"
  shows "pmm_ok (pmm_free_pages ptr count s)"
  using assms by (simp add: pmm_free_pages_fold pmm_ok_fold_free unat_page_run)

lemma pmm_free_pages_frame [simp]:
  "total_page_count (pmm_free_pages ptr count s) = total_page_count s"
  "reserved_page_count (pmm_free_pages ptr count s) = reserved_page_count s"
  "mem (pmm_free_pages ptr count s) = mem s"
  by (simp_all add: pmm_free_pages_fold)

lemma alloc_free_restores:
  assumes ok: "pmm_ok s" and alloc: "pmm_alloc_pages count s = (p, s')" and "p \<noteq> 0"
  shows "free_frames (pmm_free_pages p count s') = free_frames s \<and> pmm_ok (pmm_free_pages p count s')"
  using alloc pmm_ok_total [OF ok]
proof (cases rule: pmm_alloc_pages_cases)
  case (run st)
  have ok': "pmm_ok s'" by (rule pmm_alloc_pages_ok [OF ok alloc])
  have sub: "frames_of p count \<subseteq> free_frames s" using run(4,5) by (simp add: fits_iff frames_of_def)
  have ff: "free_frames s' = free_frames s - frames_of p count"
    using run(4,5) by (simp add: run(7) free_frames_alloc_result frames_of_def)
  have tot: "total_page_count s' = total_page_count s" by (simp add: run(7))
  have lt: "free_frames s \<subseteq> {..<unat (total_page_count s)}" by (auto simp: free_frames_def)
  have "unat (used_page_count s) + unat (free_page_count s) \<le> 2 ^ 40"
    using ok unfolding pmm_ok_def by linarith
  moreover have "unat count \<le> unat (free_page_count s)"
    using card_mono [OF finite_free_frames sub] ok by (simp add: frames_of_def pmm_ok_def)
  ultimately have "unat (used_page_count s) + unat count < 2 ^ 64"
    by simp
  then have "unat (used_page_count s') = unat (used_page_count s) + unat count"
    by (simp add: run(7) alloc_result_def unat_add_exact)
  moreover have "card (frames_of p count \<inter> {..<unat (total_page_count s')} - free_frames s') \<le> card (frames_of p count)"
    by (intro card_mono) (auto simp: frames_of_def)
  ultimately have "pmm_ok (pmm_free_pages p count s')"
    using ok' by (intro pmm_free_pages_ok) (simp_all add: frames_of_def)
  moreover have "free_frames (pmm_free_pages p count s') = free_frames s"
    using sub lt unfolding free_frames_pmm_free [OF \<open>p \<noteq> 0\<close>] ff tot by blast
  ultimately show ?thesis by blast
qed (simp add: \<open>p \<noteq> 0\<close>)

text \<open>The counters after an allocation followed by the matching release are those before it.\<close>

lemma pmm_ok_counters:
  assumes "pmm_ok s" "pmm_ok t" "free_frames s = free_frames t" "total_page_count s = total_page_count t"
    "reserved_page_count s = reserved_page_count t"
  shows "free_page_count s = free_page_count t \<and> used_page_count s = used_page_count t"
  using assms by (simp add: pmm_ok_def word_unat_eq_iff)

text \<open>Allocation and release touch four fields of the state, in every extension of the record.\<close>

lemma fold_bitmap_set_update: "\<exists>bm. fold (\<lambda>i. bitmap_set (f i)) xs s = s\<lparr>bitmap := bm\<rparr>"
proof (induction xs arbitrary: s)
  case Nil
  show ?case by (intro exI [of _ "bitmap s"]) simp
next
  case (Cons x xs)
  from Cons [of "bitmap_set (f x) s"] show ?case by (auto simp: bitmap_set_def)
qed

lemma pmm_alloc_pages_update:
  assumes "pmm_alloc_pages count s = (p, s')"
  obtains m bm f u where "s' = s\<lparr>mem := m, bitmap := bm, free_page_count := f, used_page_count := u\<rparr>"
proof (cases "count = 0 \<or> alloc_scan s count (LOW_RESERVED_END div PAGE_SIZE) 0 0 = None")
  case True
  then have "s' = s\<lparr>mem := mem s, bitmap := bitmap s, free_page_count := free_page_count s, used_page_count := used_page_count s\<rparr>"
    using assms by (cases "count = 0") (auto simp: pmm_alloc_pages_def)
  then show ?thesis by (rule that)
next
  case False
  then obtain st where "alloc_scan s count (LOW_RESERVED_END div PAGE_SIZE) 0 0 = Some st" by auto
  moreover obtain bm where "mark_pages st count s = s\<lparr>bitmap := bm\<rparr>"
    using fold_bitmap_set_update [of "\<lambda>i. st + word_of_nat i" "[0..<unat count]" s]
    by (auto simp: mark_pages_def)
  ultimately have "s' = s\<lparr>mem := mem s', bitmap := bm, free_page_count := free_page_count s', used_page_count := used_page_count s'\<rparr>"
    using assms False by (auto simp: pmm_alloc_pages_def Let_def)
  then show ?thesis by (rule that)
qed

lemma pmm_free_pages_update:
  obtains bm f u where "pmm_free_pages ptr count s = s\<lparr>bitmap := bm, free_page_count := f, used_page_count := u\<rparr>"
proof -
  have "\<exists>bm f u. fold free_one ps s = s\<lparr>bitmap := bm, free_page_count := f, used_page_count := u\<rparr>" for ps
  proof (induction ps arbitrary: s)
    case Nil
    show ?case
      by (intro exI [of _ "bitmap s"] exI [of _ "free_page_count s"] exI [of _ "used_page_count s"]) simp
  next
    case (Cons p ps)
    from Cons [of "free_one p s"] show ?case by (auto simp: free_one_def bitmap_clear_def split: if_splits)
  qed
  then obtain bm f u where "fold free_one (page_run ptr count) s = s\<lparr>bitmap := bm, free_page_count := f, used_page_count := u\<rparr>"
    by blast
  then show ?thesis
    using that [where bm = bm and f = f and u = u]
      that [where bm = "bitmap s" and f = "free_page_count s" and u = "used_page_count s"]
    by (cases "ptr = 0") (simp_all add: pmm_free_pages_fold)
qed

subsection \<open>The interface of a page allocator\<close>

text \<open>
  What the heap, the page-table code and the loaders rely on. The lemmas of the locale are
  proved from the laws alone; the interpretation shows that the bitmap allocator obeys them.
\<close>

locale page_allocator =
  fixes alloc :: "u32 \<Rightarrow> 's \<Rightarrow> u64 \<times> 's"
    and release :: "u64 \<Rightarrow> u32 \<Rightarrow> 's \<Rightarrow> 's"
    and avail :: "'s \<Rightarrow> nat set"
    and ok :: "'s \<Rightarrow> bool"
  assumes alloc_ok: "ok s \<Longrightarrow> alloc n s = (p, s') \<Longrightarrow> ok s'"
    and alloc_takes: "ok s \<Longrightarrow> alloc n s = (p, s') \<Longrightarrow> p \<noteq> 0 \<Longrightarrow>
      frames_of p n \<subseteq> avail s \<and> avail s' = avail s - frames_of p n"
    and alloc_fails: "ok s \<Longrightarrow> alloc n s = (0, s') \<Longrightarrow> s' = s"
    and release_undoes: "ok s \<Longrightarrow> alloc n s = (p, s') \<Longrightarrow> p \<noteq> 0 \<Longrightarrow>
      avail (release p n s') = avail s \<and> ok (release p n s')"
begin

lemma alloc_shrinks: "ok s \<Longrightarrow> alloc n s = (p, s') \<Longrightarrow> avail s' \<subseteq> avail s"
  using alloc_takes alloc_fails by (cases "p = 0") blast+

lemma seq_ok: "ok s \<Longrightarrow> alloc_seq alloc ns s = (blocks, s') \<Longrightarrow> ok s' \<and> avail s' \<subseteq> avail s"
proof (induction ns arbitrary: s blocks s')
  case (Cons n ns)
  obtain p s1 where a: "alloc n s = (p, s1)" by force
  obtain bs s2 where r: "alloc_seq alloc ns s1 = (bs, s2)" by force
  from Cons.prems(2) a r have "s' = s2" by simp
  with Cons.IH [OF alloc_ok [OF Cons.prems(1) a] r] alloc_shrinks [OF Cons.prems(1) a]
  show ?case by blast
qed simp

lemma seq_within: "ok s \<Longrightarrow> alloc_seq alloc ns s = (blocks, s') \<Longrightarrow> (p, n) \<in> set blocks \<Longrightarrow>
    frames_of p n \<subseteq> avail s"
proof (induction ns arbitrary: s blocks s')
  case (Cons m ns)
  obtain q s1 where a: "alloc m s = (q, s1)" by force
  obtain bs s2 where r: "alloc_seq alloc ns s1 = (bs, s2)" by force
  show ?case
  proof (cases "(p, n) \<in> set bs")
    case True
    with Cons.IH [OF alloc_ok [OF Cons.prems(1) a] r] alloc_shrinks [OF Cons.prems(1) a]
    show ?thesis by blast
  next
    case False
    with Cons.prems a r have "q \<noteq> 0" "p = q" "n = m" by (auto split: if_splits)
    with alloc_takes [OF Cons.prems(1) a] show ?thesis by simp
  qed
qed simp

lemma seq_disjoint: "ok s \<Longrightarrow> alloc_seq alloc ns s = (blocks, s') \<Longrightarrow>
    sorted_wrt (\<lambda>(p, n) (q, m). frames_of p n \<inter> frames_of q m = {}) blocks"
proof (induction ns arbitrary: s blocks s')
  case (Cons m ns)
  obtain q s1 where a: "alloc m s = (q, s1)" by force
  obtain bs s2 where r: "alloc_seq alloc ns s1 = (bs, s2)" by force
  note ok1 = alloc_ok [OF Cons.prems(1) a]
  have rest: "sorted_wrt (\<lambda>(p, n) (q, m). frames_of p n \<inter> frames_of q m = {}) bs"
    by (rule Cons.IH [OF ok1 r])
  show ?case
  proof (cases "q = 0")
    case True
    with Cons.prems(2) a r rest show ?thesis by simp
  next
    case False
    have "frames_of q m \<inter> frames_of p n = {}" if "(p, n) \<in> set bs" for p n
      using seq_within [OF ok1 r that] alloc_takes [OF Cons.prems(1) a False] by blast
    then have "\<forall>(p, n) \<in> set bs. frames_of q m \<inter> frames_of p n = {}" by blast
    moreover have "blocks = (q, m) # bs" using False Cons.prems(2) a r by simp
    ultimately show ?thesis using rest by simp
  qed
qed simp

end

lemma alloc_takes_frames:
  assumes ok: "pmm_ok s" and alloc: "pmm_alloc_pages n s = (p, s')" and "p \<noteq> 0"
  shows "frames_of p n \<subseteq> free_frames s \<and> free_frames s' = free_frames s - frames_of p n"
  using alloc pmm_ok_total [OF ok]
proof (cases rule: pmm_alloc_pages_cases)
  case (run st)
  with run(5) show ?thesis
    by (simp add: run(7) free_frames_alloc_result frames_of_def fits_iff)
qed (simp add: \<open>p \<noteq> 0\<close>)

lemma alloc_fails_same: "pmm_ok s \<Longrightarrow> pmm_alloc_pages n s = (0, s') \<Longrightarrow> s' = s"
  by (erule pmm_alloc_pages_cases [OF _ pmm_ok_total]) auto

interpretation frames: page_allocator pmm_alloc_pages pmm_free_pages free_frames pmm_ok
  by unfold_locales
    (blast dest: pmm_alloc_pages_ok alloc_takes_frames alloc_fails_same alloc_free_restores)+

subsection \<open>Properties\<close>

lemma in_block_iff:
  assumes "unat p = st * 4096" "st + unat count \<le> 2 ^ 52"
  shows "a - p < ucast count * PAGE_SIZE \<longleftrightarrow> unat a div 4096 \<in> frames_of p count"
proof -
  have n: "unat (ucast count * PAGE_SIZE) = unat count * 4096"
  proof -
    have "unat count * 4096 < 18446744073709551616" using unat_u32_less [of count] by linarith
    then have "unat (ucast count :: u64) * unat PAGE_SIZE < 2 ^ 64" by simp
    then show ?thesis by (subst unat_mult_exact) simp_all
  qed
  have fr: "frames_of p count = {st..<st + unat count}"
    using assms(1) by (simp add: frames_of_def unat_div_distrib)
  show ?thesis
  proof (cases "p \<le> a")
    case True
    then have "unat (a - p) = unat a - st * 4096" "st * 4096 \<le> unat a"
      using assms(1) by (simp_all add: unat_sub_exact word_le_nat_alt)
    then show ?thesis
      unfolding word_less_nat_alt n fr by auto
  next
    case False
    then have lt: "unat a < unat p" by (simp add: word_le_nat_alt)
    have "unat (a - p) = 2 ^ 64 + unat a - unat p"
      using lt by (simp add: unat_sub_if')
    moreover have "(st + unat count) * 4096 \<le> 2 ^ 64" using assms(2) by simp
    ultimately have "\<not> a - p < ucast count * PAGE_SIZE"
      unfolding word_less_nat_alt n using assms(1) lt by simp
    moreover have "unat a div 4096 < st" using lt assms(1) by linarith
    ultimately show ?thesis unfolding fr by simp
  qed
qed

lemma alloc_result_mem:
  assumes "unat p = st * 4096" "fits s st (unat count)" "unat (total_page_count s) \<le> 2 ^ 52"
  shows "mem (alloc_result s count p) a = (if unat a div 4096 \<in> frames_of p count then 0 else mem s a)"
proof -
  have "st + unat count \<le> 2 ^ 52" using assms(2,3) unfolding fits_def by linarith
  then show ?thesis
    using in_block_iff [OF assms(1)] by (simp add: alloc_result_def mem_zero_eq)
qed

lemma demo_pmm_ok: "pmm_ok demo_pmm" "free_frames demo_pmm = {..<272}" "fits demo_pmm 256 2"
proof -
  show f: "free_frames demo_pmm = {..<272}"
    by (auto simp: free_frames_def demo_pmm_def bitmap_test_def)
  show "pmm_ok demo_pmm" by (simp add: pmm_ok_def f) (simp add: demo_pmm_def)
  have "total_page_count demo_pmm = 272" by (simp add: demo_pmm_def)
  then show "fits demo_pmm 256 2" by (auto simp: fits_iff f)
qed

text \<open>
  C1. \<open>pmm_alloc_pages\<close> is first fit. It returns null exactly when no run of \<open>count\<close> free
  frames exists above the low megabyte, and then changes nothing. Otherwise it returns the
  lowest such run: its frames are no longer free, every byte of the run is zero, every other
  byte of memory and every other frame is as before, and the accounting invariant holds.
\<close>

theorem pmm_alloc_first_fit:
  assumes "pmm_ok s" "count \<noteq> 0" "pmm_alloc_pages count s = (p, s')"
  shows "(p = 0 \<longleftrightarrow> (\<forall>q. \<not> fits s q (unat count))) \<and> (p = 0 \<longrightarrow> s' = s)
    \<and> (p \<noteq> 0 \<longrightarrow> (\<exists>st. unat p = st * 4096 \<and> fits s st (unat count)
          \<and> (\<forall>q < st. \<not> fits s q (unat count)))
        \<and> free_frames s' = free_frames s - frames_of p count
        \<and> (\<forall>a. mem s' a = (if unat a div 4096 \<in> frames_of p count then 0 else mem s a)))
    \<and> pmm_ok s'"
  using assms(3) pmm_ok_total [OF assms(1)]
proof (cases rule: pmm_alloc_pages_cases)
  case none
  with assms show ?thesis by simp
next
  case (run st)
  moreover have "mem s' a = (if unat a div 4096 \<in> frames_of p count then 0 else mem s a)" for a
    unfolding run(7) by (rule alloc_result_mem [OF run(2,5) pmm_ok_total [OF assms(1)]])
  ultimately show ?thesis
    using alloc_takes_frames [OF assms(1,3)] pmm_alloc_pages_ok [OF assms(1,3)] by blast
qed

theorem pmm_alloc_first_fit_witness:
  "\<exists>p s'. pmm_alloc_pages 2 demo_pmm = (p, s') \<and> p \<noteq> 0
     \<and> free_frames s' = free_frames demo_pmm - frames_of p 2"
proof -
  obtain p s' where a: "pmm_alloc_pages 2 demo_pmm = (p, s')" by force
  from pmm_alloc_first_fit [OF demo_pmm_ok(1) _ a] demo_pmm_ok(3) a show ?thesis by auto
qed

text \<open>
  C4. A block that was just allocated can be released: afterwards exactly the frames that were
  free before are free again, all four counters have their old values.
\<close>

theorem pmm_alloc_free_inverse:
  assumes "pmm_ok s" "pmm_alloc_pages count s = (p, s')" "p \<noteq> 0"
  shows "free_frames (pmm_free_pages p count s') = free_frames s
    \<and> free_page_count (pmm_free_pages p count s') = free_page_count s
    \<and> used_page_count (pmm_free_pages p count s') = used_page_count s
    \<and> reserved_page_count (pmm_free_pages p count s') = reserved_page_count s
    \<and> pmm_ok (pmm_free_pages p count s')"
proof -
  have k: "total_page_count s' = total_page_count s \<and> reserved_page_count s' = reserved_page_count s"
    using assms(2) pmm_ok_total [OF assms(1)]
    by (cases rule: pmm_alloc_pages_cases) (simp_all add: alloc_result_def)
  note r = alloc_free_restores [OF assms]
  then show ?thesis
    using pmm_ok_counters [of "pmm_free_pages p count s'" s] assms(1) k by simp
qed

theorem pmm_alloc_free_inverse_witness:
  "\<exists>p s'. pmm_alloc_pages 2 demo_pmm = (p, s') \<and> free_frames (pmm_free_pages p 2 s') = {..<272}
     \<and> free_page_count (pmm_free_pages p 2 s') = 272"
proof -
  obtain p s' where a: "pmm_alloc_pages 2 demo_pmm = (p, s')" by force
  from a pmm_ok_total [OF demo_pmm_ok(1)] have "p \<noteq> 0"
    by (cases rule: pmm_alloc_pages_cases) (use demo_pmm_ok(3) in auto)
  from pmm_alloc_free_inverse [OF demo_pmm_ok(1) a this] a demo_pmm_ok(2)
  show ?thesis by (auto simp: demo_pmm_def)
qed

text \<open>
  C5. Blocks granted by any sequence of allocations never overlap, they only use frames that
  were free at the start, and the invariant holds at the end (a consequence of the allocator
  interface alone).
\<close>

theorem pmm_alloc_seq_disjoint:
  assumes "pmm_ok s" "alloc_seq pmm_alloc_pages counts s = (blocks, s')"
  shows "sorted_wrt (\<lambda>(p, n) (q, m). frames_of p n \<inter> frames_of q m = {}) blocks
    \<and> (\<forall>(p, n) \<in> set blocks. frames_of p n \<subseteq> free_frames s) \<and> pmm_ok s'"
  using frames.seq_disjoint [OF assms] frames.seq_within [OF assms] frames.seq_ok [OF assms] by blast

theorem pmm_alloc_seq_disjoint_witness:
  "\<exists>blocks s'. alloc_seq pmm_alloc_pages [3, 2, 9] demo_pmm = (blocks, s')
     \<and> sorted_wrt (\<lambda>(p, n) (q, m). frames_of p n \<inter> frames_of q m = {}) blocks \<and> pmm_ok s'"
  using pmm_alloc_seq_disjoint [OF demo_pmm_ok(1)]
  by (cases "alloc_seq pmm_alloc_pages [3, 2, 9] demo_pmm") blast

end
