(* ===== verification/Pmm_Boot.thy ===== *)
theory Pmm_Boot
  imports Pmm
begin

text \<open>
  What \<open>pmm_init\<close> establishes: for a memory map whose usable regions do not overlap, the free
  frames are the usable ones minus the low megabyte, the bitmap, the kernel image, the
  initramfs and the boot information, and the accounting invariant of theory \<open>Pmm\<close> holds.

  \<open>frames_between a b\<close> are the frames that the bytes \<open>a \<dots> b - 1\<close> touch, \<open>whole_frames d\<close>
  those that lie inside a memory region, \<open>sane_map\<close> says that the usable regions end below
  the 52-bit physical address limit of the architecture and do not share a frame.
\<close>

definition frames_between :: "nat \<Rightarrow> nat \<Rightarrow> nat set" where
  "frames_between a b = {a div 4096..<(b + 4095) div 4096}"

definition whole_frames :: "OreMemoryDescriptor \<Rightarrow> nat set" where
  "whole_frames d = {(unat (physical_start d) + 4095) div 4096..<
     (unat (physical_start d) + unat (number_of_pages d) * 4096) div 4096}"

definition sane_map :: "OreMemoryDescriptor list \<Rightarrow> bool" where
  "sane_map ds \<longleftrightarrow>
     (\<forall>d \<in> set ds. unat (physical_start d) + unat (number_of_pages d) * 4096 \<le> 2 ^ 52)
     \<and> sorted_wrt (\<lambda>d e. whole_frames d \<inter> whole_frames e = {}) ds"

text \<open>\<open>covers_max s\<close>: the frames counted are exactly those that start below \<open>max_phys\<close>.\<close>

definition covers_max :: "'a pmm_scheme \<Rightarrow> bool" where
  "covers_max s \<longleftrightarrow> (\<forall>f. f < unat (total_page_count s) \<longleftrightarrow> f * 4096 < unat (max_phys s))"

definition init_state :: "BootInfo \<Rightarrow> u64 \<Rightarrow> 'a pmm_scheme \<Rightarrow> 'a pmm_scheme" where
  "init_state bi addr s =
     (let top = highest_usable bi; total = align_up top PAGE_SIZE div PAGE_SIZE;
          bytes = align_up ((total + 7) div 8) PAGE_SIZE
      in s\<lparr>max_phys := top, total_page_count := total, bitmap_bytes := bytes,
            bitmap_base := addr, bitmap := (\<lambda>i. if i < bytes then 0xff else bitmap s i),
            free_page_count := 0, reserved_page_count := total, used_page_count := 0\<rparr>)"

definition slot_in :: "BootInfo \<Rightarrow> u64 \<Rightarrow> OreMemoryDescriptor \<Rightarrow> u64 \<Rightarrow> bool" where
  "slot_in bi pages d a \<longleftrightarrow>
     (let start = align_up (physical_start d) PAGE_SIZE; lim = align_down (descriptor_end d) PAGE_SIZE
      in a \<in> set (page_addrs (if start < LOW_RESERVED_END then LOW_RESERVED_END else start) lim)
      \<and> a + pages * PAGE_SIZE \<le> lim
      \<and> \<not> ranges_overlap a (a + pages * PAGE_SIZE) (kernel_base bi) (kernel_base bi + kernel_size bi))"

text \<open>The boot-time ranges that the firmware and the loader report end below \<open>2 ^ 63\<close>.\<close>

definition sane_ranges :: "BootInfo \<Rightarrow> u64 \<Rightarrow> bool" where
  "sane_ranges bi bi_addr \<longleftrightarrow> unat (kernel_base bi) + unat (kernel_size bi) \<le> 2 ^ 63
     \<and> unat (initramfs_base bi) + unat (initramfs_size bi) \<le> 2 ^ 63 \<and> unat bi_addr \<le> 2 ^ 62"

definition boot_reserved :: "BootInfo \<Rightarrow> u64 \<Rightarrow> nat set" where
  "boot_reserved bi bi_addr =
     frames_between (unat (kernel_base bi)) (unat (kernel_base bi) + unat (kernel_size bi))
   \<union> (if initramfs_base bi \<noteq> 0 \<and> initramfs_size bi \<noteq> 0
      then frames_between (unat (initramfs_base bi)) (unat (initramfs_base bi) + unat (initramfs_size bi))
      else {})
   \<union> frames_between (unat bi_addr) (unat bi_addr + unat sizeof_BootInfo)"

text \<open>One step of the chain of reservations in \<open>pmm_init\<close>.\<close>

definition reserved_to :: "nat set \<Rightarrow> nat set \<Rightarrow> 'a pmm_scheme \<Rightarrow> bool" where
  "reserved_to avail taken s \<longleftrightarrow>
     pmm_ok s \<and> covers_max s \<and> used_page_count s = 0 \<and> free_frames s = avail - taken"

text \<open>The reservations of the kernel image, the initramfs and the boot information.\<close>

definition reserve_boot :: "BootInfo \<Rightarrow> u64 \<Rightarrow> 'a pmm_scheme \<Rightarrow> 'a pmm_scheme" where
  "reserve_boot bi bi_addr s =
     (let s5 = reserve_range (kernel_base bi) (kernel_base bi + kernel_size bi) s;
          s6 = (if initramfs_base bi \<noteq> 0 \<and> initramfs_size bi \<noteq> 0
                then reserve_range (initramfs_base bi) (initramfs_base bi + initramfs_size bi) s5
                else s5)
      in reserve_range bi_addr (bi_addr + sizeof_BootInfo) s6)"

text \<open>A machine with one usable region of 1 MiB that starts at 1 MiB, the kernel in its second half.\<close>

definition demo_boot :: BootInfo where
  "demo_boot = \<lparr>bi_magic = ORE_BOOTINFO_MAGIC, rsdp = 0, kernel_base = 0x180000, kernel_size = 0x20000,
     initramfs_base = 0, initramfs_size = 0,
     framebuffer = \<lparr>fb_base = 0, fb_width = 0, fb_height = 0, pixels_per_scanline = 0, pixel_format = 0\<rparr>,
     memory_map_entries = 2, memory_map_descriptor_size = 40,
     memory_map = [\<lparr>md_type = 4, physical_start = 0, virtual_start = 0, number_of_pages = 16, attribute = 0\<rparr>,
                   \<lparr>md_type = 7, physical_start = 0x100000, virtual_start = 0, number_of_pages = 256, attribute = 0\<rparr>],
     cmdline = []\<rparr>"

lemma frame_of_addr_iff: "unat (addr div PAGE_SIZE) = unat addr div 4096"
  by (simp add: unat_div_distrib)

lemma unat_page_addr:
  fixes start :: u64
  assumes "unat start + 4096 * n < 2 ^ 64" "i \<le> n"
  shows "unat (start + 4096 * word_of_nat i) = unat start + 4096 * i"
proof -
  have "4096 * i \<le> 4096 * n" using assms(2) by simp
  then have b: "unat start + 4096 * i < 2 ^ 64" using assms(1) by linarith
  have "i < 2 ^ 64" using b by linarith
  then have "unat (4096 * word_of_nat i :: u64) = 4096 * i"
    using b by (subst unat_mult_exact) (simp_all add: unat_word_of_nat64)
  with b show ?thesis by (subst unat_add_exact) simp_all
qed

lemma page_addrs_frames:
  assumes "unat start = a * 4096" "unat lim = b * 4096"
  shows "map (\<lambda>addr. unat (addr div PAGE_SIZE)) (page_addrs start lim) = [a..<b]"
    and "map unat (page_addrs start lim) = map (\<lambda>f. f * 4096) [a..<b]"
proof -
  have len: "(unat lim - unat start + 4095) div 4096 = b - a"
    using assms by (simp flip: diff_mult_distrib)
  have u: "unat (start + 4096 * word_of_nat i) = (a + i) * 4096" if "i < b - a" for i
  proof -
    have "unat start + 4096 * (b - a - 1) < 2 ^ 64"
      using that assms unat_u64_less_pow [of lim] by simp
    then have "unat (start + 4096 * word_of_nat i) = unat start + 4096 * i"
      by (rule unat_page_addr) (use that in simp)
    then show ?thesis using assms(1) by simp
  qed
  have upt: "[a..<b] = map (\<lambda>i. a + i) [0..<b - a]"
    by (rule nth_equalityI) simp_all
  show "map (\<lambda>addr. unat (addr div PAGE_SIZE)) (page_addrs start lim) = [a..<b]"
    unfolding page_addrs_def len upt by (simp add: frame_of_addr_iff u)
  show "map unat (page_addrs start lim) = map (\<lambda>f. f * 4096) [a..<b]"
    unfolding page_addrs_def len upt by (simp add: u)
qed

subsection \<open>Reserving a page\<close>

lemma reserve_page_frame [simp]:
  "total_page_count (reserve_page p s) = total_page_count s"
  "max_phys (reserve_page p s) = max_phys s"
  "used_page_count (reserve_page p s) = used_page_count s"
  by (simp_all add: reserve_page_def)

lemma free_frames_set:
  assumes "unat p < unat (total_page_count s)"
  shows "free_frames (bitmap_set p s) = free_frames s - {unat p}"
proof -
  have "q = unat p" if "word_of_nat q = p" "q < unat (total_page_count s)" for q
    using that unat_word_of_nat64 [of q] unat_u64_less_pow [of "total_page_count s"] by fastforce
  with assms show ?thesis
    by (auto simp: free_frames_def)
qed

lemma free_frames_reserve_page:
  assumes "unat p < unat (total_page_count s)"
  shows "free_frames (reserve_page p s) = free_frames s - {unat p}"
  using assms by (auto simp: reserve_page_def free_frames_set test_free_frames)

lemma pmm_ok_reserve_page:
  assumes ok: "pmm_ok s" and "unat p < unat (total_page_count s)"
  shows "pmm_ok (reserve_page p s)"
proof (cases "unat p \<in> free_frames s")
  case True
  have "0 < card (free_frames s)" using True by (auto simp: card_gt_0_iff)
  then have nz: "0 < unat (free_page_count s)" using ok by (simp add: pmm_ok_def)
  then have f: "unat (free_page_count s - 1) = unat (free_page_count s) - 1"
    by (subst unat_sub_exact) (simp_all add: word_le_nat_alt)
  have "unat (reserved_page_count s) \<le> 2 ^ 40"
    using ok unfolding pmm_ok_def by linarith
  then have r: "unat (reserved_page_count s + 1) = unat (reserved_page_count s) + 1"
    by (subst unat_add_exact) simp_all
  have "free_page_count s \<noteq> 0" using nz by auto
  then show ?thesis
    using ok True assms(2) nz f r
    by (simp add: pmm_ok_def free_frames_reserve_page card_Diff_singleton)
      (simp add: reserve_page_def test_free_frames)
next
  case False
  with assms have "reserve_page p s = s" by (simp add: reserve_page_def test_free_frames)
  with ok show ?thesis by simp
qed

lemma covers_max_reserve_page [simp]: "covers_max (reserve_page p s) = covers_max s"
  by (simp add: covers_max_def)

lemma reserve_addrs_frames:
  assumes "map unat addrs = map (\<lambda>f. f * 4096) [a..<b]" "pmm_ok s" "covers_max s"
  shows "pmm_ok (reserve_addrs addrs s)
    \<and> free_frames (reserve_addrs addrs s) = free_frames s - {a..<b}
    \<and> covers_max (reserve_addrs addrs s)
    \<and> used_page_count (reserve_addrs addrs s) = used_page_count s"
  using assms
proof (induction addrs arbitrary: a s)
  case Nil
  then have "b \<le> a" by auto
  with Nil show ?case by simp
next
  case (Cons addr addrs)
  then have "a < b" by (cases "a < b") simp_all
  with Cons.prems(1) have addr: "unat addr = a * 4096"
    and rest: "map unat addrs = map (\<lambda>f. f * 4096) [Suc a..<b]"
    by (simp_all add: upt_conv_Cons)
  have page: "unat (addr div PAGE_SIZE) = a" by (simp add: frame_of_addr_iff addr)
  show ?case
  proof (cases "addr < max_phys s")
    case True
    then have lt: "unat (addr div PAGE_SIZE) < unat (total_page_count s)"
      using Cons.prems(3) addr page by (simp add: covers_max_def word_less_nat_alt)
    have "{a..<b} = insert a {Suc a..<b}" using \<open>a < b\<close> by auto
    moreover note Cons.IH [OF rest pmm_ok_reserve_page [OF Cons.prems(2) lt]]
    ultimately show ?thesis
      using True Cons.prems(3) by (auto simp: free_frames_reserve_page [OF lt] page)
  next
    case False
    then have "unat (total_page_count s) \<le> a"
      using Cons.prems(3) addr unfolding covers_max_def word_less_nat_alt by (metis not_less)
    then have "free_frames s \<inter> {a..<b} = {}" by (auto simp: free_frames_def)
    with False Cons.prems(2,3) show ?thesis by auto
  qed
qed

lemma reserve_range_frames:
  assumes "unat lim + 4095 < 2 ^ 64" "pmm_ok s" "covers_max s"
  shows "pmm_ok (reserve_range start lim s)
    \<and> free_frames (reserve_range start lim s) = free_frames s - frames_between (unat start) (unat lim)
    \<and> covers_max (reserve_range start lim s)
    \<and> used_page_count (reserve_range start lim s) = used_page_count s"
  unfolding reserve_range_def frames_between_def
  by (rule reserve_addrs_frames
      [OF page_addrs_frames(2) [OF unat_align_down unat_align_up [OF assms(1)]] assms(2,3)])

subsection \<open>Releasing the usable memory\<close>

lemma release_page_frame [simp]:
  "total_page_count (release_page p s) = total_page_count s"
  "max_phys (release_page p s) = max_phys s"
  "used_page_count (release_page p s) = used_page_count s"
  by (simp_all add: release_page_def)

lemma release_page_ok:
  assumes ok: "pmm_ok s" and used: "used_page_count s = 0"
    and lt: "unat p < unat (total_page_count s)" and nf: "unat p \<notin> free_frames s"
  shows "pmm_ok (release_page p s) \<and> free_frames (release_page p s) = insert (unat p) (free_frames s)"
proof -
  have ff: "free_frames (release_page p s) = insert (unat p) (free_frames s)"
    using lt by (simp add: release_page_def free_frames_clear)
  have "free_frames s \<subseteq> {..<unat (total_page_count s)}" by (auto simp: free_frames_def)
  moreover have "unat p \<in> {..<unat (total_page_count s)}" using lt by simp
  ultimately have "free_frames s \<subset> {..<unat (total_page_count s)}" using nf by blast
  then have "card (free_frames s) < unat (total_page_count s)"
    by (metis card_lessThan finite_lessThan psubset_card_mono)
  with ok used have r: "0 < unat (reserved_page_count s)" by (simp add: pmm_ok_def)
  then have r1: "unat (reserved_page_count s - 1) = unat (reserved_page_count s) - 1"
    by (subst unat_sub_exact) (simp_all add: word_le_nat_alt)
  have "unat (free_page_count s) \<le> 2 ^ 40" using ok unfolding pmm_ok_def by linarith
  then have f1: "unat (free_page_count s + 1) = unat (free_page_count s) + 1"
    by (subst unat_add_exact) simp_all
  have "pmm_ok (release_page p s)"
    using ok r r1 f1 nf used by (simp add: pmm_ok_def ff) (simp add: release_page_def)
  with ff show ?thesis by simp
qed

lemma release_pages_ok:
  assumes "pmm_ok s" "used_page_count s = 0" "distinct (map unat ps)"
    "\<forall>p \<in> set ps. unat p < unat (total_page_count s) \<and> unat p \<notin> free_frames s"
  shows "pmm_ok (fold release_page ps s)
    \<and> free_frames (fold release_page ps s) = unat ` set ps \<union> free_frames s
    \<and> used_page_count (fold release_page ps s) = 0
    \<and> total_page_count (fold release_page ps s) = total_page_count s
    \<and> max_phys (fold release_page ps s) = max_phys s"
  using assms
proof (induction ps arbitrary: s)
  case (Cons p ps)
  then have r: "pmm_ok (release_page p s)" "free_frames (release_page p s) = insert (unat p) (free_frames s)"
    using release_page_ok [of s p] by simp_all
  have "\<forall>q \<in> set ps. unat q \<noteq> unat p" using Cons.prems(3) by (metis distinct.simps(2) image_eqI list.map(2) list.set_map)
  then show ?case
    using Cons.IH [of "release_page p s"] Cons.prems r by simp
qed simp

lemma unat_descriptor_end:
  assumes "unat (physical_start d) + unat (number_of_pages d) * 4096 \<le> 2 ^ 52"
  shows "unat (descriptor_end d) = unat (physical_start d) + unat (number_of_pages d) * 4096"
proof -
  have "unat (number_of_pages d * PAGE_SIZE) = unat (number_of_pages d) * 4096"
    using assms by (subst unat_mult_exact) simp_all
  with assms show ?thesis
    unfolding descriptor_end_def by (subst unat_add_exact) simp_all
qed

lemma descriptor_pages:
  assumes "unat (physical_start d) + unat (number_of_pages d) * 4096 \<le> 2 ^ 52"
  shows "map (\<lambda>addr. unat (addr div PAGE_SIZE)) (descriptor_addrs d) =
    [(unat (physical_start d) + 4095) div 4096..<
     (unat (physical_start d) + unat (number_of_pages d) * 4096) div 4096]"
proof -
  have "unat (physical_start d) \<le> 2 ^ 52" using assms by linarith
  then have "unat (align_up (physical_start d) PAGE_SIZE) = (unat (physical_start d) + 4095) div 4096 * 4096"
    by (intro unat_align_up) simp
  then show ?thesis
    unfolding descriptor_addrs_def
    by (rule page_addrs_frames(1)) (simp add: unat_align_down unat_descriptor_end [OF assms])
qed

lemma release_descriptor_ok:
  assumes "pmm_ok s" "used_page_count s = 0"
    and b: "unat (physical_start d) + unat (number_of_pages d) * 4096 \<le> 2 ^ 52"
    and "whole_frames d \<subseteq> {..<unat (total_page_count s)}" "whole_frames d \<inter> free_frames s = {}"
  shows "pmm_ok (release_descriptor d s)
    \<and> free_frames (release_descriptor d s) = whole_frames d \<union> free_frames s
    \<and> used_page_count (release_descriptor d s) = 0
    \<and> total_page_count (release_descriptor d s) = total_page_count s
    \<and> max_phys (release_descriptor d s) = max_phys s"
proof -
  let ?ps = "map (\<lambda>addr. addr div PAGE_SIZE) (descriptor_addrs d)"
  have m: "map unat ?ps = [(unat (physical_start d) + 4095) div 4096..<
     (unat (physical_start d) + unat (number_of_pages d) * 4096) div 4096]"
    using descriptor_pages [OF b] by (simp add: comp_def)
  have img: "unat ` set ?ps = whole_frames d"
    using arg_cong [OF m, of set] unfolding whole_frames_def set_map set_upt .
  have "distinct (map unat ?ps)" unfolding m by (rule distinct_upt)
  moreover have "\<forall>p \<in> set ?ps. unat p < unat (total_page_count s) \<and> unat p \<notin> free_frames s"
    using assms(4,5) img by blast
  moreover have "release_descriptor d s = fold release_page ?ps s"
    by (simp add: release_descriptor_def fold_map comp_def)
  ultimately show ?thesis
    using release_pages_ok [OF assms(1,2), of ?ps] img by simp
qed

lemma release_all_ok:
  assumes "pmm_ok s" "used_page_count s = 0" "sane_map ds"
    and "\<forall>d \<in> set ds. whole_frames d \<subseteq> {..<unat (total_page_count s)} \<and> whole_frames d \<inter> free_frames s = {}"
  shows "pmm_ok (fold release_descriptor ds s)
    \<and> free_frames (fold release_descriptor ds s) = (\<Union>d \<in> set ds. whole_frames d) \<union> free_frames s
    \<and> used_page_count (fold release_descriptor ds s) = 0
    \<and> total_page_count (fold release_descriptor ds s) = total_page_count s
    \<and> max_phys (fold release_descriptor ds s) = max_phys s"
  using assms
proof (induction ds arbitrary: s)
  case (Cons d ds)
  have r: "pmm_ok (release_descriptor d s)"
      "free_frames (release_descriptor d s) = whole_frames d \<union> free_frames s"
      "used_page_count (release_descriptor d s) = 0"
      "total_page_count (release_descriptor d s) = total_page_count s"
      "max_phys (release_descriptor d s) = max_phys s"
    using release_descriptor_ok [of s d] Cons.prems by (simp_all add: sane_map_def)
  have sane: "sane_map ds" and dis: "\<forall>e \<in> set ds. whole_frames d \<inter> whole_frames e = {}"
    using Cons.prems(3) by (simp_all add: sane_map_def)
  have pre: "\<forall>e \<in> set ds. whole_frames e \<subseteq> {..<unat (total_page_count (release_descriptor d s))}
      \<and> whole_frames e \<inter> free_frames (release_descriptor d s) = {}"
    using Cons.prems(4) dis unfolding r by (simp add: Int_Un_distrib Int_commute)
  show ?case
    using Cons.IH [OF r(1,3) sane pre] r by (simp add: Un_ac)
qed simp

subsection \<open>The bounds of memory\<close>

lemma highest_ge: "d \<in> set (usable bi) \<Longrightarrow> unat (descriptor_end d) \<le> unat (highest_usable bi)"
proof -
  have "m0 \<le> f ds m0 \<and> (\<forall>d \<in> set ds. descriptor_end d \<le> f ds m0)"
    if "f = fold (\<lambda>d m. if m < descriptor_end d then descriptor_end d else m)" for f ds m0
    unfolding that by (induction ds arbitrary: m0) (auto split: if_splits, (meson order_trans order.strict_implies_order not_less)+)
  then show "d \<in> set (usable bi) \<Longrightarrow> ?thesis"
    unfolding highest_usable_def by (auto simp flip: word_le_nat_alt)
qed

lemma highest_bound:
  assumes "sane_map (usable bi)"
  shows "unat (highest_usable bi) \<le> 2 ^ 52"
proof -
  have "\<forall>d \<in> set ds. unat (descriptor_end d) \<le> 2 ^ 52 \<Longrightarrow> unat m0 \<le> 2 ^ 52 \<Longrightarrow>
    unat (fold (\<lambda>d m. if m < descriptor_end d then descriptor_end d else m) ds m0) \<le> 2 ^ 52" for ds m0
    by (induction ds arbitrary: m0) auto
  moreover have "\<forall>d \<in> set (usable bi). unat (descriptor_end d) \<le> 2 ^ 52"
    using assms by (simp add: sane_map_def unat_descriptor_end)
  ultimately show ?thesis by (simp add: highest_usable_def)
qed

lemma whole_frames_below:
  assumes "sane_map (usable bi)" "d \<in> set (usable bi)"
  shows "whole_frames d \<subseteq> {..<(unat (highest_usable bi) + 4095) div 4096}"
proof -
  have "unat (physical_start d) + unat (number_of_pages d) * 4096 \<le> unat (highest_usable bi)"
    using assms highest_ge [OF assms(2)] by (simp add: sane_map_def unat_descriptor_end)
  then have "(unat (physical_start d) + unat (number_of_pages d) * 4096) div 4096
      \<le> (unat (highest_usable bi) + 4095) div 4096"
    by (intro div_le_mono) linarith
  then show ?thesis unfolding whole_frames_def by auto
qed

lemma init_total:
  assumes "sane_map (usable bi)"
  shows "unat (total_page_count (init_state bi addr s)) = (unat (highest_usable bi) + 4095) div 4096"
    and "unat (total_page_count (init_state bi addr s)) \<le> 2 ^ 40"
proof -
  note b = highest_bound [OF assms]
  then have "unat (align_up (highest_usable bi) PAGE_SIZE) = (unat (highest_usable bi) + 4095) div 4096 * 4096"
    by (intro unat_align_up) simp
  then show t: "unat (total_page_count (init_state bi addr s)) = (unat (highest_usable bi) + 4095) div 4096"
    by (simp add: init_state_def Let_def unat_div_distrib)
  have "(unat (highest_usable bi) + 4095) div 4096 \<le> (2 ^ 52 + 4095) div 4096"
    using b by (intro div_le_mono) linarith
  then show "unat (total_page_count (init_state bi addr s)) \<le> 2 ^ 40" unfolding t by simp
qed

lemma init_bitmap_bytes:
  assumes "sane_map (usable bi)"
  shows "unat (bitmap_bytes (init_state bi addr s)) =
      ((unat (total_page_count (init_state bi addr s)) + 7) div 8 + 4095) div 4096 * 4096"
proof -
  let ?t = "total_page_count (init_state bi addr s)"
  have t7: "unat (?t + 7) = unat ?t + 7"
    using init_total(2) [OF assms, of addr s] by (subst unat_add_exact) simp_all
  have "(unat ?t + 7) div 8 \<le> (2 ^ 40 + 7) div 8"
    using init_total(2) [OF assms, of addr s] by (intro div_le_mono) linarith
  then have "unat (align_up ((?t + 7) div 8) PAGE_SIZE) = ((unat ?t + 7) div 8 + 4095) div 4096 * 4096"
    using t7 by (subst unat_align_up) (simp_all add: unat_div_distrib)
  then show ?thesis by (simp add: init_state_def Let_def)
qed

lemma init_state_ok:
  assumes "sane_map (usable bi)"
  shows "pmm_ok (init_state bi addr s) \<and> free_frames (init_state bi addr s) = {}
    \<and> covers_max (init_state bi addr s)"
proof -
  let ?s = "init_state bi addr s"
  have test: "bitmap_test ?s (word_of_nat p)" if p: "p < unat (total_page_count ?s)" for p
  proof -
    let ?b = "(unat (total_page_count ?s) + 7) div 8"
    have up: "unat (word_of_nat p :: u64) = p"
      using p unat_u64_less_pow [of "total_page_count ?s"] by (intro unat_word_of_nat64) linarith
    have "p div 8 < ?b" using p by linarith
    moreover have "?b \<le> (?b + 4095) div 4096 * 4096" by linarith
    ultimately have "p div 8 < unat (bitmap_bytes ?s)" unfolding init_bitmap_bytes [OF assms] by linarith
    then have "word_of_nat p div 8 < bitmap_bytes ?s"
      by (simp add: word_less_nat_alt unat_div_distrib up)
    then have "bitmap ?s (word_of_nat p div 8) = 0xff" by (simp add: init_state_def Let_def)
    moreover have "bit (0xff :: u8) n" if "n < 8" for n
      using that by (simp add: bit_iff_odd numeral_eq_Suc less_Suc_eq) auto
    moreover have "unat (word_of_nat p mod 8 :: u64) < 8" by (simp add: unat_mod_distrib)
    ultimately show ?thesis by (simp add: bitmap_test_iff)
  qed
  then have ff: "free_frames ?s = {}" by (auto simp: free_frames_def)
  moreover have "pmm_ok ?s"
    using init_total(2) [OF assms, of addr s] by (simp add: pmm_ok_def ff) (simp add: init_state_def Let_def)
  moreover have "covers_max ?s"
  proof -
    have "max_phys ?s = highest_usable bi" by (simp add: init_state_def Let_def)
    then show ?thesis
      unfolding covers_max_def init_total(1) [OF assms] by (auto simp: less_eq_div_iff_mult_less_eq)
  qed
  ultimately show ?thesis by blast
qed

subsection \<open>Where the bitmap goes\<close>

lemma find_slot_Some:
  "find_slot bi pages lim addrs = Some a \<Longrightarrow> a \<in> set addrs \<and> a + pages * PAGE_SIZE \<le> lim
    \<and> \<not> ranges_overlap a (a + pages * PAGE_SIZE) (kernel_base bi) (kernel_base bi + kernel_size bi)"
  by (induction bi pages lim addrs rule: find_slot.induct) (auto split: if_splits)

lemma find_bitmap_in_Some: "find_bitmap_in bi pages ds = Some a \<Longrightarrow> \<exists>d \<in> set ds. slot_in bi pages d a"
proof (induction ds)
  case (Cons d ds)
  let ?start = "align_up (physical_start d) PAGE_SIZE" and ?lim = "align_down (descriptor_end d) PAGE_SIZE"
  let ?found = "find_slot bi pages ?lim (page_addrs (if ?start < LOW_RESERVED_END then LOW_RESERVED_END else ?start) ?lim)"
  show ?case
  proof (cases ?found)
    case None
    then have "find_bitmap_in bi pages ds = Some a" using Cons.prems by (simp add: Let_def)
    with Cons.IH show ?thesis by auto
  next
    case (Some b)
    then have "b = a" using Cons.prems by (simp add: Let_def)
    with find_slot_Some [OF Some] have "slot_in bi pages d a" by (simp add: slot_in_def Let_def)
    then show ?thesis by simp
  qed
qed simp

lemma page_addrs_within:
  assumes "addr \<in> set (page_addrs start lim)" "unat start = a * 4096" "unat lim = b * 4096"
  obtains f where "unat addr = f * 4096" "a \<le> f" "f < b"
proof -
  have "unat addr \<in> set (map unat (page_addrs start lim))" using assms(1) by auto
  then show ?thesis
    unfolding page_addrs_frames(2) [OF assms(2,3)] using that by auto
qed

lemma pages_of_bytes:
  assumes "unat bytes = k * 4096" "unat bytes + 4095 < 2 ^ 64"
  shows "align_up bytes PAGE_SIZE div PAGE_SIZE * PAGE_SIZE = bytes"
proof -
  have "(k * 4096 + 4095) div 4096 = k" by simp
  then have "unat (align_up bytes PAGE_SIZE div PAGE_SIZE) = k"
    unfolding frame_of_addr_iff unat_align_up [OF assms(2)] by (simp add: assms(1))
  then have "unat (align_up bytes PAGE_SIZE div PAGE_SIZE * PAGE_SIZE) = k * 4096"
    using unat_u64_less_pow [of bytes] assms(1) by (subst unat_mult_exact) simp_all
  with assms(1) show ?thesis by (simp add: word_unat_eq_iff)
qed

lemma bitmap_placed:
  assumes sane: "sane_map (usable bi)" and found: "find_bitmap_storage bi bytes = Inr addr"
    and b: "unat bytes = k * 4096" "unat bytes \<le> 2 ^ 52"
  shows "4096 dvd unat addr \<and> 0x100000 \<le> unat addr
    \<and> (\<exists>d \<in> set (usable bi). frames_between (unat addr) (unat addr + unat bytes) \<subseteq> whole_frames d)
    \<and> \<not> ranges_overlap addr (addr + bytes) (kernel_base bi) (kernel_base bi + kernel_size bi)
    \<and> unat addr + unat bytes \<le> 2 ^ 53"
proof -
  have "align_up bytes PAGE_SIZE div PAGE_SIZE * PAGE_SIZE = bytes"
    using b by (intro pages_of_bytes [of _ k]) simp_all
  moreover obtain d where "d \<in> set (usable bi)" "slot_in bi (align_up bytes PAGE_SIZE div PAGE_SIZE) d addr"
    using found by (auto simp: find_bitmap_storage_def panic_def split: option.splits dest!: find_bitmap_in_Some)
  ultimately obtain d where d: "d \<in> set (usable bi)"
    and mem: "addr \<in> set (page_addrs (if align_up (physical_start d) PAGE_SIZE < LOW_RESERVED_END
        then LOW_RESERVED_END else align_up (physical_start d) PAGE_SIZE) (align_down (descriptor_end d) PAGE_SIZE))"
    and le: "addr + bytes \<le> align_down (descriptor_end d) PAGE_SIZE"
    and no: "\<not> ranges_overlap addr (addr + bytes) (kernel_base bi) (kernel_base bi + kernel_size bi)"
    unfolding slot_in_def Let_def by metis
  let ?a = "(unat (physical_start d) + 4095) div 4096" and ?b = "unat (descriptor_end d) div 4096"
  have bd: "unat (physical_start d) + unat (number_of_pages d) * 4096 \<le> 2 ^ 52"
    using sane d by (simp add: sane_map_def)
  have "unat (physical_start d) \<le> 2 ^ 52" using bd by linarith
  then have st: "unat (align_up (physical_start d) PAGE_SIZE) = ?a * 4096"
    by (intro unat_align_up) simp
  have "unat (if align_up (physical_start d) PAGE_SIZE < LOW_RESERVED_END
        then LOW_RESERVED_END else align_up (physical_start d) PAGE_SIZE) = max 256 ?a * 4096"
    using st by (simp add: word_less_nat_alt max_def)
  from page_addrs_within [OF mem this unat_align_down]
  obtain f where f: "unat addr = f * 4096" "max 256 ?a \<le> f" "f < ?b" by blast
  have end52: "unat (descriptor_end d) \<le> 2 ^ 52" using bd by (simp add: unat_descriptor_end)
  have f52: "f * 4096 \<le> 2 ^ 52" using f(3) end52 by linarith
  have sum: "unat (addr + bytes) = unat addr + unat bytes"
    using f52 b(2) by (intro unat_add_exact) (simp add: f(1))
  have "f * 4096 + k * 4096 \<le> ?b * 4096"
    using le by (simp add: word_le_nat_alt sum unat_align_down f(1) b(1))
  then have "f + k \<le> ?b" by linarith
  moreover have "frames_between (unat addr) (unat addr + unat bytes) = {f..<f + k}"
  proof -
    have "(f * 4096 + k * 4096 + 4095) div 4096 = f + k"
      by linarith
    then show ?thesis by (simp add: frames_between_def f(1) b(1))
  qed
  ultimately have "frames_between (unat addr) (unat addr + unat bytes) \<subseteq> whole_frames d"
    using f(2) by (auto simp: whole_frames_def unat_descriptor_end [OF bd])
  with d f no b f52 show ?thesis by (auto simp: f(1))
qed

subsection \<open>Initialisation\<close>

lemma reserve_sum:
  assumes "unat a + unat b \<le> 2 ^ 63" "pmm_ok s" "covers_max s"
  shows "pmm_ok (reserve_range a (a + b) s)
    \<and> free_frames (reserve_range a (a + b) s) = free_frames s - frames_between (unat a) (unat a + unat b)
    \<and> covers_max (reserve_range a (a + b) s)
    \<and> used_page_count (reserve_range a (a + b) s) = used_page_count s"
proof -
  have "unat (a + b) = unat a + unat b" using assms(1) by (intro unat_add_exact) simp
  with reserve_range_frames [OF _ assms(2,3), of "a + b" a] assms(1) show ?thesis by simp
qed

lemma bitmap_base_reserve_page [simp]:
  "bitmap_base (reserve_page p s) = bitmap_base s" "bitmap_bytes (reserve_page p s) = bitmap_bytes s"
  by (simp_all add: reserve_page_def bitmap_set_def)

lemma reserve_range_keeps [simp]:
  "bitmap_base (reserve_range a b s) = bitmap_base s"
  "bitmap_bytes (reserve_range a b s) = bitmap_bytes s"
  "total_page_count (reserve_range a b s) = total_page_count s"
proof -
  have "bitmap_base (reserve_addrs xs s) = bitmap_base s \<and> bitmap_bytes (reserve_addrs xs s) = bitmap_bytes s
    \<and> total_page_count (reserve_addrs xs s) = total_page_count s" for xs
    by (induction xs s rule: reserve_addrs.induct) simp_all
  then show "bitmap_base (reserve_range a b s) = bitmap_base s"
    "bitmap_bytes (reserve_range a b s) = bitmap_bytes s"
    "total_page_count (reserve_range a b s) = total_page_count s"
    by (simp_all add: reserve_range_def)
qed

lemma fold_keeps: "(\<And>x s. g (f x s) = g s) \<Longrightarrow> g (fold f xs s) = g s"
  by (induction xs arbitrary: s) simp_all

lemma release_keeps [simp]:
  "bitmap_base (fold release_descriptor ds s) = bitmap_base s"
  "bitmap_bytes (fold release_descriptor ds s) = bitmap_bytes s"
  "total_page_count (fold release_descriptor ds s) = total_page_count s"
  unfolding release_descriptor_def
  by (intro fold_keeps; simp add: release_page_def bitmap_clear_def)+

lemma reserved_to_range:
  "reserved_to A B s \<Longrightarrow> unat a + unat b \<le> 2 ^ 63 \<Longrightarrow>
   reserved_to A (B \<union> frames_between (unat a) (unat a + unat b)) (reserve_range a (a + b) s)"
  using reserve_sum [of a b s] unfolding reserved_to_def by auto

lemma released_state:
  assumes "sane_map (usable bi)"
  shows "reserved_to (\<Union>d \<in> set (usable bi). whole_frames d) {}
    (fold release_descriptor (usable bi) (init_state bi addr s))"
proof -
  let ?s = "init_state bi addr s"
  have "\<forall>d \<in> set (usable bi). whole_frames d \<subseteq> {..<unat (total_page_count ?s)} \<and> whole_frames d \<inter> free_frames ?s = {}"
    using whole_frames_below [OF assms] init_state_ok [OF assms, of addr s]
    unfolding init_total(1) [OF assms] by simp
  moreover have "used_page_count ?s = 0" by (simp add: init_state_def Let_def)
  ultimately show ?thesis
    using release_all_ok [of ?s "usable bi"] init_state_ok [OF assms, of addr s] assms
    by (simp add: reserved_to_def covers_max_def)
qed

lemma low_reserved: "frames_between 0 0x100000 = {..<256}" "frames_between 0x7000 0x9000 \<subseteq> {..<256}"
  by (auto simp: frames_between_def)

lemma reserved_low:
  assumes "reserved_to A {} s"
  shows "reserved_to A {..<256}
    (reserve_range TRAMPOLINE_START TRAMPOLINE_END (reserve_range 0 LOW_RESERVED_END s))"
proof -
  from reserved_to_range [OF assms, where a = 0 and b = LOW_RESERVED_END]
  have "reserved_to A {..<256} (reserve_range 0 LOW_RESERVED_END s)"
    by (simp add: low_reserved)
  from reserved_to_range [OF this, where a = TRAMPOLINE_START and b = "0x2000"]
  show ?thesis by (simp add: Un_absorb2 low_reserved)
qed

lemma reserved_boot:
  assumes "reserved_to A B s" and ranges: "sane_ranges bi bi_addr"
  shows "reserved_to A (B \<union> boot_reserved bi bi_addr) (reserve_boot bi bi_addr s)"
proof -
  let ?k = "frames_between (unat (kernel_base bi)) (unat (kernel_base bi) + unat (kernel_size bi))"
  let ?i = "frames_between (unat (initramfs_base bi)) (unat (initramfs_base bi) + unat (initramfs_size bi))"
  define s5 where "s5 = reserve_range (kernel_base bi) (kernel_base bi + kernel_size bi) s"
  define s6 where "s6 = (if initramfs_base bi \<noteq> 0 \<and> initramfs_size bi \<noteq> 0
      then reserve_range (initramfs_base bi) (initramfs_base bi + initramfs_size bi) s5 else s5)"
  have r5: "reserved_to A (B \<union> ?k) s5"
    using reserved_to_range [OF assms(1), of "kernel_base bi" "kernel_size bi"] ranges
    by (simp add: s5_def sane_ranges_def)
  from reserved_to_range [OF r5, of "initramfs_base bi" "initramfs_size bi"] ranges r5
  have "reserved_to A (B \<union> ?k \<union> (if initramfs_base bi \<noteq> 0 \<and> initramfs_size bi \<noteq> 0 then ?i else {})) s6"
    by (simp add: s6_def sane_ranges_def)
  moreover have "unat bi_addr + unat sizeof_BootInfo \<le> 2 ^ 63"
    using ranges by (simp add: sane_ranges_def sizeof_BootInfo_def)
  ultimately have "reserved_to A (B \<union> boot_reserved bi bi_addr)
      (reserve_range bi_addr (bi_addr + sizeof_BootInfo) s6)"
    unfolding boot_reserved_def Un_assoc [symmetric] by (rule reserved_to_range)
  then show ?thesis by (simp only: reserve_boot_def Let_def s6_def s5_def)
qed

lemma reserve_boot_keeps [simp]:
  "bitmap_base (reserve_boot bi a s) = bitmap_base s"
  "bitmap_bytes (reserve_boot bi a s) = bitmap_bytes s"
  "total_page_count (reserve_boot bi a s) = total_page_count s"
  by (simp_all add: reserve_boot_def Let_def)

lemma pmm_init_steps:
  assumes "pmm_init bi bi_addr s = Inr s'"
  obtains addr where
    "find_bitmap_storage bi (bitmap_bytes (init_state bi addr s)) = Inr addr"
    "s' = reserve_boot bi bi_addr (reserve_range addr (addr + bitmap_bytes (init_state bi addr s))
       (reserve_range TRAMPOLINE_START TRAMPOLINE_END (reserve_range 0 LOW_RESERVED_END
         (fold release_descriptor (usable bi) (init_state bi addr s)))))"
  using assms
  by (auto simp: pmm_init_def Let_def panic_def kbind_Inr_iff init_state_def reserve_boot_def
      split: if_splits)

lemma pmm_init_returns:
  assumes "highest_usable bi = highest" "highest \<noteq> 0"
    and "align_up ((align_up highest PAGE_SIZE div PAGE_SIZE + 7) div 8) PAGE_SIZE = bytes"
    and "find_bitmap_storage bi bytes = Inr addr"
  shows "\<exists>s'. pmm_init bi bi_addr s = Inr s' \<and> bitmap_base s' = addr \<and> bitmap_bytes s' = bytes"
  using assms by (simp add: pmm_init_def Let_def)

lemma pmm_init_spec:
  assumes sane: "sane_map (usable bi)" and ranges: "sane_ranges bi bi_addr"
    and init: "pmm_init bi bi_addr s = Inr s'"
  shows "pmm_ok s' \<and> used_page_count s' = 0
    \<and> free_frames s' = (\<Union>d \<in> set (usable bi). whole_frames d) - ({..<256}
        \<union> frames_between (unat (bitmap_base s')) (unat (bitmap_base s') + unat (bitmap_bytes s'))
        \<union> boot_reserved bi bi_addr)
    \<and> (\<exists>d \<in> set (usable bi). frames_between (unat (bitmap_base s')) (unat (bitmap_base s') + unat (bitmap_bytes s'))
        \<subseteq> whole_frames d)
    \<and> unat (total_page_count s') \<le> 8 * unat (bitmap_bytes s')"
  using init
proof (cases rule: pmm_init_steps)
  case (1 addr)
  define s0 where "s0 = init_state bi addr s"
  define k where "k = ((unat (total_page_count s0) + 7) div 8 + 4095) div 4096"
  have ub: "unat (bitmap_bytes s0) = k * 4096"
    unfolding s0_def k_def by (rule init_bitmap_bytes [OF sane])
  have t: "unat (total_page_count s0) \<le> 8 * (k * 4096)" "k * 4096 \<le> unat (total_page_count s0) + 4102"
    unfolding k_def by linarith+
  have kb: "k * 4096 \<le> 2 ^ 52"
    using t(2) init_total(2) [OF sane, of addr s] by (simp flip: s0_def)
  note placed = bitmap_placed [OF sane 1(1) ub [unfolded s0_def] kb [folded ub, unfolded s0_def]]
  have r3: "reserved_to (\<Union>d \<in> set (usable bi). whole_frames d) {..<256}
     (reserve_range TRAMPOLINE_START TRAMPOLINE_END (reserve_range 0 LOW_RESERVED_END
         (fold release_descriptor (usable bi) s0)))"
    unfolding s0_def by (rule reserved_low [OF released_state [OF sane]])
  have "unat addr + unat (bitmap_bytes s0) \<le> 2 ^ 63" using placed by (simp add: s0_def)
  from reserved_boot [OF reserved_to_range [OF r3 this] ranges]
  have "reserved_to (\<Union>d \<in> set (usable bi). whole_frames d)
      ({..<256} \<union> frames_between (unat addr) (unat addr + unat (bitmap_bytes s0)) \<union> boot_reserved bi bi_addr) s'"
    unfolding 1(2) s0_def .
  moreover have "bitmap_base s' = addr" "bitmap_bytes s' = bitmap_bytes s0" "total_page_count s' = total_page_count s0"
    unfolding 1(2) by (simp_all add: s0_def) (simp add: init_state_def Let_def)
  ultimately show ?thesis
    using placed t ub unfolding reserved_to_def by (simp add: s0_def)
qed

lemma demo_boot_usable: "usable demo_boot =
    [\<lparr>md_type = 7, physical_start = 0x100000, virtual_start = 0, number_of_pages = 256, attribute = 0\<rparr>]"
  by (simp add: usable_def demo_boot_def memory_descriptors_def usable_descriptor_def)

lemma demo_boot_sane: "sane_map (usable demo_boot)" "sane_ranges demo_boot 0x130000"
  by (simp_all add: sane_map_def demo_boot_usable sane_ranges_def) (simp add: demo_boot_def)

lemma demo_boot_simps:
  "(\<Union>d \<in> set (usable demo_boot). whole_frames d) = {256..<512}"
  "boot_reserved demo_boot 0x130000 = {384..<416} \<union> {304..<307}"
  "frames_between 0x100000 0x101000 = {256..<257}"
  by (simp_all add: demo_boot_usable whole_frames_def boot_reserved_def frames_between_def
      sizeof_BootInfo_def) (simp add: demo_boot_def)

lemma demo_boot_found: "find_bitmap_storage demo_boot 0x1000 = Inr 0x100000"
proof -
  have "page_addrs 0x100000 0x200000 = 0x100000 # page_addrs 0x101000 0x200000"
    by (subst page_addrs_unfold) simp_all
  moreover have "kernel_base demo_boot = 0x180000" "kernel_size demo_boot = 0x20000"
    by (simp_all add: demo_boot_def)
  ultimately show ?thesis
    by (simp add: find_bitmap_storage_def demo_boot_usable descriptor_end_def align_up_def align_down_def
        ranges_overlap_def)
qed

lemma demo_boot_init:
  "\<exists>s'. pmm_init demo_boot 0x130000 demo_pmm = Inr s' \<and> bitmap_base s' = 0x100000 \<and> bitmap_bytes s' = 0x1000"
proof -
  have top: "highest_usable demo_boot = 0x200000"
    by (simp add: highest_usable_def demo_boot_usable descriptor_end_def)
  have "align_up ((align_up 0x200000 PAGE_SIZE div PAGE_SIZE + 7) div 8) PAGE_SIZE = 0x1000"
    by (simp add: align_up_def)
  then show ?thesis
    by (rule pmm_init_returns [OF top _ _ demo_boot_found, rotated]) simp
qed

subsection \<open>Properties\<close>

text \<open>
  C2. After \<open>pmm_init\<close> the free frames are exactly the frames inside usable memory that are
  not in the low megabyte, not part of the bitmap, of the kernel image, of the initramfs or of
  the boot information; the bitmap lies in one usable region and has a bit for every frame; no
  frame counts as used and the counters agree with the bitmap.
\<close>

theorem pmm_init_free_frames:
  assumes "sane_map (usable bi)" "sane_ranges bi bi_addr" "pmm_init bi bi_addr s = Inr s'"
  shows "pmm_ok s' \<and> used_page_count s' = 0
    \<and> free_frames s' = (\<Union>d \<in> set (usable bi). whole_frames d) - ({..<256}
        \<union> frames_between (unat (bitmap_base s')) (unat (bitmap_base s') + unat (bitmap_bytes s'))
        \<union> boot_reserved bi bi_addr)
    \<and> (\<exists>d \<in> set (usable bi). frames_between (unat (bitmap_base s')) (unat (bitmap_base s') + unat (bitmap_bytes s'))
        \<subseteq> whole_frames d)
    \<and> unat (total_page_count s') \<le> 8 * unat (bitmap_bytes s')"
  by (rule pmm_init_spec [OF assms])

theorem pmm_init_free_frames_witness:
  "\<exists>s'. pmm_init demo_boot 0x130000 demo_pmm = Inr s' \<and> pmm_ok s' \<and> 0x140 \<in> free_frames s'"
proof -
  obtain s' where s': "pmm_init demo_boot 0x130000 demo_pmm = Inr s'" "bitmap_base s' = 0x100000" "bitmap_bytes s' = 0x1000"
    using demo_boot_init by blast
  note p = pmm_init_free_frames [OF demo_boot_sane s'(1)]
  have "0x140 \<in> free_frames s'"
    using p by (simp add: s'(2,3) demo_boot_simps)
  with p s'(1) show ?thesis by blast
qed

text \<open>
  C3. From boot on, no sequence of allocations ever hands out a page of the low megabyte, of
  the allocator's own bitmap, of the kernel image, of the initramfs or of the boot information.
\<close>

theorem pmm_never_grants_boot_memory:
  assumes "sane_map (usable bi)" "sane_ranges bi bi_addr" "pmm_init bi bi_addr s = Inr s1"
    and "alloc_seq pmm_alloc_pages counts s1 = (blocks, s2)" "(p, n) \<in> set blocks"
  shows "frames_of p n \<inter> ({..<256}
      \<union> frames_between (unat (bitmap_base s1)) (unat (bitmap_base s1) + unat (bitmap_bytes s1))
      \<union> boot_reserved bi bi_addr) = {}"
proof -
  note init = pmm_init_spec [OF assms(1-3)]
  with frames.seq_within [OF _ assms(4,5)] show ?thesis by blast
qed

theorem pmm_never_grants_boot_memory_witness:
  "\<exists>s1. pmm_init demo_boot 0x130000 demo_pmm = Inr s1 \<and>
     (\<forall>blocks s2. alloc_seq pmm_alloc_pages [4] s1 = (blocks, s2) \<longrightarrow>
       (\<forall>(p, n) \<in> set blocks. 384 \<notin> frames_of p n))"
proof -
  obtain s1 where s1: "pmm_init demo_boot 0x130000 demo_pmm = Inr s1" using demo_boot_init by blast
  have "384 \<in> boot_reserved demo_boot 0x130000" by (simp add: demo_boot_simps)
  then show ?thesis
    using pmm_never_grants_boot_memory [OF demo_boot_sane s1] s1 by blast
qed

end
