(* ===== verification/Kheap.thy ===== *)
theory Kheap
  imports Pmm
begin

text \<open>
  The kernel heap, \<open>kernel/heap.c\<close>: a singly linked list of blocks in physical memory, each
  with a 32-byte header (\<open>HeapBlock\<close>) before its payload. \<open>kmalloc\<close> takes the first free
  block that is large enough, or a fresh run of pages, and splits it; \<open>kfree\<close> marks a block
  free and merges neighbours in one pass over the list. The header fields are read from and
  written to memory; walks over the list are partial functions, because a corrupted list may
  be cyclic.
\<close>

subsection \<open>Block headers\<close>

record HeapBlock =
  hb_magic :: u64
  hb_size :: u64
  hb_free :: u32
  hb_next :: u64

record heap = pmm +
  heap_head :: u64

definition HEAP_MAGIC :: u64 where
  "HEAP_MAGIC = 0x484541504f52454"

text \<open>\<open>sizeof(HeapBlock)\<close>: the field offsets are 0, 8, 16 and 24.\<close>

abbreviation sizeof_HeapBlock :: u64 where
  "sizeof_HeapBlock \<equiv> 32"

definition block_at :: "memory \<Rightarrow> u64 \<Rightarrow> HeapBlock" where
  "block_at m b = \<lparr>hb_magic = read64 m b, hb_size = read64 m (b + 8), hb_free = read32 m (b + 16),
                   hb_next = read64 m (b + 24)\<rparr>"

definition set_magic :: "u64 \<Rightarrow> u64 \<Rightarrow> memory \<Rightarrow> memory" where
  "set_magic b v m = write64 m b v"

definition set_size :: "u64 \<Rightarrow> u64 \<Rightarrow> memory \<Rightarrow> memory" where
  "set_size b v m = write64 m (b + 8) v"

definition set_free :: "u64 \<Rightarrow> u32 \<Rightarrow> memory \<Rightarrow> memory" where
  "set_free b v m = write32 m (b + 16) v"

definition set_next :: "u64 \<Rightarrow> u64 \<Rightarrow> memory \<Rightarrow> memory" where
  "set_next b v m = write64 m (b + 24) v"

subsection \<open>Operations\<close>

definition heap_init :: "'a heap_scheme \<Rightarrow> 'a heap_scheme" where
  "heap_init s = s\<lparr>heap_head := 0\<rparr>"

partial_function (option) heap_tail :: "memory \<Rightarrow> u64 \<Rightarrow> u64 option" where
  "heap_tail m tail =
     (if hb_next (block_at m tail) \<noteq> 0 then heap_tail m (hb_next (block_at m tail)) else Some tail)"

definition request_block :: "u64 \<Rightarrow> 'a heap_scheme \<Rightarrow> (u64 \<times> 'a heap_scheme) or_panic" where
  "request_block sz s =
     (let total = align_up (sizeof_HeapBlock + sz) PAGE_SIZE;
          pages = (ucast (total div PAGE_SIZE) :: u32);
          (block, s1) = pmm_alloc_pages pages s
      in if block = 0 then Inr (0, s1)
         else
           let m1 = set_magic block HEAP_MAGIC (mem s1);
               m2 = set_size block (total - sizeof_HeapBlock) m1;
               m3 = set_free block 1 m2;
               m4 = set_next block 0 m3
           in if heap_head s1 = 0 then Inr (block, s1\<lparr>mem := m4, heap_head := block\<rparr>)
              else kbind (of_loop (heap_tail m4 (heap_head s1))) (\<lambda>tail.
                     Inr (block, s1\<lparr>mem := set_next tail block m4\<rparr>)))"

definition split_block :: "u64 \<Rightarrow> u64 \<Rightarrow> memory \<Rightarrow> memory" where
  "split_block block sz m =
     (let remaining = hb_size (block_at m block) - sz
      in if remaining \<le> sizeof_HeapBlock + 32 then m
         else
           let nxt = block + sizeof_HeapBlock + sz;
               m1 = set_magic nxt HEAP_MAGIC m;
               m2 = set_size nxt (remaining - sizeof_HeapBlock) m1;
               m3 = set_free nxt 1 m2;
               m4 = set_next nxt (hb_next (block_at m3 block)) m3;
               m5 = set_size block sz m4
           in set_next block nxt m5)"

partial_function (option) find_block :: "memory \<Rightarrow> u64 \<Rightarrow> u64 \<Rightarrow> u64 option" where
  "find_block m sz block =
     (if block \<noteq> 0 then
        if hb_magic (block_at m block) = HEAP_MAGIC \<and> hb_free (block_at m block) \<noteq> 0
           \<and> sz \<le> hb_size (block_at m block)
        then Some block
        else find_block m sz (hb_next (block_at m block))
      else Some 0)"

definition kmalloc :: "u64 \<Rightarrow> 'a heap_scheme \<Rightarrow> (u64 \<times> 'a heap_scheme) or_panic" where
  "kmalloc size0 s =
     (if size0 = 0 then Inr (0, s)
      else
        let sz = align_up size0 16
        in kbind (of_loop (find_block (mem s) sz (heap_head s))) (\<lambda>found.
           kbind (if found = 0 then request_block sz s else Inr (found, s)) (\<lambda>(block, s1).
           if block = 0 then Inr (0, s1)
           else Inr (block + sizeof_HeapBlock,
                     s1\<lparr>mem := set_free block 0 (split_block block sz (mem s1))\<rparr>))))"

definition kzalloc :: "u64 \<Rightarrow> 'a heap_scheme \<Rightarrow> (u64 \<times> 'a heap_scheme) or_panic" where
  "kzalloc sz s =
     kbind (kmalloc sz s) (\<lambda>(ptr, s1).
       if ptr \<noteq> 0 then Inr (ptr, s1\<lparr>mem := mem_zero (mem s1) ptr sz\<rparr>) else Inr (ptr, s1))"

partial_function (option) coalesce :: "memory \<Rightarrow> u64 \<Rightarrow> memory option" where
  "coalesce m cur =
     (if cur \<noteq> 0 \<and> hb_next (block_at m cur) \<noteq> 0 then
        let nxt = hb_next (block_at m cur)
        in if hb_free (block_at m cur) \<noteq> 0 \<and> hb_free (block_at m nxt) \<noteq> 0
              \<and> cur + sizeof_HeapBlock + hb_size (block_at m cur) = nxt
           then
             let m1 = set_size cur (hb_size (block_at m cur)
                        + (sizeof_HeapBlock + hb_size (block_at m nxt))) m;
                 m2 = set_next cur (hb_next (block_at m1 nxt)) m1
             in coalesce m2 (hb_next (block_at m2 cur))
           else coalesce m nxt
      else Some m)"

definition kfree :: "u64 \<Rightarrow> 'a heap_scheme \<Rightarrow> 'a heap_scheme or_panic" where
  "kfree ptr s =
     (if ptr = 0 then Inr s
      else
        let block = ptr - sizeof_HeapBlock
        in if hb_magic (block_at (mem s) block) \<noteq> HEAP_MAGIC then panic ''heap: invalid free''
           else kbind (of_loop (coalesce (set_free block 1 (mem s)) (heap_head s))) (\<lambda>m.
                  Inr (s\<lparr>mem := m\<rparr>)))"

subsection \<open>Header facts\<close>

text \<open>Room for a header at \<open>b\<close>, and an address inside the header.\<close>

definition hdr_room :: "u64 \<Rightarrow> bool" where
  "hdr_room b \<longleftrightarrow> unat b + 32 \<le> 2 ^ 63"

definition in_hdr :: "u64 \<Rightarrow> u64 \<Rightarrow> bool" where
  "in_hdr b x \<longleftrightarrow> unat b \<le> unat x \<and> unat x < unat b + 32"

lemma hdr_offsets:
  assumes "hdr_room b"
  shows "unat (b + 8) = unat b + 8" "unat (b + 16) = unat b + 16" "unat (b + 24) = unat b + 24" "unat (b + 32) = unat b + 32"
  using assms by (simp_all add: hdr_room_def unat_add_exact)

lemma set_field_elsewhere:
  assumes "hdr_room b" "\<not> in_hdr b x"
  shows "set_magic b v m x = m x" "set_size b v m x = m x" "set_free b w m x = m x" "set_next b v m x = m x"
proof -
  note o = hdr_offsets [OF assms(1)]
  have r: "unat b + 32 \<le> 2 ^ 63" using assms(1) by (simp add: hdr_room_def)
  have x: "unat x < unat b \<or> unat b + 32 \<le> unat x" using assms(2) by (auto simp: in_hdr_def)
  show "set_magic b v m x = m x" unfolding set_magic_def
    using r x by (intro write64_elsewhere) (simp_all, linarith?)
  show "set_size b v m x = m x" unfolding set_size_def
    using r x by (intro write64_elsewhere) (simp_all add: o, linarith?)
  show "set_free b w m x = m x" unfolding set_free_def
    using r x by (intro write32_elsewhere) (simp_all add: o, linarith?)
  show "set_next b v m x = m x" unfolding set_next_def
    using r x by (intro write64_elsewhere) (simp_all add: o, linarith?)
qed

lemma block_at_agree:
  assumes "hdr_room b" "\<And>x. in_hdr b x \<Longrightarrow> m x = m' x"
  shows "block_at m b = block_at m' b"
proof -
  note o = hdr_offsets [OF assms(1)]
  have r: "unat b + 32 \<le> 2 ^ 63" using assms(1) by (simp add: hdr_room_def)
  have "read64 m b = read64 m' b" "read64 m (b + 8) = read64 m' (b + 8)" "read64 m (b + 24) = read64 m' (b + 24)"
    using r by (auto intro!: read64_agree assms(2) simp: o in_hdr_def)
  moreover have "read32 m (b + 16) = read32 m' (b + 16)"
    using r by (auto intro!: read32_agree assms(2) simp: o in_hdr_def)
  ultimately show ?thesis by (simp add: block_at_def)
qed

lemma block_at_set:
  assumes "hdr_room b"
  shows "block_at (set_magic b v m) b = (block_at m b)\<lparr>hb_magic := v\<rparr>"
    "block_at (set_size b v m) b = (block_at m b)\<lparr>hb_size := v\<rparr>"
    "block_at (set_free b w m) b = (block_at m b)\<lparr>hb_free := w\<rparr>"
    "block_at (set_next b v m) b = (block_at m b)\<lparr>hb_next := v\<rparr>"
proof -
  note o = hdr_offsets [OF assms(1)]
  have r: "unat b + 32 \<le> 2 ^ 63" using assms(1) by (simp add: hdr_room_def)
  have w64: "read64 (write64 m p v) q = read64 m q" if "unat p + 8 \<le> unat q \<or> unat q + 8 \<le> unat p" "unat p + 8 \<le> 2 ^ 64" "unat q + 8 \<le> 2 ^ 64" for p q
    using that by (intro read64_agree write64_elsewhere) auto
  have w32: "read64 (write32 m p w) q = read64 m q" if "unat p + 4 \<le> unat q \<or> unat q + 8 \<le> unat p" "unat p + 4 \<le> 2 ^ 64" "unat q + 8 \<le> 2 ^ 64" for p q
    using that by (intro read64_agree write32_elsewhere) auto
  have w3: "read32 (write64 m p v) q = read32 m q" if "unat p + 8 \<le> unat q \<or> unat q + 4 \<le> unat p" "unat p + 8 \<le> 2 ^ 64" "unat q + 4 \<le> 2 ^ 64" for p q
    using that by (intro read32_agree write64_elsewhere) auto
  show "block_at (set_magic b v m) b = (block_at m b)\<lparr>hb_magic := v\<rparr>"
    "block_at (set_size b v m) b = (block_at m b)\<lparr>hb_size := v\<rparr>"
    "block_at (set_free b w m) b = (block_at m b)\<lparr>hb_free := w\<rparr>"
    "block_at (set_next b v m) b = (block_at m b)\<lparr>hb_next := v\<rparr>"
    using r by (simp_all add: block_at_def set_magic_def set_size_def set_free_def set_next_def w64 w32 w3 o)
qed

end
