(* ===== verification/Kheap_Spec.thy ===== *)
theory Kheap_Spec
  imports Kheap
begin

text \<open>
  The heap of theory \<open>Kheap\<close> refines a list of blocks. \<open>heap_seg m p bl q\<close> says that the headers
  in memory from \<open>p\<close> to \<open>q\<close> spell the list \<open>bl\<close> of (address, size, free) triples; \<open>heap_ok\<close> adds
  that the blocks are aligned, disjoint and inside frames that the page allocator has given
  away. On lists \<open>kmalloc\<close> carves the first fitting block (\<open>carve\<close>) or one made of fresh pages,
  and \<open>kfree\<close> marks a block free and merges neighbours (\<open>coal\<close>).
\<close>

type_synonym blk = "u64 \<times> u64 \<times> bool"

fun heap_seg :: "memory \<Rightarrow> u64 \<Rightarrow> blk list \<Rightarrow> u64 \<Rightarrow> bool" where
  "heap_seg m p [] q \<longleftrightarrow> p = q"
| "heap_seg m p ((b, z, fr) # bl) q \<longleftrightarrow>
     p = b \<and> hb_magic (block_at m b) = HEAP_MAGIC \<and> hb_size (block_at m b) = z
     \<and> (hb_free (block_at m b) \<noteq> 0) = fr \<and> heap_seg m (hb_next (block_at m b)) bl q"

fun extent :: "blk \<Rightarrow> nat set" where
  "extent (b, z, fr) = {unat b..<unat b + 32 + unat z}"

fun blk_ok :: "blk \<Rightarrow> bool" where
  "blk_ok (b, z, fr) \<longleftrightarrow> b \<noteq> 0 \<and> 16 dvd unat b \<and> 16 dvd unat z \<and> unat b + 32 + unat z \<le> 2 ^ 63"

definition blocks_ok :: "blk list \<Rightarrow> bool" where
  "blocks_ok bl \<longleftrightarrow> (\<forall>x \<in> set bl. blk_ok x) \<and> sorted_wrt (\<lambda>x y. extent x \<inter> extent y = {}) bl"

definition carve :: "u64 \<Rightarrow> u64 \<Rightarrow> u64 \<Rightarrow> blk list" where
  "carve sz b z = (if z - sz \<le> 64 then [(b, z, False)]
                   else [(b, sz, False), (b + 32 + sz, z - sz - 32, True)])"

fun coal :: "blk list \<Rightarrow> blk list" where
  "coal [] = []"
| "coal [x] = [x]"
| "coal ((b, z, fr) # (c, y, fr') # bl) =
     (if fr \<and> fr' \<and> b + 32 + z = c then (b, z + (32 + y), True) # coal bl
      else (b, z, fr) # coal ((c, y, fr') # bl))"

definition mark_free :: "u64 \<Rightarrow> blk list \<Rightarrow> blk list" where
  "mark_free p bl = map (\<lambda>(b, z, fr). (b, z, fr \<or> b = p)) bl"

definition heap_ok :: "'a heap_scheme \<Rightarrow> blk list \<Rightarrow> bool" where
  "heap_ok s bl \<longleftrightarrow> pmm_ok s \<and> heap_seg (mem s) (heap_head s) bl 0 \<and> blocks_ok bl
     \<and> (\<forall>x \<in> set bl. \<forall>a \<in> extent x. a div 4096 \<notin> free_frames s)"

fun payload :: "blk \<Rightarrow> nat set" where
  "payload (b, z, fr) = {unat b + 32..<unat b + 32 + unat z}"

definition keeps_data :: "blk list \<Rightarrow> memory \<Rightarrow> memory \<Rightarrow> bool" where
  "keeps_data bl m m' \<longleftrightarrow> (\<forall>x \<in> set bl. \<forall>a. unat a \<in> payload x \<longrightarrow> m' a = m a)"

text \<open>A fresh run of pages, turned into a block at the end of the list.\<close>

definition fresh_block :: "memory \<Rightarrow> u64 \<Rightarrow> u64 \<Rightarrow> memory" where
  "fresh_block m p z = set_next p 0 (set_free p 1 (set_size p z (set_magic p HEAP_MAGIC m)))"

definition append_block :: "memory \<Rightarrow> u64 \<Rightarrow> u64 \<Rightarrow> u64 \<Rightarrow> u64 \<times> memory" where
  "append_block m head p z =
     (let m4 = fresh_block m p z
      in if head = 0 then (p, m4) else (head, set_next (the (heap_tail m4 head)) p m4))"

definition live :: "blk list \<Rightarrow> blk list" where
  "live bl = filter (\<lambda>(b, z, fr). \<not> fr) bl"

definition fits_blk :: "u64 \<Rightarrow> blk \<Rightarrow> bool" where
  "fits_blk sz = (\<lambda>(b, z, fr). fr \<and> sz \<le> z)"

text \<open>The merge of two neighbours: the header of the first takes over the second.\<close>

definition merge_hdr :: "u64 \<Rightarrow> u64 \<Rightarrow> u64 \<Rightarrow> memory \<Rightarrow> memory" where
  "merge_hdr b z n m = set_next b n (set_size b z m)"

definition demo_heap :: heap where
  "demo_heap = \<lparr>mem = (\<lambda>_. 7), cr3 = 0, bitmap = (\<lambda>_. 0), bitmap_base = 0x180000,
     bitmap_bytes = 4096, max_phys = 0x110000, total_page_count = 272, free_page_count = 272,
     reserved_page_count = 0, used_page_count = 0, heap_head = 0\<rparr>"

definition demo_block :: heap where
  "demo_block = demo_heap\<lparr>mem := fresh_block (\<lambda>_. 7) 0x100000 4064, heap_head := 0x100000,
     total_page_count := 256, free_page_count := 256\<rparr>"

subsection \<open>Lists of blocks in memory\<close>

lemma heap_seg_append: "heap_seg m p (xs @ ys) q \<longleftrightarrow> (\<exists>r. heap_seg m p xs r \<and> heap_seg m r ys q)"
  by (induction m p xs q rule: heap_seg.induct) auto

lemma heap_seg_agree:
  assumes "\<And>b z fr x. (b, z, fr) \<in> set bl \<Longrightarrow> hdr_room b \<and> (in_hdr b x \<longrightarrow> m' x = m x)"
  shows "heap_seg m' p bl q = heap_seg m p bl q"
  using assms
proof (induction bl arbitrary: p)
  case (Cons x bl)
  obtain b z fr where x: "x = (b, z, fr)" by (cases x)
  have "block_at m' b = block_at m b"
    using Cons.prems [of b z fr] x by (intro block_at_agree) auto
  moreover have "heap_seg m' r bl q = heap_seg m r bl q" for r
    by (rule Cons.IH) (use Cons.prems in auto)
  ultimately show ?case by (simp add: x)
qed simp

lemma blk_ok_room: "blk_ok (b, z, fr) \<Longrightarrow> hdr_room b"
  by (simp add: hdr_room_def)

lemma in_hdr_extent: "in_hdr b x \<Longrightarrow> unat x \<in> extent (b, z, fr)"
  by (simp add: in_hdr_def)

text \<open>Memory changed only inside \<open>A\<close> keeps every list whose blocks avoid \<open>A\<close>.\<close>

lemma heap_seg_frame:
  assumes "heap_seg m p bl q" "\<forall>x \<in> set bl. blk_ok x \<and> extent x \<inter> A = {}"
    and "\<And>a. unat a \<notin> A \<Longrightarrow> m' a = m a"
  shows "heap_seg m' p bl q"
proof -
  have ag: "hdr_room b \<and> (in_hdr b a \<longrightarrow> m' a = m a)" if "(b, z, fr) \<in> set bl" for b z fr a
  proof -
    from that assms(2) have "blk_ok (b, z, fr)" "extent (b, z, fr) \<inter> A = {}" by blast+
    then show ?thesis
      using blk_ok_room in_hdr_extent [of b a z fr] assms(3) by blast
  qed
  have "heap_seg m' p bl q = heap_seg m p bl q" by (rule heap_seg_agree) (rule ag)
  with assms(1) show ?thesis by simp
qed

lemma find_block_spec:
  assumes "heap_seg m p bl 0" "\<forall>x \<in> set bl. blk_ok x"
  shows "find_block m sz p = Some (case find (\<lambda>(b, z, fr). fr \<and> sz \<le> z) bl of None \<Rightarrow> 0 | Some (b, z, fr) \<Rightarrow> b)"
  using assms
proof (induction bl arbitrary: p)
  case Nil
  then show ?case by (simp add: find_block.simps)
next
  case (Cons x bl)
  obtain b z fr where "x = (b, z, fr)" by (cases x)
  with Cons show ?case by (subst find_block.simps) auto
qed

lemma heap_tail_spec:
  assumes "heap_seg m p bl 0" "\<forall>x \<in> set bl. blk_ok x" "bl \<noteq> []"
  shows "heap_tail m p = Some (fst (last bl))"
  using assms
proof (induction bl arbitrary: p)
  case (Cons x bl)
  obtain b z fr where x: "x = (b, z, fr)" by (cases x)
  show ?case
  proof (cases bl)
    case Nil
    with Cons.prems x show ?thesis by (simp add: heap_tail.simps)
  next
    case (Cons y ys)
    obtain c y1 y2 where y: "y = (c, y1, y2)" by (cases y)
    have nxt: "hb_next (block_at m p) = c" "c \<noteq> 0"
      using Cons.prems x y \<open>bl = y # ys\<close> by auto
    then have "heap_tail m p = heap_tail m c" by (subst heap_tail.simps) simp
    also have "\<dots> = Some (fst (last bl))"
      using Cons.IH [of c] Cons.prems x y nxt \<open>bl = y # ys\<close> by auto
    finally show ?thesis using \<open>bl = y # ys\<close> by simp
  qed
qed simp

lemma blocks_ok_append:
  "blocks_ok (xs @ ys) \<longleftrightarrow> blocks_ok xs \<and> blocks_ok ys \<and> (\<forall>x \<in> set xs. \<forall>y \<in> set ys. extent x \<inter> extent y = {})"
  by (auto simp: blocks_ok_def sorted_wrt_append)

lemma blocks_ok_single [simp]: "blocks_ok [x] = blk_ok x" "blocks_ok []"
  by (simp_all add: blocks_ok_def)

text \<open>Splitting a block: the two parts lie inside the old extent.\<close>

lemma carve_word_facts:
  assumes "blk_ok (b, z, fr)" "sz \<le> z" "16 dvd unat sz" "\<not> z - sz \<le> 64"
  shows "unat sz + 64 < unat z" "unat (b + 32 + sz) = unat b + 32 + unat sz"
    "unat (z - sz - 32) = unat z - unat sz - 32" "16 dvd unat (z - sz - 32)" "16 dvd unat (b + 32 + sz)"
proof -
  have le: "unat sz \<le> unat z" using assms(2) by (simp add: word_le_nat_alt)
  have zs: "unat (z - sz) = unat z - unat sz" using assms(2) by (rule unat_sub_exact)
  show gt: "unat sz + 64 < unat z" using assms(4) zs le by (simp add: word_le_nat_alt)
  have b: "unat b + 32 + unat z \<le> 2 ^ 63" using assms(1) by simp
  have "unat (b + 32) = unat b + 32" using b by (subst unat_add_exact) simp_all
  then show s: "unat (b + 32 + sz) = unat b + 32 + unat sz"
    using b gt by (subst unat_add_exact) simp_all
  show r: "unat (z - sz - 32) = unat z - unat sz - 32"
    using gt zs by (subst unat_sub_exact) (simp_all add: word_le_nat_alt)
  show "16 dvd unat (z - sz - 32)" unfolding r using assms(1,3) by (intro dvd_diff_nat) simp_all
  show "16 dvd unat (b + 32 + sz)" unfolding s using assms(1,3) by (intro dvd_add) simp_all
qed

lemma carve_ok:
  assumes "blk_ok (b, z, fr)" "sz \<le> z" "16 dvd unat sz"
  shows "blocks_ok (carve sz b z)" "\<forall>x \<in> set (carve sz b z). extent x \<subseteq> extent (b, z, fr)"
proof -
  show "blocks_ok (carve sz b z)"
  proof (cases "z - sz \<le> 64")
    case True
    with assms show ?thesis by (simp add: carve_def blocks_ok_def)
  next
    case False
    note f = carve_word_facts [OF assms False]
    have "blk_ok (b, sz, False)" using assms f(1) by simp
    moreover have "blk_ok (b + 32 + sz, z - sz - 32, True)"
      using assms(1) f by (auto simp: unat_eq_0 [symmetric] simp del: unat_eq_0)
    moreover have "extent (b, sz, False) \<inter> extent (b + 32 + sz, z - sz - 32, True) = {}"
      unfolding extent.simps f(2) by auto
    ultimately show ?thesis using False by (simp add: carve_def blocks_ok_def del: blk_ok.simps extent.simps)
  qed
  show "\<forall>x \<in> set (carve sz b z). extent x \<subseteq> extent (b, z, fr)"
  proof (cases "z - sz \<le> 64")
    case True
    then show ?thesis by (simp add: carve_def)
  next
    case False
    note f = carve_word_facts [OF assms False]
    have "extent (b, sz, False) \<subseteq> extent (b, z, fr)" unfolding extent.simps using f(1) by auto
    moreover have "extent (b + 32 + sz, z - sz - 32, True) \<subseteq> extent (b, z, fr)"
      unfolding extent.simps f(2,3) using f(1) by auto
    ultimately show ?thesis using False by (simp add: carve_def del: extent.simps)
  qed
qed

text \<open>The payload of a block is untouched by its header.\<close>

lemma split_block_frame:
  assumes "blk_ok (b, z, fr)" "sz \<le> z" "16 dvd unat sz" "hb_size (block_at m b) = z"
    and "unat x \<notin> extent (b, z, fr)"
  shows "set_free b 0 (split_block b sz m) x = m x"
proof -
  have room: "hdr_room b" and nx: "\<not> in_hdr b x"
    using assms(1,5) by (auto simp: hdr_room_def in_hdr_def)
  show ?thesis
  proof (cases "z - sz \<le> 64")
    case True
    then show ?thesis using room nx assms(4) by (simp add: split_block_def Let_def set_field_elsewhere)
  next
    case False
    note f = carve_word_facts [OF assms(1-3) False]
    have "hdr_room (b + 32 + sz)" "\<not> in_hdr (b + 32 + sz) x"
      using assms(1,5) f by (auto simp: hdr_room_def in_hdr_def)
    with False room nx assms(4) show ?thesis
      by (simp add: split_block_def Let_def set_field_elsewhere add.assoc)
  qed
qed

lemma block_at_set_other:
  assumes "hdr_room b" "hdr_room c" "unat b + 32 \<le> unat c \<or> unat c + 32 \<le> unat b"
  shows "block_at (set_magic c v m) b = block_at m b" "block_at (set_size c v m) b = block_at m b"
    "block_at (set_free c w m) b = block_at m b" "block_at (set_next c v m) b = block_at m b"
proof -
  have "\<not> in_hdr c x" if "in_hdr b x" for x using that assms(3) by (auto simp: in_hdr_def)
  then show "block_at (set_magic c v m) b = block_at m b" "block_at (set_size c v m) b = block_at m b"
    "block_at (set_free c w m) b = block_at m b" "block_at (set_next c v m) b = block_at m b"
    using assms(1,2) by (auto intro!: block_at_agree set_field_elsewhere)
qed

lemma split_block_seg:
  assumes "blk_ok (b, z, True)" "sz \<le> z" "16 dvd unat sz" "heap_seg m b [(b, z, True)] q"
  shows "heap_seg (set_free b 0 (split_block b sz m)) b (carve sz b z) q"
proof -
  have room: "hdr_room b" using assms(1) by (rule blk_ok_room)
  show ?thesis
  proof (cases "z - sz \<le> 64")
    case True
    then show ?thesis
      using assms(4) by (auto simp: split_block_def carve_def Let_def block_at_set [OF room])
  next
    case False
    note f = carve_word_facts [OF assms(1-3) False]
    let ?n = "b + 32 + sz"
    have n: "hdr_room ?n" "unat b + 32 \<le> unat ?n"
      using assms(1) f by (auto simp: hdr_room_def)
    note o = block_at_set_other [OF room n(1) disjI1 [OF n(2)]]
      block_at_set_other [OF n(1) room disjI2 [OF n(2)]]
    from assms(4) False show ?thesis
      by (simp add: split_block_def carve_def Let_def block_at_set [OF room] block_at_set [OF n(1)] o)
  qed
qed

lemma extents_apart:
  assumes "blocks_ok (pre @ x # post)"
  shows "\<forall>y \<in> set pre \<union> set post. blk_ok y \<and> extent y \<inter> extent x = {}" "blk_ok x"
  using assms unfolding blocks_ok_def sorted_wrt_append by (auto simp: Int_commute)

lemma blocks_ok_replace:
  assumes "blocks_ok (pre @ x # post)" "blocks_ok ys" "\<forall>y \<in> set ys. extent y \<subseteq> extent x"
  shows "blocks_ok (pre @ ys @ post)"
proof -
  have "\<forall>p \<in> set pre \<union> set post. \<forall>y \<in> set ys. extent p \<inter> extent y = {}"
    using extents_apart(1) [OF assms(1)] assms(3) by blast
  moreover have "blocks_ok pre" "blocks_ok post" "\<forall>p \<in> set pre. \<forall>q \<in> set post. extent p \<inter> extent q = {}"
    using assms(1) by (auto simp: blocks_ok_def sorted_wrt_append)
  ultimately show ?thesis
    using assms(2) by (simp add: blocks_ok_append ball_Un) blast
qed

text \<open>Carving the block \<open>b\<close> out of a list.\<close>

lemma carve_in_list:
  assumes "heap_seg m p (pre @ (b, z, True) # post) 0" "blocks_ok (pre @ (b, z, True) # post)"
    and "sz \<le> z" "16 dvd unat sz"
  defines "m' \<equiv> set_free b 0 (split_block b sz m)"
  shows "heap_seg m' p (pre @ carve sz b z @ post) 0" "blocks_ok (pre @ carve sz b z @ post)"
    "\<And>a. unat a \<notin> extent (b, z, True) \<Longrightarrow> m' a = m a"
proof -
  note apart = extents_apart [OF assms(2)]
  from assms(1) have b: "heap_seg m p pre b" "heap_seg m b [(b, z, True)] (hb_next (block_at m b))"
    and post: "heap_seg m (hb_next (block_at m b)) post 0"
    by (auto simp: heap_seg_append)
  show frame: "\<And>a. unat a \<notin> extent (b, z, True) \<Longrightarrow> m' a = m a"
    unfolding m'_def using assms(3,4) apart(2) b(2) by (intro split_block_frame) auto
  have "heap_seg m' p pre b" "heap_seg m' (hb_next (block_at m b)) post 0"
    using apart(1) frame
    by (auto intro: heap_seg_frame [OF b(1), where A = "extent (b, z, True)"]
        heap_seg_frame [OF post, where A = "extent (b, z, True)"] simp del: extent.simps)
  moreover have "heap_seg m' b (carve sz b z) (hb_next (block_at m b))"
    unfolding m'_def by (rule split_block_seg [OF apart(2) assms(3,4) b(2)])
  ultimately show "heap_seg m' p (pre @ carve sz b z @ post) 0"
    by (auto simp: heap_seg_append)
  show "blocks_ok (pre @ carve sz b z @ post)"
    using carve_ok [OF apart(2) assms(3,4)] by (intro blocks_ok_replace [OF assms(2)])
qed

text \<open>Appending a block: the last header gets its address.\<close>

lemma heap_seg_relink:
  assumes "heap_seg m p (bl @ [(t, z, fr)]) q" "blocks_ok (bl @ [(t, z, fr)])"
  shows "heap_seg (set_next t r m) p (bl @ [(t, z, fr)]) r"
    "\<And>a. unat a \<notin> extent (t, z, fr) \<Longrightarrow> set_next t r m a = m a"
proof -
  note apart = extents_apart [of bl "(t, z, fr)" "[]", OF assms(2)]
  have room: "hdr_room t" using apart(2) by (rule blk_ok_room)
  show frame: "\<And>a. unat a \<notin> extent (t, z, fr) \<Longrightarrow> set_next t r m a = m a"
    using in_hdr_extent by (intro set_field_elsewhere [OF room]) blast
  from assms(1) have "heap_seg m p bl t" by (auto simp: heap_seg_append)
  then have "heap_seg (set_next t r m) p bl t"
    using apart(1) frame
    by (auto intro: heap_seg_frame [where A = "extent (t, z, fr)"] simp del: extent.simps)
  with assms(1) show "heap_seg (set_next t r m) p (bl @ [(t, z, fr)]) r"
    by (auto simp: heap_seg_append block_at_set [OF room])
qed

lemma request_sizes:
  assumes "unat sz \<le> 2 ^ 43"
  defines "ttl \<equiv> align_up (sizeof_HeapBlock + sz) PAGE_SIZE"
  shows "unat ttl = unat (ucast (ttl div PAGE_SIZE) :: u32) * 4096"
    "(ucast (ttl div PAGE_SIZE) :: u32) \<noteq> 0" "unat (ttl - 32) = unat ttl - 32" "32 + unat sz \<le> unat ttl"
    "unat ttl < 2 ^ 44"
proof -
  have "unat (32 + sz) = 32 + unat sz" using assms(1) by (subst unat_add_exact) simp_all
  then have t: "unat ttl = (32 + unat sz + 4095) div 4096 * 4096"
    unfolding ttl_def using assms(1) by (subst unat_align_up) simp_all
  have "(32 + unat sz + 4095) div 4096 \<le> (32 + 2 ^ 43 + 4095) div 4096"
    using assms(1) by (intro div_le_mono) linarith
  then have k: "(32 + unat sz + 4095) div 4096 < 2 ^ 32" by simp
  have "unat (ttl div PAGE_SIZE) = (32 + unat sz + 4095) div 4096"
    by (simp add: unat_div_distrib t)
  then have p: "unat (ucast (ttl div PAGE_SIZE) :: u32) = (32 + unat sz + 4095) div 4096"
    using k by (simp add: unsigned_ucast_eq take_bit_nat_eq_self)
  show "unat ttl = unat (ucast (ttl div PAGE_SIZE) :: u32) * 4096" unfolding p t ..
  have "0 < (32 + unat sz + 4095) div 4096" by simp
  then show "(ucast (ttl div PAGE_SIZE) :: u32) \<noteq> 0" using p by (metis less_irrefl unat_0)
  show ge: "32 + unat sz \<le> unat ttl" unfolding t by linarith
  show "unat (ttl - 32) = unat ttl - 32"
    using ge by (subst unat_sub_exact) (simp_all add: word_le_nat_alt)
  have "unat ttl \<le> 32 + unat sz + 4095" unfolding t by linarith
  then show "unat ttl < 2 ^ 44" using assms(1) by simp
qed

lemma block_extent_frames:
  assumes "unat p = st * 4096" "n = unat count * 4096"
  shows "a \<in> {unat p..<unat p + n} \<longleftrightarrow> a div 4096 \<in> frames_of p count"
proof -
  have "frames_of p count = {st..<st + unat count}"
    using assms(1) by (simp add: frames_of_def unat_div_distrib)
  then show ?thesis using assms by auto
qed

lemma heap_okD:
  assumes "heap_ok s bl"
  shows "pmm_ok s" "heap_seg (mem s) (heap_head s) bl 0" "blocks_ok bl"
    "\<And>x a. x \<in> set bl \<Longrightarrow> a \<in> extent x \<Longrightarrow> a div 4096 \<notin> free_frames s"
  using assms unfolding heap_ok_def by blast+

lemma blocks_okD: "blocks_ok bl \<Longrightarrow> x \<in> set bl \<Longrightarrow> blk_ok x"
  by (simp add: blocks_ok_def)

lemma blocks_ok_room: "blocks_ok bl \<Longrightarrow> (b, z, fr) \<in> set bl \<Longrightarrow> hdr_room b"
  using blocks_okD blk_ok_room by blast

lemma fresh_block_seg:
  assumes "hdr_room p"
  shows "heap_seg (fresh_block m p z) p [(p, z, True)] 0"
    "\<And>a. \<not> in_hdr p a \<Longrightarrow> fresh_block m p z a = m a"
  using assms by (simp_all add: fresh_block_def block_at_set set_field_elsewhere)

lemma last_extent_hdr:
  assumes "blocks_ok bl" "bl \<noteq> []"
  obtains pre t z fr where "bl = pre @ [(t, z, fr)]" "hdr_room t"
proof -
  obtain pre x where bl: "bl = pre @ [x]" using assms(2) by (metis rev_exhaust)
  obtain t z fr where x: "x = (t, z, fr)" by (cases x)
  have "hdr_room t" using blocks_okD [OF assms(1), of x] bl x by (auto intro: blk_ok_room)
  with bl x show ?thesis by (intro that) simp_all
qed

lemma append_block_cases:
  assumes seg: "heap_seg m head bl 0" and ok: "blocks_ok (bl @ [(p, z, True)])"
  obtains (first) "bl = []" "head = 0" "append_block m head p z = (p, fresh_block m p z)"
  | (later) pre t y fr where "bl = pre @ [(t, y, fr)]" "head \<noteq> 0" "heap_tail (fresh_block m p z) head = Some t"
      "heap_seg (fresh_block m p z) head bl 0" "append_block m head p z = (head, set_next t p (fresh_block m p z))"
proof -
  let ?m = "fresh_block m p z"
  have okbl: "blocks_ok bl" and pok: "blk_ok (p, z, True)"
    and apart: "\<forall>x \<in> set bl. blk_ok x \<and> extent x \<inter> extent (p, z, True) = {}"
    using ok by (auto simp: blocks_ok_def sorted_wrt_append simp del: extent.simps blk_ok.simps)
  have frame: "\<And>a. unat a \<notin> extent (p, z, True) \<Longrightarrow> ?m a = m a"
    using in_hdr_extent by (intro fresh_block_seg(2) [OF blk_ok_room [OF pok]]) blast
  have seg': "heap_seg ?m head bl 0"
    using apart frame by (auto intro: heap_seg_frame [OF seg, where A = "extent (p, z, True)"] simp del: extent.simps)
  show ?thesis
  proof (cases "bl = []")
    case True
    with seg show ?thesis by (intro first) (simp_all add: append_block_def)
  next
    case False
    then obtain pre t y fr where bl: "bl = pre @ [(t, y, fr)]"
      by (elim last_extent_hdr [OF okbl])
    obtain b y' fr' bl' where "bl = (b, y', fr') # bl'" using False by (cases bl) auto
    then have "head \<noteq> 0" using seg blocks_okD [OF okbl, of "(b, y', fr')"] by auto
    moreover have "heap_tail ?m head = Some t"
      using heap_tail_spec [OF seg' _ False] okbl bl by (simp add: blocks_ok_def)
    ultimately show ?thesis using bl seg' by (intro later) (simp_all add: append_block_def)
  qed
qed

lemma append_block_seg:
  assumes seg: "heap_seg m head bl 0" and ok: "blocks_ok (bl @ [(p, z, True)])"
  shows "heap_seg (snd (append_block m head p z)) (fst (append_block m head p z)) (bl @ [(p, z, True)]) 0"
  using assms
proof (cases rule: append_block_cases)
  case first
  have "hdr_room p" by (rule blocks_ok_room [OF ok, of p z True]) simp
  with first show ?thesis using fresh_block_seg(1) by simp
next
  case (later pre t y fr)
  have pok: "blk_ok (p, z, True)" and okbl: "blocks_ok (pre @ [(t, y, fr)])"
    and apart: "extent (p, z, True) \<inter> extent (t, y, fr) = {}"
    using ok extents_apart [of bl "(p, z, True)" "[]"] unfolding later(1)
    by (auto simp: blocks_ok_append Int_commute simp del: extent.simps blk_ok.simps)
  note re = heap_seg_relink [OF later(4) [unfolded later(1)] okbl, where r = p]
  have "\<forall>x \<in> set [(p, z, True)]. blk_ok x \<and> extent x \<inter> extent (t, y, fr) = {}"
    using apart pok by (simp del: extent.simps blk_ok.simps)
  then have "heap_seg (set_next t p (fresh_block m p z)) p [(p, z, True)] 0"
    by (rule heap_seg_frame [OF fresh_block_seg(1) [OF blk_ok_room [OF pok]]]) (rule re(2))
  with re(1) show ?thesis unfolding later(5) later(1) heap_seg_append by auto
qed

lemma append_block_frame:
  assumes seg: "heap_seg m head bl 0" and ok: "blocks_ok (bl @ [(p, z, True)])"
    and "\<not> in_hdr p a" "\<forall>(b, y, fr) \<in> set bl. \<not> in_hdr b a"
  shows "snd (append_block m head p z) a = m a"
  using seg ok
proof (cases rule: append_block_cases)
  case first
  have "hdr_room p" by (rule blocks_ok_room [OF ok, of p z True]) simp
  with first assms(3) show ?thesis by (simp add: fresh_block_seg(2))
next
  case (later pre t y fr)
  have "hdr_room p" "hdr_room t"
    using blocks_ok_room [OF ok, of p z True] blocks_ok_room [OF ok, of t y fr] later(1) by simp_all
  moreover have "\<not> in_hdr t a" using assms(4) later(1) by auto
  ultimately show ?thesis
    using assms(3) unfolding later(5) by (simp add: set_field_elsewhere fresh_block_seg(2))
qed

lemma request_block_eq:
  assumes "request_block sz s = r"
    and "pmm_alloc_pages (ucast (align_up (sizeof_HeapBlock + sz) PAGE_SIZE div PAGE_SIZE)) s = (p, s1)"
    and "p \<noteq> 0" "heap_seg (mem s1) (heap_head s1) bl 0"
    and "blocks_ok (bl @ [(p, align_up (sizeof_HeapBlock + sz) PAGE_SIZE - 32, True)])"
  defines "ab \<equiv> append_block (mem s1) (heap_head s1) p (align_up (sizeof_HeapBlock + sz) PAGE_SIZE - 32)"
  shows "r = Inr (p, s1\<lparr>mem := snd ab, heap_head := fst ab\<rparr>)"
  using assms(4,5)
proof (cases rule: append_block_cases)
  case first
  then show ?thesis
    using assms(1-3) by (simp add: request_block_def Let_def fresh_block_def [symmetric] ab_def)
next
  case (later pre t y fr)
  then show ?thesis
    using assms(1-3) by (simp add: request_block_def Let_def fresh_block_def [symmetric] ab_def)
qed

lemma new_block_ok:
  assumes hok: "heap_ok s bl" and sz: "unat sz \<le> 2 ^ 43"
  defines "ttl \<equiv> align_up (sizeof_HeapBlock + sz) PAGE_SIZE"
  defines "pages \<equiv> (ucast (ttl div PAGE_SIZE) :: u32)"
  assumes alloc: "pmm_alloc_pages pages s = (p, s1)" "p \<noteq> 0"
  shows "heap_seg (mem s1) (heap_head s1) bl 0" "blocks_ok (bl @ [(p, ttl - 32, True)])" "sz \<le> ttl - 32"
    "\<And>a. a \<in> extent (p, ttl - 32, True) \<longleftrightarrow> a div 4096 \<in> frames_of p pages"
    "\<And>a. unat a \<notin> extent (p, ttl - 32, True) \<Longrightarrow> mem s1 a = mem s a"
proof -
  note ok = heap_okD [OF hok]
  note rs = request_sizes [OF sz, folded ttl_def, folded pages_def]
  from alloc(1) pmm_ok_total [OF ok(1)] obtain st where st: "unat p = st * 4096"
    and fit: "fits s st (unat pages)" and s1: "s1 = alloc_result s pages p"
    by (cases rule: pmm_alloc_pages_cases) (use alloc(2) in auto)
  have ext: "extent (p, ttl - 32, True) = {unat p..<unat p + unat ttl}"
    using rs(3,4) by simp
  show fr: "\<And>a. a \<in> extent (p, ttl - 32, True) \<longleftrightarrow> a div 4096 \<in> frames_of p pages"
    unfolding ext by (rule block_extent_frames [OF st rs(1)])
  show mem: "\<And>a. unat a \<notin> extent (p, ttl - 32, True) \<Longrightarrow> mem s1 a = mem s a"
    unfolding s1 alloc_result_mem [OF st fit pmm_ok_total [OF ok(1)]] fr by simp
  have "frames_of p pages \<subseteq> free_frames s" using alloc_takes_frames [OF ok(1) alloc] by blast
  then have apart: "extent x \<inter> extent (p, ttl - 32, True) = {}" if "x \<in> set bl" for x
    using ok(4) [OF that] fr by blast
  have "heap_head s1 = heap_head s" using alloc(1) by (auto elim!: pmm_alloc_pages_update)
  moreover have "\<forall>x \<in> set bl. blk_ok x \<and> extent x \<inter> extent (p, ttl - 32, True) = {}"
    using apart blocks_okD [OF ok(3)] by blast
  then have "heap_seg (mem s1) (heap_head s) bl 0"
    by (rule heap_seg_frame [OF ok(2)]) (rule mem)
  ultimately show "heap_seg (mem s1) (heap_head s1) bl 0" by simp
  have "(st + unat pages) * 4096 \<le> 2 ^ 40 * 4096"
    using fit pmm_ok_total40 [OF ok(1)] unfolding fits_def by (intro mult_le_mono1) linarith
  then have "unat p + unat ttl \<le> 2 ^ 52" using st rs(1) by simp
  moreover have "16 dvd unat p" "16 dvd unat (ttl - 32)"
    unfolding st rs(3) rs(1) by (simp_all add: dvd_mult dvd_diff_nat)
  ultimately have "blk_ok (p, ttl - 32, True)" using alloc(2) rs(3,4) by simp
  then show "blocks_ok (bl @ [(p, ttl - 32, True)])"
    using ok(3) apart by (simp add: blocks_ok_append del: extent.simps blk_ok.simps)
  show "sz \<le> ttl - 32" using rs by (simp add: word_le_nat_alt)
qed

lemma extents_disjoint:
  assumes "blocks_ok bl" "x \<in> set bl" "y \<in> set bl" "x \<noteq> y"
  shows "extent x \<inter> extent y = {}"
  using sorted_wrt_pairwise [OF _ assms(2,3), of "\<lambda>x y. extent x \<inter> extent y = {}"] assms(1,4)
  unfolding blocks_ok_def by blast

lemma payload_not_hdr:
  assumes "blocks_ok bl" "x \<in> set bl" "(b, z, fr) \<in> set bl" "unat a \<in> payload x"
  shows "\<not> in_hdr b a"
proof
  assume "in_hdr b a"
  then have "unat a \<in> extent (b, z, fr)" by (rule in_hdr_extent)
  moreover have "unat a \<in> extent x" using assms(4) by (cases x) auto
  moreover have "x = (b, z, fr) \<or> extent x \<inter> extent (b, z, fr) = {}"
    using extents_disjoint [OF assms(1-3)] by blast
  ultimately have "x = (b, z, fr)" by blast
  with assms(4) \<open>in_hdr b a\<close> show False by (simp add: in_hdr_def)
qed

text \<open>The outcome of \<open>request_block\<close>.\<close>

lemma request_block_spec:
  assumes hok: "heap_ok s bl" and sz: "unat sz \<le> 2 ^ 43"
  defines "ttl \<equiv> align_up (sizeof_HeapBlock + sz) PAGE_SIZE"
  obtains (none) "request_block sz s = Inr (0, s)" "\<forall>q. \<not> fits s q (unat (ucast (ttl div PAGE_SIZE) :: u32))"
  | (new) p s' where "request_block sz s = Inr (p, s')" "p \<noteq> 0" "heap_ok s' (bl @ [(p, ttl - 32, True)])"
      "sz \<le> ttl - 32" "keeps_data bl (mem s) (mem s')" "free_frames s' \<subseteq> free_frames s"
      "extent (p, ttl - 32, True) \<subseteq> {a. a div 4096 \<in> free_frames s}"
proof -
  define pages where "pages = (ucast (ttl div PAGE_SIZE) :: u32)"
  note ok = heap_okD [OF hok]
  note rs = request_sizes [OF sz, folded ttl_def, folded pages_def]
  obtain p s1 where alloc: "pmm_alloc_pages pages s = (p, s1)" by force
  show ?thesis
  proof (cases "p = 0")
    case True
    with alloc have "s1 = s" "\<forall>q. \<not> fits s q (unat pages)"
      using rs(2) pmm_ok_total [OF ok(1)] by (auto elim!: pmm_alloc_pages_cases)
    with alloc True show ?thesis
      by (intro none) (simp_all add: request_block_def Let_def ttl_def pages_def)
  next
    case False
    define ab where "ab = append_block (mem s1) (heap_head s1) p (ttl - 32)"
    note nb = new_block_ok [OF hok sz, folded ttl_def, folded pages_def, OF alloc False]
    have req: "request_block sz s = Inr (p, s1\<lparr>mem := snd ab, heap_head := fst ab\<rparr>)"
      unfolding ab_def ttl_def
      by (rule request_block_eq [OF refl _ False nb(1) nb(2) [unfolded ttl_def]])
        (use alloc in \<open>simp add: pages_def ttl_def\<close>)
    have taken: "frames_of p pages \<subseteq> free_frames s" "free_frames s1 = free_frames s - frames_of p pages"
      using alloc_takes_frames [OF ok(1) alloc False] by simp_all
    have "heap_ok (s1\<lparr>mem := snd ab, heap_head := fst ab\<rparr>) (bl @ [(p, ttl - 32, True)])"
    proof -
      have "pmm_ok s1" by (rule pmm_alloc_pages_ok [OF ok(1) alloc])
      moreover have "heap_seg (snd ab) (fst ab) (bl @ [(p, ttl - 32, True)]) 0"
        unfolding ab_def by (rule append_block_seg [OF nb(1,2)])
      moreover have "a div 4096 \<notin> free_frames s1" if "x \<in> set (bl @ [(p, ttl - 32, True)])" "a \<in> extent x" for x a
      proof (cases "x \<in> set bl")
        case True
        with that(2) ok(4) taken(2) show ?thesis by blast
      next
        case False
        with that have "a \<in> extent (p, ttl - 32, True)" by simp
        then show ?thesis unfolding nb(4) taken(2) by blast
      qed
      ultimately show ?thesis using nb(2) by (auto simp: heap_ok_def pmm_ok_def free_frames_def bitmap_test_def)
    qed
    moreover have "keeps_data bl (mem s) (mem (s1\<lparr>mem := snd ab, heap_head := fst ab\<rparr>))"
      unfolding keeps_data_def
    proof (intro ballI allI impI)
      fix x and a :: u64 assume x: "x \<in> set bl" "unat a \<in> payload x"
      have "\<not> in_hdr b a" if "(b, y, fr) \<in> set (bl @ [(p, ttl - 32, True)])" for b y fr
        by (rule payload_not_hdr [OF nb(2) _ that x(2)]) (use x(1) in simp)
      then have "snd ab a = mem s1 a"
        unfolding ab_def by (intro append_block_frame [OF nb(1,2)]) auto
      moreover have "unat a \<in> extent x" using x(2) by (cases x) auto
      then have "unat a \<notin> extent (p, ttl - 32, True)"
        using ok(4) [OF x(1)] nb(4) taken(1) by blast
      ultimately show "mem (s1\<lparr>mem := snd ab, heap_head := fst ab\<rparr>) a = mem s a" using nb(5) by simp
    qed
    moreover have "free_frames (s1\<lparr>mem := snd ab, heap_head := fst ab\<rparr>) \<subseteq> free_frames s"
      using taken(2) by (auto simp: free_frames_def bitmap_test_def)
    moreover have "extent (p, ttl - 32, True) \<subseteq> {a. a div 4096 \<in> free_frames s}"
      using nb(4) taken(1) by blast
    ultimately show ?thesis
      using req False nb(3) by (intro new) assumption+
  qed
qed

lemma live_append [simp]: "live (xs @ ys) = live xs @ live ys" and live_Nil [simp]: "live [] = []"
  and live_Cons [simp]: "live ((b, z, fr) # xs) = (if fr then live xs else (b, z, fr) # live xs)"
  by (simp_all add: live_def)

lemma live_carve: "live (carve sz b z) = [(b, if z - sz \<le> 64 then z else sz, False)]"
  by (simp add: carve_def)

lemma keeps_data_trans: "keeps_data bl m m' \<Longrightarrow> keeps_data bl m' m'' \<Longrightarrow> keeps_data bl m m''"
  by (simp add: keeps_data_def)

lemma keeps_data_mono: "keeps_data bl m m' \<Longrightarrow> set bl' \<subseteq> set bl \<Longrightarrow> keeps_data bl' m m'"
  by (auto simp: keeps_data_def)

lemma set_live: "set (live bl) \<subseteq> set bl"
  by (auto simp: live_def)

text \<open>Taking a free block of the list.\<close>

lemma take_block:
  assumes hok: "heap_ok s (pre @ (b, z, True) # post)" and sz: "sz \<le> z" "16 dvd unat sz"
  defines "s' \<equiv> s\<lparr>mem := set_free b 0 (split_block b sz (mem s))\<rparr>"
  shows "heap_ok s' (pre @ carve sz b z @ post)" "keeps_data (live (pre @ (b, z, True) # post)) (mem s) (mem s')"
proof -
  note ok = heap_okD [OF hok]
  note c = carve_in_list [OF ok(2,3) sz]
  note apart = extents_apart [OF ok(3)]
  have "a div 4096 \<notin> free_frames s" if "x \<in> set (pre @ carve sz b z @ post)" "a \<in> extent x" for x a
  proof (cases "x \<in> set (carve sz b z)")
    case True
    with that carve_ok(2) [OF apart(2) sz] have "a \<in> extent (b, z, True)" by blast
    then show ?thesis by (intro ok(4) [of "(b, z, True)"]) simp_all
  next
    case False
    with that show ?thesis using ok(4) [of x a] by auto
  qed
  then show "heap_ok s' (pre @ carve sz b z @ post)"
    using c(1,2) ok(1) unfolding heap_ok_def s'_def
    by (simp add: pmm_ok_def free_frames_def bitmap_test_def)
  show "keeps_data (live (pre @ (b, z, True) # post)) (mem s) (mem s')"
    unfolding keeps_data_def
  proof (intro ballI allI impI)
    fix x and a :: u64 assume x: "x \<in> set (live (pre @ (b, z, True) # post))" "unat a \<in> payload x"
    then have "x \<in> set pre \<union> set post" using set_live [of pre] set_live [of post] by auto
    moreover have "unat a \<in> extent x" using x(2) by (cases x) auto
    ultimately have "unat a \<notin> extent (b, z, True)" using apart(1) by blast
    from c(3) [OF this] show "mem s' a = mem s a" by (simp add: s'_def)
  qed
qed

lemma kmalloc_spec:
  assumes hok: "heap_ok s bl" and sz: "size0 \<noteq> 0" "unat (align_up size0 16) \<le> 2 ^ 43"
  defines "sz \<equiv> align_up size0 16"
  defines "ttl \<equiv> align_up (sizeof_HeapBlock + sz) PAGE_SIZE"
  obtains (none) "kmalloc size0 s = Inr (0, s)" "\<forall>x \<in> set bl. \<not> fits_blk sz x"
      "\<forall>q. \<not> fits s q (unat (ucast (ttl div PAGE_SIZE) :: u32))"
  | (reuse) pre b z post s' where "bl = pre @ (b, z, True) # post" "sz \<le> z" "\<forall>x \<in> set pre. \<not> fits_blk sz x"
      "kmalloc size0 s = Inr (b + 32, s')" "heap_ok s' (pre @ carve sz b z @ post)"
      "keeps_data (live bl) (mem s) (mem s')" "free_frames s' = free_frames s"
  | (fresh) p s' where "\<forall>x \<in> set bl. \<not> fits_blk sz x" "sz \<le> ttl - 32" "p \<noteq> 0"
      "extent (p, ttl - 32, True) \<subseteq> {a. a div 4096 \<in> free_frames s}"
      "kmalloc size0 s = Inr (p + 32, s')" "heap_ok s' (bl @ carve sz p (ttl - 32))"
      "keeps_data (live bl) (mem s) (mem s')" "free_frames s' \<subseteq> free_frames s"
proof -
  note out_of_memory = none
  note ok = heap_okD [OF hok]
  have al: "16 dvd unat sz" unfolding sz_def by (rule align_up_16_dvd)
  have b43: "unat sz \<le> 2 ^ 43" using sz(2) by (simp add: sz_def)
  have "\<forall>x \<in> set bl. blk_ok x" using ok(3) by (simp add: blocks_ok_def)
  note fb = find_block_spec [OF ok(2) this, of sz]
  show ?thesis
  proof (cases "find (\<lambda>(b, z, fr). fr \<and> sz \<le> z) bl")
    case None
    then have nofit: "\<forall>x \<in> set bl. \<not> fits_blk sz x" by (auto simp: find_None_iff fits_blk_def)
    have k: "kmalloc size0 s = kbind (request_block sz s) (\<lambda>(block, s1). if block = 0 then Inr (0, s1)
           else Inr (block + sizeof_HeapBlock, s1\<lparr>mem := set_free block 0 (split_block block sz (mem s1))\<rparr>))"
      using sz(1) fb None by (simp add: kmalloc_def Let_def flip: sz_def)
    from hok b43 show ?thesis
    proof (cases rule: request_block_spec)
      case none
      then show ?thesis using k nofit by (intro out_of_memory) (simp_all add: ttl_def)
    next
      case (new p s1)
      note tb = take_block [OF new(3) new(4) al]
      show ?thesis
      proof (rule fresh [of p "s1\<lparr>mem := set_free p 0 (split_block p sz (mem s1))\<rparr>"])
        show "heap_ok (s1\<lparr>mem := set_free p 0 (split_block p sz (mem s1))\<rparr>) (bl @ carve sz p (ttl - 32))"
          using tb(1) by (simp add: ttl_def)
        show "keeps_data (live bl) (mem s) (mem (s1\<lparr>mem := set_free p 0 (split_block p sz (mem s1))\<rparr>))"
          using tb(2) keeps_data_mono [OF new(5) set_live] by (auto intro: keeps_data_trans)
      qed (use new k nofit in \<open>simp_all add: ttl_def free_frames_def bitmap_test_def\<close>)
    qed
  next
    case (Some x)
    then obtain pre post b z where bl: "bl = pre @ (b, z, True) # post" and pre: "\<forall>y \<in> set pre. \<not> fits_blk sz y"
      and le: "sz \<le> z" and x: "x = (b, z, True)"
      by (elim find_split) (auto simp: fits_blk_def)
    have "b \<noteq> 0" using blocks_okD [OF ok(3), of "(b, z, True)"] bl by simp
    then have k: "kmalloc size0 s = Inr (b + 32, s\<lparr>mem := set_free b 0 (split_block b sz (mem s))\<rparr>)"
      using sz(1) fb Some x by (simp add: kmalloc_def Let_def flip: sz_def)
    from take_block [OF hok [unfolded bl] le al] show ?thesis
      by (intro reuse [OF bl le pre k]) (simp_all add: bl)
  qed
qed

subsection \<open>Releasing\<close>

lemma hdrs_apart:
  assumes "blocks_ok bl" "(b, z, fr) \<in> set bl" "(c, y, fr') \<in> set bl" "b \<noteq> c"
  shows "unat b + 32 \<le> unat c \<or> unat c + 32 \<le> unat b"
proof (rule ccontr)
  assume "\<not> ?thesis"
  then have "max (unat b) (unat c) \<in> extent (b, z, fr) \<inter> extent (c, y, fr')" by auto
  moreover have "extent (b, z, fr) \<inter> extent (c, y, fr') = {}"
    using extents_disjoint [OF assms(1-3)] assms(4) by blast
  ultimately show False by blast
qed

lemma blocks_ok_mark: "blocks_ok (mark_free b bl) = blocks_ok bl"
proof -
  have "extent (case x of (c, z, fr) \<Rightarrow> (c, z, fr \<or> c = b)) = extent x"
    "blk_ok (case x of (c, z, fr) \<Rightarrow> (c, z, fr \<or> c = b)) = blk_ok x" for x :: blk
    by (cases x; simp)+
  then show ?thesis by (simp add: blocks_ok_def mark_free_def sorted_wrt_map)
qed

lemma heap_seg_mark:
  assumes "heap_seg m p bl q" "hdr_room b"
    and "\<forall>(c, z, fr) \<in> set bl. hdr_room c \<and> (c = b \<or> unat b + 32 \<le> unat c \<or> unat c + 32 \<le> unat b)"
  shows "heap_seg (set_free b 1 m) p (mark_free b bl) q"
  using assms
proof (induction bl arbitrary: p)
  case (Cons x bl)
  obtain c z fr where x: "x = (c, z, fr)" by (cases x)
  have IH: "heap_seg (set_free b 1 m) r (mark_free b bl) q" if "heap_seg m r bl q" for r
    using Cons.IH [OF that] Cons.prems by simp
  show ?case
  proof (cases "c = b")
    case True
    with Cons.prems(1) x show ?thesis
      by (auto simp: mark_free_def block_at_set [OF Cons.prems(2)] intro: IH [unfolded mark_free_def])
  next
    case False
    with Cons.prems(3) x have "block_at (set_free b 1 m) c = block_at m c"
      by (intro block_at_set_other(3)) (use Cons.prems(2) in auto)
    with Cons.prems(1) x False show ?thesis
      by (auto simp: mark_free_def intro: IH [unfolded mark_free_def])
  qed
qed (simp add: mark_free_def)

lemma coal_word_facts:
  assumes "blk_ok (b, z, fr)" "blk_ok (c, y, fr')" "b + 32 + z = c"
  shows "unat c = unat b + 32 + unat z" "unat (z + (32 + y)) = unat z + 32 + unat y"
    "blk_ok (b, z + (32 + y), True)" "extent (b, z + (32 + y), True) = extent (b, z, fr) \<union> extent (c, y, fr')"
proof -
  have b: "unat b + 32 + unat z \<le> 2 ^ 63" and c: "unat c + 32 + unat y \<le> 2 ^ 63" using assms(1,2) by simp_all
  have "unat (b + 32) = unat b + 32" using b by (subst unat_add_exact) simp_all
  then have "unat (b + 32 + z) = unat b + 32 + unat z" using b by (subst unat_add_exact) simp_all
  then show uc: "unat c = unat b + 32 + unat z" using assms(3) by simp
  have "unat (32 + y) = 32 + unat y" using c by (subst unat_add_exact) simp_all
  then show uz: "unat (z + (32 + y)) = unat z + 32 + unat y" using b c uc by (subst unat_add_exact) simp_all
  show "blk_ok (b, z + (32 + y), True)"
    using assms(1,2) c uc uz by (simp add: dvd_add)
  show "extent (b, z + (32 + y), True) = extent (b, z, fr) \<union> extent (c, y, fr')"
    unfolding extent.simps uz uc by auto
qed

lemma blocks_ok_Cons:
  "blocks_ok (x # bl) \<longleftrightarrow> blk_ok x \<and> blocks_ok bl \<and> extent x \<inter> (\<Union>y \<in> set bl. extent y) = {}"
  by (auto simp: blocks_ok_def simp del: extent.simps blk_ok.simps)

lemma blocks_ok_coal:
  "blocks_ok bl \<Longrightarrow> blocks_ok (coal bl) \<and> (\<Union>x \<in> set (coal bl). extent x) = (\<Union>x \<in> set bl. extent x)"
proof (induction bl rule: coal.induct)
  case (3 b z fr c y fr' bl)
  show ?case
  proof (cases "fr \<and> fr' \<and> b + 32 + z = c")
    case True
    have ok: "blk_ok (b, z, fr)" "blk_ok (c, y, fr')" "blocks_ok bl"
      and dis: "(extent (b, z, fr) \<union> extent (c, y, fr')) \<inter> (\<Union>x \<in> set bl. extent x) = {}"
      using "3.prems" by (auto simp: blocks_ok_Cons simp del: extent.simps blk_ok.simps)
    have "b + 32 + z = c" using True by simp
    note cw = coal_word_facts [OF ok(1,2) this]
    note IH = "3.IH"(1) [OF True ok(3)]
    show ?thesis
      using True IH cw(3) dis by (simp add: blocks_ok_Cons cw(4) Un_assoc del: extent.simps blk_ok.simps)
  next
    case False
    have ok: "blocks_ok ((c, y, fr') # bl)" "blk_ok (b, z, fr)"
      and dis: "extent (b, z, fr) \<inter> (\<Union>x \<in> set ((c, y, fr') # bl). extent x) = {}"
      using "3.prems" unfolding blocks_ok_Cons by blast+
    note IH = "3.IH"(2) [OF False ok(1)]
    have eq: "coal ((b, z, fr) # (c, y, fr') # bl) = (b, z, fr) # coal ((c, y, fr') # bl)"
      using False by auto
    show ?thesis
      unfolding eq blocks_ok_Cons [of "(b, z, fr)"] using IH ok(2) dis by simp
  qed
qed simp_all

lemma two_blocks:
  assumes ok: "blocks_ok ((b, z, fr) # (c, y, fr') # bl)"
  shows "b \<noteq> 0" "c \<noteq> 0" "hdr_room b" "hdr_room c" "blocks_ok bl" "blocks_ok ((c, y, fr') # bl)"
    "unat b + 32 \<le> unat c \<or> unat c + 32 \<le> unat b"
    "\<And>a d w g. in_hdr b a \<Longrightarrow> (d, w, g) \<in> set ((c, y, fr') # bl) \<Longrightarrow> \<not> in_hdr d a"
proof -
  show "b \<noteq> 0" "c \<noteq> 0" using ok by (auto simp: blocks_ok_def)
  show "hdr_room b" "hdr_room c" using blocks_ok_room [OF ok] by auto
  show "blocks_ok bl" "blocks_ok ((c, y, fr') # bl)"
    using ok by (auto simp: blocks_ok_Cons simp del: extent.simps blk_ok.simps)
  have dis: "extent (b, z, fr) \<inter> extent x = {}" if "x \<in> set ((c, y, fr') # bl)" for x
    using ok that unfolding blocks_ok_Cons [of "(b, z, fr)"] by blast
  have "unat b \<in> extent (b, z, fr)" by simp
  moreover have "unat b \<in> extent (c, y, fr')" if "b = c" using that by simp
  ultimately have "b \<noteq> c" using dis [of "(c, y, fr')"] by auto
  then show "unat b + 32 \<le> unat c \<or> unat c + 32 \<le> unat b"
    by (intro hdrs_apart [OF ok, of b z fr c y fr']) simp_all
  show "\<not> in_hdr d a" if "in_hdr b a" "(d, w, g) \<in> set ((c, y, fr') # bl)" for a d w g
    using in_hdr_extent [OF that(1), of z fr] in_hdr_extent [of d a w g] dis [OF that(2)] by blast
qed

lemma merge_hdr_facts:
  assumes "hdr_room b"
  shows "block_at (merge_hdr b z n m) b = (block_at m b)\<lparr>hb_size := z, hb_next := n\<rparr>"
    "\<And>a. \<not> in_hdr b a \<Longrightarrow> merge_hdr b z n m a = m a"
  using assms by (simp_all add: merge_hdr_def block_at_set set_field_elsewhere)

lemma coalesce_step:
  assumes seg: "heap_seg m p ((b, z, fr) # (c, y, fr') # bl) 0" and ok: "blocks_ok ((b, z, fr) # (c, y, fr') # bl)"
  shows "coalesce m p = (if fr \<and> fr' \<and> b + 32 + z = c
      then coalesce (merge_hdr b (z + (32 + y)) (hb_next (block_at m c)) m) (hb_next (block_at m c))
      else coalesce m c)"
proof -
  note t = two_blocks [OF ok]
  have "block_at (set_size b (z + (32 + y)) m) c = block_at m c"
    by (rule block_at_set_other(2)) (use t in auto)
  with seg t(1,2) show ?thesis
    by (subst coalesce.simps) (auto simp: Let_def block_at_set [OF t(3)] merge_hdr_def)
qed

lemma merge_rest:
  assumes ok: "blocks_ok ((b, z, fr) # (c, y, fr') # bl)" and "heap_seg m n bl 0"
  shows "heap_seg (merge_hdr b x n m) n bl 0"
proof -
  note t = two_blocks [OF ok]
  have "hdr_room d \<and> (in_hdr d a \<longrightarrow> merge_hdr b x n m a = m a)" if "(d, w, g) \<in> set bl" for d w g a
    using that t(8) [of a d w g] merge_hdr_facts(2) [OF t(3)] blocks_ok_room [OF t(5)] by auto
  then have "heap_seg (merge_hdr b x n m) n bl 0 = heap_seg m n bl 0" by (intro heap_seg_agree)
  with assms(2) show ?thesis by simp
qed

lemma coalesce_spec:
  assumes "heap_seg m p bl 0" "blocks_ok bl"
  shows "\<exists>m'. coalesce m p = Some m' \<and> heap_seg m' p (coal bl) 0
    \<and> (\<forall>a. (\<forall>(b, z, fr) \<in> set bl. \<not> in_hdr b a) \<longrightarrow> m' a = m a)"
  using assms
proof (induction bl arbitrary: m p rule: coal.induct)
  case (3 b z fr c y fr' bl)
  let ?bl = "(b, z, fr) # (c, y, fr') # bl" and ?n = "hb_next (block_at m c)"
  note t = two_blocks [OF "3.prems"(2)] and step = coalesce_step [OF "3.prems"]
  have hdr: "p = b" "hb_next (block_at m b) = c" "hb_magic (block_at m b) = HEAP_MAGIC"
      "hb_size (block_at m b) = z" "(hb_free (block_at m b) \<noteq> 0) = fr"
    and rest: "heap_seg m ?n bl 0" "heap_seg m c ((c, y, fr') # bl) 0"
    using "3.prems"(1) by auto
  show ?case
  proof (cases "fr \<and> fr' \<and> b + 32 + z = c")
    case True
    let ?m2 = "merge_hdr b (z + (32 + y)) ?n m"
    from "3.IH"(1) [OF True merge_rest [OF "3.prems"(2) rest(1)] t(5)] obtain m'
      where m': "coalesce ?m2 ?n = Some m'" "heap_seg m' ?n (coal bl) 0"
        and fr: "\<And>a. (\<forall>(d, w, g) \<in> set bl. \<not> in_hdr d a) \<Longrightarrow> m' a = ?m2 a" by blast
    have "block_at m' b = block_at ?m2 b"
      by (rule block_at_agree [OF t(3)], rule fr) (use t(8) in auto)
    then have "heap_seg m' p (coal ?bl) 0"
      using True hdr m'(2) by (simp add: merge_hdr_facts(1) [OF t(3)])
    moreover have "m' a = m a" if "\<forall>(d, w, g) \<in> set ?bl. \<not> in_hdr d a" for a
      using fr [of a] merge_hdr_facts(2) [OF t(3), of a] that by auto
    ultimately show ?thesis using step True m'(1) by auto
  next
    case False
    from "3.IH"(2) [OF False rest(2) t(6)] obtain m'
      where m': "coalesce m c = Some m'" "heap_seg m' c (coal ((c, y, fr') # bl)) 0"
        and fr: "\<And>a. (\<forall>(d, w, g) \<in> set ((c, y, fr') # bl). \<not> in_hdr d a) \<Longrightarrow> m' a = m a" by blast
    have "block_at m' b = block_at m b"
      by (rule block_at_agree [OF t(3)], rule fr) (use t(8) in auto)
    moreover have "coal ?bl = (b, z, fr) # coal ((c, y, fr') # bl)" using False by auto
    ultimately have "heap_seg m' p (coal ?bl) 0" using hdr m'(2) by simp
    moreover have "m' a = m a" if "\<forall>(d, w, g) \<in> set ?bl. \<not> in_hdr d a" for a
      using fr [of a] that by auto
    ultimately show ?thesis using step False m'(1) by auto
  qed
next
  case 1
  then show ?case by (simp add: coalesce.simps)
next
  case (2 x)
  then show ?case by (cases x) (simp add: coalesce.simps)
qed

lemma live_coal: "live (coal bl) = live bl"
  by (induction bl rule: coal.induct) auto

lemma live_mark: "live (mark_free b bl) = filter (\<lambda>(c, z, fr). c \<noteq> b) (live bl)"
  by (induction bl) (auto simp: live_def mark_free_def)

lemma kfree_spec:
  assumes hok: "heap_ok s bl" and b: "(b, z, fr) \<in> set bl"
  obtains s' where "kfree (b + 32) s = Inr s'" "heap_ok s' (coal (mark_free b bl))"
    "keeps_data bl (mem s) (mem s')" "free_frames s' = free_frames s"
proof -
  note ok = heap_okD [OF hok]
  have room: "hdr_room b" by (rule blocks_ok_room [OF ok(3) b])
  have "hdr_room c \<and> (c = b \<or> unat b + 32 \<le> unat c \<or> unat c + 32 \<le> unat b)" if "(c, w, g) \<in> set bl" for c w g
    using hdrs_apart [OF ok(3) b that] blocks_ok_room [OF ok(3) that] by blast
  then have seg: "heap_seg (set_free b 1 (mem s)) (heap_head s) (mark_free b bl) 0"
    by (intro heap_seg_mark [OF ok(2) room]) auto
  have okm: "blocks_ok (mark_free b bl)" using ok(3) by (simp add: blocks_ok_mark)
  from coalesce_spec [OF seg okm] obtain m' where m': "coalesce (set_free b 1 (mem s)) (heap_head s) = Some m'"
    "heap_seg m' (heap_head s) (coal (mark_free b bl)) 0"
    and fr: "\<And>a. (\<forall>(c, w, g) \<in> set (mark_free b bl). \<not> in_hdr c a) \<Longrightarrow> m' a = set_free b 1 (mem s) a" by blast
  have magic: "hb_magic (block_at (mem s) b) = HEAP_MAGIC"
    using ok(2) b by (auto dest!: split_list simp: heap_seg_append)
  have "b + 32 \<noteq> 0" using hdr_offsets(4) [OF room] by auto
  then have k: "kfree (b + 32) s = Inr (s\<lparr>mem := m'\<rparr>)"
    using magic m'(1) by (simp add: kfree_def Let_def)
  have ext: "(\<Union>x \<in> set (mark_free b bl). extent x) = (\<Union>x \<in> set bl. extent x)"
    by (auto simp: mark_free_def)
  have "a div 4096 \<notin> free_frames s" if "x \<in> set (coal (mark_free b bl))" "a \<in> extent x" for x a
    using that blocks_ok_coal [OF okm] ok(4) ext by blast
  then have "heap_ok (s\<lparr>mem := m'\<rparr>) (coal (mark_free b bl))"
    using ok(1) m'(2) blocks_ok_coal [OF okm] unfolding heap_ok_def
    by (simp add: pmm_ok_def free_frames_def bitmap_test_def)
  moreover have "keeps_data bl (mem s) m'"
    unfolding keeps_data_def
  proof (intro ballI allI impI)
    fix x and a :: u64 assume x: "x \<in> set bl" "unat a \<in> payload x"
    have "\<not> in_hdr c a" if "(c, w, g) \<in> set bl" for c w g
      by (rule payload_not_hdr [OF ok(3) x(1) that x(2)])
    then show "m' a = mem s a"
      using b by (subst fr) (auto simp: mark_free_def set_field_elsewhere [OF room])
  qed
  ultimately show ?thesis by (intro that [OF k]) simp_all
qed

subsection \<open>The interface of the heap\<close>

text \<open>
  \<open>inv s bl\<close> relates a state to its list of blocks; \<open>live bl\<close> are the blocks in use. An
  allocation adds one live block and a release removes it; both leave the contents of the other
  live blocks alone.
\<close>

locale block_heap =
  fixes alloc :: "u64 \<Rightarrow> 's \<Rightarrow> (u64 \<times> 's) or_panic"
    and release :: "u64 \<Rightarrow> 's \<Rightarrow> 's or_panic"
    and inv :: "'s \<Rightarrow> blk list \<Rightarrow> bool"
    and bytes :: "'s \<Rightarrow> memory"
  assumes apart: "inv s bl \<Longrightarrow> distinct (map fst bl)"
    and alloc_law: "inv s bl \<Longrightarrow> n \<noteq> 0 \<Longrightarrow> unat n \<le> 2 ^ 42 \<Longrightarrow>
      \<exists>p s' bl'. alloc n s = Inr (p, s') \<and> inv s' bl' \<and> keeps_data (live bl) (bytes s) (bytes s')
        \<and> (if p = 0 then s' = s \<and> bl' = bl
           else \<exists>z xs ys. live bl = xs @ ys \<and> live bl' = xs @ (p - 32, z, False) # ys
             \<and> unat n \<le> unat z \<and> 16 dvd unat p)"
    and release_law: "inv s bl \<Longrightarrow> (b, z, False) \<in> set bl \<Longrightarrow>
      \<exists>s' bl'. release (b + 32) s = Inr s' \<and> inv s' bl'
        \<and> live bl' = filter (\<lambda>(c, y, fr). c \<noteq> b) (live bl) \<and> keeps_data (live bl) (bytes s) (bytes s')"
begin

lemma distinct_live: "inv s bl \<Longrightarrow> distinct (map fst (live bl))"
  using apart by (auto simp: live_def distinct_map_filter)

lemma alloc_release:
  assumes "inv s bl" "n \<noteq> 0" "unat n \<le> 2 ^ 42" "alloc n s = Inr (p, s')" "p \<noteq> 0"
  shows "\<exists>s'' bl''. release p s' = Inr s'' \<and> inv s'' bl'' \<and> live bl'' = live bl
    \<and> keeps_data (live bl) (bytes s) (bytes s'')"
proof -
  from alloc_law [OF assms(1-3)] assms(4,5) obtain bl' z xs ys where a: "inv s' bl'"
    "keeps_data (live bl) (bytes s) (bytes s')" "live bl = xs @ ys" "live bl' = xs @ (p - 32, z, False) # ys"
    by auto
  have "(p - 32, z, False) \<in> set (live bl')" using a(4) by simp
  then have "(p - 32, z, False) \<in> set bl'" using set_live by blast
  from release_law [OF a(1) this] obtain s'' bl'' where r: "release p s' = Inr s''" "inv s'' bl''"
    "live bl'' = filter (\<lambda>(c, y, fr). c \<noteq> p - 32) (live bl')" "keeps_data (live bl') (bytes s') (bytes s'')"
    by auto
  have "p - 32 \<notin> fst ` set (xs @ ys)"
    using distinct_live [OF a(1)] a(4) by auto
  then have "filter (\<lambda>(c, y, fr). c \<noteq> p - 32) (xs @ ys) = xs @ ys"
    by (intro filter_True) (force simp: image_iff)
  then have "live bl'' = live bl" using r(3) a(3,4) by simp
  moreover have "keeps_data (live bl) (bytes s') (bytes s'')"
    using r(4) by (rule keeps_data_mono) (use a(3,4) in auto)
  ultimately show ?thesis using a(2) r(1,2) keeps_data_trans by blast
qed

end

lemma kmalloc_law:
  assumes hok: "heap_ok s bl" and sz: "n \<noteq> 0" "unat n \<le> 2 ^ 42"
  shows "\<exists>p s' bl'. kmalloc n s = Inr (p, s') \<and> heap_ok s' bl' \<and> keeps_data (live bl) (mem s) (mem s')
    \<and> (if p = 0 then s' = s \<and> bl' = bl
       else \<exists>z xs ys. live bl = xs @ ys \<and> live bl' = xs @ (p - 32, z, False) # ys
         \<and> unat n \<le> unat z \<and> 16 dvd unat p)"
proof -
  let ?sz = "align_up n 16"
  have usz: "unat ?sz = (unat n + 15) div 16 * 16" using sz(2) by (intro unat_align_up_16) simp
  then have ge: "unat n \<le> unat ?sz" by linarith
  have b43: "unat ?sz \<le> 2 ^ 43" using usz sz(2) by simp
  have pick: "\<exists>z'. live (carve ?sz b z) = [(b + 32 - 32, z', False)] \<and> unat n \<le> unat z'" if "?sz \<le> z" for b z
    using that ge by (auto simp: live_carve word_le_nat_alt)
  have al: "b + 32 \<noteq> 0 \<and> 16 dvd unat (b + 32)" if "blocks_ok bl'" "(b, z, fr) \<in> set bl'" for b z fr bl'
    using hdr_offsets(4) [OF blocks_ok_room [OF that]] blocks_okD [OF that] by (auto simp: dvd_add)
  from hok sz(1) b43 show ?thesis
  proof (cases rule: kmalloc_spec)
    case none
    then show ?thesis using hok by (intro exI [of _ 0] exI [of _ s] exI [of _ bl]) (auto simp: keeps_data_def)
  next
    case (reuse pre b z post s')
    have "b + 32 \<noteq> 0 \<and> 16 dvd unat (b + 32)"
      using al [OF heap_okD(3) [OF hok], of b z True] reuse(1) by simp
    moreover from pick [OF reuse(2), of b] obtain z' where "live (carve ?sz b z) = [(b + 32 - 32, z', False)]"
      "unat n \<le> unat z'" by blast
    then have "\<exists>w xs ys. live bl = xs @ ys \<and> live (pre @ carve ?sz b z @ post) = xs @ (b + 32 - 32, w, False) # ys
        \<and> unat n \<le> unat w"
      by (intro exI [of _ z'] exI [of _ "live pre"] exI [of _ "live post"]) (simp add: reuse(1))
    ultimately show ?thesis
      using reuse(4-6) by (intro exI [of _ "b + 32"] exI [of _ s'] exI [of _ "pre @ carve ?sz b z @ post"]) auto
  next
    case (fresh p s')
    let ?z = "align_up (sizeof_HeapBlock + ?sz) PAGE_SIZE - 32"
    have "\<exists>w fr. (p, w, fr) \<in> set (carve ?sz p ?z)" by (auto simp: carve_def)
    then have "p + 32 \<noteq> 0 \<and> 16 dvd unat (p + 32)"
      using al [OF heap_okD(3) [OF fresh(6)]] by auto
    moreover from pick [OF fresh(2), of p] obtain z' where "live (carve ?sz p ?z) = [(p + 32 - 32, z', False)]"
      "unat n \<le> unat z'" by blast
    then have "\<exists>w xs ys. live bl = xs @ ys \<and> live (bl @ carve ?sz p ?z) = xs @ (p + 32 - 32, w, False) # ys
        \<and> unat n \<le> unat w"
      by (intro exI [of _ z'] exI [of _ "live bl"] exI [of _ "[]"]) simp
    ultimately show ?thesis
      using fresh(5-7) by (intro exI [of _ "p + 32"] exI [of _ s'] exI [of _ "bl @ carve ?sz p ?z"]) auto
  qed
qed

lemma kfree_law:
  assumes "heap_ok s bl" "(b, z, False) \<in> set bl"
  shows "\<exists>s' bl'. kfree (b + 32) s = Inr s' \<and> heap_ok s' bl'
    \<and> live bl' = filter (\<lambda>(c, y, fr). c \<noteq> b) (live bl) \<and> keeps_data (live bl) (mem s) (mem s')"
proof -
  from assms obtain s' where "kfree (b + 32) s = Inr s'" "heap_ok s' (coal (mark_free b bl))"
    "keeps_data bl (mem s) (mem s')" by (rule kfree_spec)
  moreover from this(3) have "keeps_data (live bl) (mem s) (mem s')" by (rule keeps_data_mono [OF _ set_live])
  ultimately show ?thesis
    by (intro exI [of _ s'] exI [of _ "coal (mark_free b bl)"]) (simp add: live_coal live_mark)
qed

lemma distinct_blocks: "blocks_ok bl \<Longrightarrow> distinct (map fst bl)"
proof (induction bl)
  case (Cons x bl)
  have "fst x \<noteq> fst y" if "y \<in> set bl" for y
  proof -
    have "unat (fst z) \<in> extent z" for z by (cases z) simp
    then show ?thesis using Cons.prems that unfolding blocks_ok_Cons by (metis IntI UN_I empty_iff)
  qed
  with Cons show ?case by (auto simp: blocks_ok_Cons simp del: extent.simps blk_ok.simps)
qed simp

interpretation kheap: block_heap kmalloc kfree heap_ok mem
proof unfold_locales
  show "heap_ok s bl \<Longrightarrow> distinct (map fst bl)" for s :: "'a heap_scheme" and bl
    by (rule distinct_blocks [OF heap_okD(3)])
qed (rule kmalloc_law kfree_law; assumption)+

lemma zero_payload:
  assumes hok: "heap_ok s bl" and b: "(p - 32, z, False) \<in> set bl" and n: "unat n \<le> unat z"
  defines "m' \<equiv> mem_zero (mem s) p n"
  shows "heap_ok (s\<lparr>mem := m'\<rparr>) bl"
    "\<And>x a. x \<in> set bl \<Longrightarrow> fst x \<noteq> p - 32 \<Longrightarrow> unat a \<in> payload x \<Longrightarrow> m' a = mem s a"
    "\<And>a. unat p \<le> unat a \<Longrightarrow> unat a < unat p + unat n \<Longrightarrow> m' a = 0"
proof -
  note ok = heap_okD [OF hok]
  have room: "hdr_room (p - 32)" by (rule blocks_ok_room [OF ok(3) b])
  have up: "unat p = unat (p - 32) + 32" using hdr_offsets(4) [OF room] by simp
  have bnd: "unat p + unat z \<le> 2 ^ 63" using blocks_okD [OF ok(3) b] up by simp
  then have r: "m' a = (if unat p \<le> unat a \<and> unat a < unat p + unat n then 0 else mem s a)" for a
    unfolding m'_def mem_zero_eq using n by (subst range_iff) simp_all
  have sub: "unat a \<in> payload (p - 32, z, False)" if "m' a \<noteq> mem s a" for a
    using that n up r [of a] by (auto split: if_splits)
  have "hdr_room c \<and> (in_hdr c a \<longrightarrow> m' a = mem s a)" if "(c, y, fr) \<in> set bl" for c y fr a
    using payload_not_hdr [OF ok(3) b that, of a] sub [of a] blocks_ok_room [OF ok(3) that] by blast
  then have "heap_seg m' (heap_head s) bl 0 = heap_seg (mem s) (heap_head s) bl 0" by (intro heap_seg_agree)
  then show "heap_ok (s\<lparr>mem := m'\<rparr>) bl"
    using ok unfolding heap_ok_def by (simp add: pmm_ok_def free_frames_def bitmap_test_def)
  show "m' a = mem s a" if "x \<in> set bl" "fst x \<noteq> p - 32" "unat a \<in> payload x" for x a
  proof (rule ccontr)
    assume "m' a \<noteq> mem s a"
    then have "unat a \<in> extent (p - 32, z, False)" using sub [of a] by simp
    moreover have "unat a \<in> extent x" using that(3) by (cases x) auto
    moreover have "extent x \<inter> extent (p - 32, z, False) = {}"
      by (rule extents_disjoint [OF ok(3) that(1) b]) (use that(2) in auto)
    ultimately show False by blast
  qed
  show "\<And>a. unat p \<le> unat a \<Longrightarrow> unat a < unat p + unat n \<Longrightarrow> m' a = 0" using r by simp
qed

lemma demo_heap_ok: "heap_ok demo_heap []" "fits demo_heap 256 1"
proof -
  have f: "free_frames demo_heap = {..<272}"
    by (auto simp: free_frames_def demo_heap_def bitmap_test_def)
  have "pmm_ok demo_heap" by (simp add: pmm_ok_def f) (simp add: demo_heap_def)
  then show "heap_ok demo_heap []" by (simp add: heap_ok_def) (simp add: demo_heap_def)
  have "total_page_count demo_heap = 272" by (simp add: demo_heap_def)
  then show "fits demo_heap 256 1" by (auto simp: fits_iff f)
qed

lemma demo_alloc: "\<exists>p s'. kmalloc 100 demo_heap = Inr (p, s') \<and> p \<noteq> 0"
proof -
  have "(100::u64) \<noteq> 0" "unat (align_up (100::u64) 16) \<le> 2 ^ 43" by (simp_all add: align_up_def)
  with demo_heap_ok(1) show ?thesis
  proof (cases rule: kmalloc_spec)
    case none
    have "unat (ucast (align_up (sizeof_HeapBlock + align_up 100 16) PAGE_SIZE div PAGE_SIZE) :: u32) = 1"
      by (simp add: align_up_def)
    with none(3) have "\<not> fits demo_heap 256 1" by metis
    with demo_heap_ok(2) show ?thesis by contradiction
  next
    case (fresh p s')
    have "\<exists>w fr. (p, w, fr) \<in> set (carve sz p y)" for sz y by (auto simp: carve_def)
    then have "hdr_room p" using blocks_ok_room [OF heap_okD(3) [OF fresh(6)]] by fastforce
    then have "p + 32 \<noteq> 0" using hdr_offsets(4) by fastforce
    with fresh(5) show ?thesis by blast
  qed simp
qed

text \<open>
  C6. \<open>kmalloc\<close> always returns (the walk over the block list ends), for every request up to
  \<open>2 ^ 42\<close> bytes on a well-formed heap. It returns null and changes nothing, or exactly one
  new block of at least the requested size becomes live, at a 16-byte aligned address; the
  other live blocks stay where they are with their contents, and the heap is well formed
  again: headers intact, blocks disjoint and inside allocated frames.
\<close>

theorem kmalloc_correct:
  assumes "heap_ok s bl" "n \<noteq> 0" "unat n \<le> 2 ^ 42"
  shows "\<exists>p s' bl'. kmalloc n s = Inr (p, s') \<and> heap_ok s' bl' \<and> keeps_data (live bl) (mem s) (mem s')
    \<and> (if p = 0 then s' = s \<and> bl' = bl
       else \<exists>z xs ys. live bl = xs @ ys \<and> live bl' = xs @ (p - 32, z, False) # ys
         \<and> unat n \<le> unat z \<and> 16 dvd unat p)"
  by (rule kmalloc_law [OF assms])

theorem kmalloc_correct_witness:
  "\<exists>p s' bl' z. kmalloc 100 demo_heap = Inr (p, s') \<and> heap_ok s' bl' \<and> live bl' = [(p - 32, z, False)]"
proof -
  obtain p s' where "kmalloc 100 demo_heap = Inr (p, s')" "p \<noteq> 0" using demo_alloc by blast
  with kmalloc_correct [OF demo_heap_ok(1), of 100] show ?thesis by auto
qed

text \<open>
  C7. \<open>kfree\<close> of a live block returns, makes exactly that block free, keeps the contents of
  all other live blocks, and leaves a well-formed heap, whatever merges the pass over the list
  performs.
\<close>

theorem kfree_correct:
  assumes "heap_ok s bl" "(b, z, False) \<in> set bl"
  shows "\<exists>s' bl'. kfree (b + 32) s = Inr s' \<and> heap_ok s' bl'
    \<and> live bl' = filter (\<lambda>(c, y, fr). c \<noteq> b) (live bl) \<and> keeps_data (live bl) (mem s) (mem s')"
  by (rule kfree_law [OF assms])

theorem kfree_correct_witness:
  "\<exists>p s1 s2 bl. kmalloc 100 demo_heap = Inr (p, s1) \<and> kfree p s1 = Inr s2 \<and> heap_ok s2 bl \<and> live bl = []"
proof -
  obtain p s1 where k: "kmalloc 100 demo_heap = Inr (p, s1)" "p \<noteq> 0" using demo_alloc by blast
  with kmalloc_law [OF demo_heap_ok(1), of 100] obtain bl z where b: "heap_ok s1 bl" "live bl = [(p - 32, z, False)]"
    by auto
  then have "(p - 32, z, False) \<in> set bl" using set_live [of bl] by auto
  from kfree_correct [OF b(1) this] k b(2) show ?thesis by auto
qed

text \<open>
  C8. Allocating and releasing again gives back the set of live blocks from before, with all
  their contents (from the laws of the heap interface).
\<close>

theorem kmalloc_kfree_roundtrip:
  assumes "heap_ok s bl" "n \<noteq> 0" "unat n \<le> 2 ^ 42" "kmalloc n s = Inr (p, s')" "p \<noteq> 0"
  shows "\<exists>s'' bl''. kfree p s' = Inr s'' \<and> heap_ok s'' bl'' \<and> live bl'' = live bl
    \<and> keeps_data (live bl) (mem s) (mem s'')"
  by (rule kheap.alloc_release [OF assms])

theorem kmalloc_kfree_roundtrip_witness:
  "\<exists>p s1 s2 bl. kmalloc 100 demo_heap = Inr (p, s1) \<and> p \<noteq> 0 \<and> kfree p s1 = Inr s2 \<and> heap_ok s2 bl \<and> live bl = []"
proof -
  obtain p s1 where k: "kmalloc 100 demo_heap = Inr (p, s1)" "p \<noteq> 0" using demo_alloc by blast
  from kmalloc_kfree_roundtrip [OF demo_heap_ok(1) _ _ k] k show ?thesis by auto
qed

text \<open>
  C9. \<open>kzalloc\<close>: the bytes of the new block are zero, and zeroing them touches neither a block
  header nor another live block.
\<close>

theorem kzalloc_zeroed:
  assumes "heap_ok s bl" "n \<noteq> 0" "unat n \<le> 2 ^ 42"
  shows "\<exists>p s' bl'. kzalloc n s = Inr (p, s') \<and> heap_ok s' bl' \<and> keeps_data (live bl) (mem s) (mem s')
    \<and> (p \<noteq> 0 \<longrightarrow> (\<forall>a. unat p \<le> unat a \<and> unat a < unat p + unat n \<longrightarrow> mem s' a = 0))"
proof -
  from kmalloc_law [OF assms] obtain p s1 bl' where k: "kmalloc n s = Inr (p, s1)" "heap_ok s1 bl'"
    "keeps_data (live bl) (mem s) (mem s1)" and new: "if p = 0 then s1 = s \<and> bl' = bl
       else \<exists>z xs ys. live bl = xs @ ys \<and> live bl' = xs @ (p - 32, z, False) # ys \<and> unat n \<le> unat z \<and> 16 dvd unat p"
    by blast
  show ?thesis
  proof (cases "p = 0")
    case True
    with k show ?thesis by (auto simp: kzalloc_def)
  next
    case False
    with new obtain z xs ys where live: "live bl = xs @ ys" "live bl' = xs @ (p - 32, z, False) # ys"
      and z: "unat n \<le> unat z" by auto
    then have b: "(p - 32, z, False) \<in> set bl'" using set_live [of bl'] by auto
    note zp = zero_payload [OF k(2) b z]
    have nin: "p - 32 \<notin> fst ` set (live bl)"
      using kheap.distinct_live [OF k(2)] unfolding live by (simp add: image_Un)
    have sub: "set (live bl) \<subseteq> set bl'" using set_live [of bl'] unfolding live by simp
    have other: "x \<in> set bl' \<and> fst x \<noteq> p - 32" if x: "x \<in> set (live bl)" for x
    proof
      show "x \<in> set bl'" using x sub by (rule rev_subsetD)
      show "fst x \<noteq> p - 32" using imageI [OF x, of fst] nin by metis
    qed
    have "keeps_data (live bl) (mem s1) (mem_zero (mem s1) p n)"
      unfolding keeps_data_def by (intro ballI allI impI zp(2)) (use other in blast)+
    with k(3) have "keeps_data (live bl) (mem s) (mem_zero (mem s1) p n)" by (rule keeps_data_trans)
    with zp(1,3) k(1) False show ?thesis
      by (intro exI [of _ p] exI [of _ "s1\<lparr>mem := mem_zero (mem s1) p n\<rparr>"] exI [of _ bl'])
        (simp add: kzalloc_def)
  qed
qed

theorem kzalloc_zeroed_witness:
  "\<exists>p s' bl'. kzalloc 100 demo_heap = Inr (p, s') \<and> heap_ok s' bl'"
  using kzalloc_zeroed [OF demo_heap_ok(1), of 100] by auto

lemma demo_block_ok: "heap_ok demo_block [(0x100000, 4064, True)]"
proof -
  have f: "free_frames demo_block = {..<256}"
    by (auto simp: free_frames_def demo_block_def demo_heap_def bitmap_test_def)
  have "pmm_ok demo_block" by (simp add: pmm_ok_def f) (simp add: demo_block_def demo_heap_def)
  moreover have "hdr_room 0x100000" by (simp add: hdr_room_def)
  then have "heap_seg (mem demo_block) (heap_head demo_block) [(0x100000, 4064, True)] 0"
    using fresh_block_seg(1) [of "0x100000" "\<lambda>_. 7" 4064] by (simp add: demo_block_def)
  moreover have "blk_ok (0x100000, 4064, True)" by simp
  moreover have "\<forall>a \<in> extent (0x100000, 4064, True). a div 4096 \<notin> free_frames demo_block"
    by (auto simp: f)
  ultimately show ?thesis by (simp add: heap_ok_def)
qed

text \<open>
  C10. The rounding of a request wraps. A request for more than \<open>2 ^ 64 - 16\<close> bytes is rounded to zero
  bytes, on every well-formed heap. It fails only when the heap has no free block and the page
  allocator no free page; otherwise it succeeds with a block of at most 64 bytes, which is the whole of
  a block that was free before, or empty.
\<close>

theorem kmalloc_request_wraps:
  assumes hok: "heap_ok s bl" and n: "2 ^ 64 - 16 < unat n"
  shows "\<exists>p s' bl'. kmalloc n s = Inr (p, s') \<and> heap_ok s' bl' \<and> keeps_data (live bl) (mem s) (mem s')
    \<and> (if p = 0 then s' = s \<and> bl' = bl \<and> live bl = bl \<and> (\<forall>q. \<not> fits s q 1)
       else \<exists>z xs ys. live bl = xs @ ys \<and> live bl' = xs @ (p - 32, z, False) # ys
         \<and> unat z \<le> 64 \<and> (z = 0 \<or> (p - 32, z, True) \<in> set bl))"
proof -
  have z: "align_up n 16 = 0" using n by (rule align_up_16_wraps)
  have nz: "n \<noteq> 0" using n by auto
  have all: "fits_blk 0 x \<longleftrightarrow> snd (snd x)" for x by (cases x) (simp add: fits_blk_def)
  have small: "\<exists>w. live (carve 0 b y) = [(b, w, False)] \<and> unat w \<le> 64 \<and> (w = 0 \<or> w = y)" for b y
    by (auto simp: carve_def live_def word_le_nat_alt)
  have ne: "b + 32 \<noteq> 0" if "blocks_ok l" "(b, y, fr) \<in> set l" for l b y fr
    using hdr_offsets(4) [OF blocks_ok_room [OF that]] by auto
  have "unat (align_up n 16) \<le> 2 ^ 43" by (simp add: z)
  with hok nz show ?thesis
  proof (cases rule: kmalloc_spec)
    case none
    then have "live bl = bl" by (auto simp: z all live_def filter_id_conv split: prod.splits)
    moreover have "\<forall>q. \<not> fits s q 1" using none(3) unfolding z by (simp add: align_up_def)
    ultimately show ?thesis using none(1) hok by (intro exI [of _ 0] exI [of _ s] exI [of _ bl]) (auto simp: keeps_data_def)
  next
    case (reuse pre b y post s')
    obtain w where w: "live (carve 0 b y) = [(b, w, False)]" "unat w \<le> 64" "w = 0 \<or> w = y" using small by blast
    have "b + 32 \<noteq> 0" using ne [OF heap_okD(3) [OF hok], of b y True] reuse(1) by simp
    moreover have "\<exists>z xs ys. live bl = xs @ ys \<and> live (pre @ carve 0 b y @ post) = xs @ (b + 32 - 32, z, False) # ys
         \<and> unat z \<le> 64 \<and> (z = 0 \<or> (b + 32 - 32, z, True) \<in> set bl)"
      using w by (intro exI [of _ w] exI [of _ "live pre"] exI [of _ "live post"]) (auto simp: reuse(1))
    ultimately show ?thesis
      using reuse(4-6) by (intro exI [of _ "b + 32"] exI [of _ s'] exI [of _ "pre @ carve 0 b y @ post"]) (simp add: z)
  next
    case (fresh p s')
    have t: "align_up (sizeof_HeapBlock + 0) PAGE_SIZE - 32 = 4064" by (simp add: align_up_def)
    have c: "carve 0 p 4064 = [(p, 0, False), (p + 32, 4032, True)]" by (simp add: carve_def)
    have h: "heap_ok s' (bl @ carve 0 p 4064)" using fresh(6) unfolding z t .
    have "p + 32 \<noteq> 0" using ne [OF heap_okD(3) [OF h], of p 0 False] by (simp add: c)
    moreover have "live (bl @ carve 0 p 4064) = live bl @ (p + 32 - 32, 0, False) # []" by (simp add: c live_def)
    then have "\<exists>z xs ys. live bl = xs @ ys \<and> live (bl @ carve 0 p 4064) = xs @ (p + 32 - 32, z, False) # ys
         \<and> unat z \<le> 64 \<and> (z = 0 \<or> (p + 32 - 32, z, True) \<in> set bl)"
      by (intro exI [of _ 0] exI [of _ "live bl"] exI [of _ "[]"]) simp
    ultimately show ?thesis
      using fresh(5,7) h by (intro exI [of _ "p + 32"] exI [of _ s'] exI [of _ "bl @ carve 0 p 4064"]) auto
  qed
qed

theorem kmalloc_request_wraps_witness:
  "\<exists>p s' z bl'. kmalloc (- 1) demo_block = Inr (p, s') \<and> p \<noteq> 0 \<and> heap_ok s' bl'
     \<and> live bl' = [(p - 32, z, False)] \<and> unat z \<le> 64"
proof -
  have "unat (- 1 :: u64) = 2 ^ 64 - 1" by (simp add: unsigned_minus_1_eq_mask mask_eq_exp_minus_1)
  then have "2 ^ 64 - 16 < unat (- 1 :: u64)" by simp
  from kmalloc_request_wraps [OF demo_block_ok this] show ?thesis by (auto simp: live_def split: if_splits)
qed

end
