(* ===== verification/Spinlock.thy ===== *)
theory Spinlock
  imports Prelude
begin

text \<open>
  The spinlock of \<open>kernel/spinlock.c\<close> under interleaving. Each CPU runs a program, a list of
  operations; an operation is a list of accesses to the shared state that runs between
  \<open>spinlock_lock\<close> and \<open>spinlock_unlock\<close>. One step of the system is one atomic access of one CPU:
  the exchange, the relaxed load of the inner loop, one access of the critical section, or the
  store that unlocks. \<open>history\<close> records the operations in the order in which the lock was taken.
\<close>

subsection \<open>The system\<close>

datatype 's pc = Outside | Exchanging | Spinning | Inside "('s \<Rightarrow> 's) list"

record 's system =
  lock_value :: u32
  shared :: 's
  pcs :: "nat \<Rightarrow> 's pc"
  programs :: "nat \<Rightarrow> ('s \<Rightarrow> 's) list list"
  history :: "('s \<Rightarrow> 's) list list"

text \<open>The atomic accesses of \<open>spinlock_lock\<close> and \<open>spinlock_unlock\<close>: the old value and the new one.\<close>

definition exchange_acquire :: "u32 \<Rightarrow> u32 \<times> u32" where
  "exchange_acquire value = (value, 1)"

definition spinlock_unlock :: "u32 \<Rightarrow> u32" where
  "spinlock_unlock value = 0"

text \<open>
  After the exchange \<open>spinlock_lock\<close> enters when the old value was zero and else spins on
  plain loads until it reads zero; then it tries the exchange again.
\<close>

definition spinlock_lock_exchange :: "nat \<Rightarrow> 's system \<Rightarrow> 's system" where
  "spinlock_lock_exchange i c =
     (let (old, new) = exchange_acquire (lock_value c);
          c1 = c\<lparr>lock_value := new\<rparr>
      in if old \<noteq> 0 then c1\<lparr>pcs := (pcs c1)(i := Spinning)\<rparr>
         else case programs c1 i of
             [] \<Rightarrow> c1\<lparr>pcs := (pcs c1)(i := Inside []), history := history c1 @ [[]]\<rparr>
           | op # ops \<Rightarrow> c1\<lparr>pcs := (pcs c1)(i := Inside op), programs := (programs c1)(i := ops),
                            history := history c1 @ [op]\<rparr>)"

definition spinlock_lock_load :: "nat \<Rightarrow> 's system \<Rightarrow> 's system" where
  "spinlock_lock_load i c =
     (if lock_value c \<noteq> 0 then c else c\<lparr>pcs := (pcs c)(i := Exchanging)\<rparr>)"

definition access :: "nat \<Rightarrow> ('s \<Rightarrow> 's) \<Rightarrow> ('s \<Rightarrow> 's) list \<Rightarrow> 's system \<Rightarrow> 's system" where
  "access i a as c = c\<lparr>shared := a (shared c), pcs := (pcs c)(i := Inside as)\<rparr>"

definition unlock :: "nat \<Rightarrow> 's system \<Rightarrow> 's system" where
  "unlock i c = c\<lparr>lock_value := spinlock_unlock (lock_value c), pcs := (pcs c)(i := Outside)\<rparr>"

inductive cpu_step :: "nat \<Rightarrow> 's system \<Rightarrow> 's system \<Rightarrow> bool" for i where
  enter: "pcs c i = Outside \<Longrightarrow> programs c i \<noteq> [] \<Longrightarrow> cpu_step i c (c\<lparr>pcs := (pcs c)(i := Exchanging)\<rparr>)"
| exchange: "pcs c i = Exchanging \<Longrightarrow> cpu_step i c (spinlock_lock_exchange i c)"
| load: "pcs c i = Spinning \<Longrightarrow> cpu_step i c (spinlock_lock_load i c)"
| access: "pcs c i = Inside (a # as) \<Longrightarrow> cpu_step i c (access i a as c)"
| leave: "pcs c i = Inside [] \<Longrightarrow> cpu_step i c (unlock i c)"

definition system_step :: "'s system \<Rightarrow> 's system \<Rightarrow> bool" where
  "system_step c c' \<longleftrightarrow> (\<exists>i. cpu_step i c c')"

definition initial :: "'s \<Rightarrow> (nat \<Rightarrow> ('s \<Rightarrow> 's) list list) \<Rightarrow> 's system" where
  "initial s0 progs = \<lparr>lock_value = 0, shared = s0, pcs = (\<lambda>_. Outside), programs = progs, history = []\<rparr>"

definition run_op :: "('s \<Rightarrow> 's) list \<Rightarrow> 's \<Rightarrow> 's" where
  "run_op op s = fold (\<lambda>a. a) op s"

definition run_ops :: "('s \<Rightarrow> 's) list list \<Rightarrow> 's \<Rightarrow> 's" where
  "run_ops ops s = fold run_op ops s"

subsection \<open>The invariant\<close>

text \<open>
  Either the lock is free, nobody is inside and the shared state is the result of running the
  recorded operations one after the other; or exactly one CPU is inside, and finishing its
  remaining accesses gives that result.
\<close>

definition lock_inv :: "'s \<Rightarrow> 's system \<Rightarrow> bool" where
  "lock_inv s0 c \<longleftrightarrow>
     (lock_value c = 0 \<and> (\<forall>i as. pcs c i \<noteq> Inside as) \<and> shared c = run_ops (history c) s0)
   \<or> (lock_value c = 1 \<and> (\<exists>i as. pcs c i = Inside as \<and> (\<forall>j bs. pcs c j = Inside bs \<longrightarrow> j = i)
        \<and> run_op as (shared c) = run_ops (history c) s0))"

lemma run_op_simps [simp]: "run_op [] s = s" "run_op (a # as) s = run_op as (a s)"
  by (simp_all add: run_op_def)

lemma run_ops_simps [simp]: "run_ops [] s = s" "run_ops (ops @ [op]) s = run_op op (run_ops ops s)"
  by (simp_all add: run_ops_def)

lemma lock_inv_initial: "lock_inv s0 (initial s0 progs)"
  by (simp add: lock_inv_def initial_def)

lemma lock_invE:
  assumes "lock_inv s0 c"
  obtains (free) "lock_value c = 0" "\<And>i as. pcs c i \<noteq> Inside as" "shared c = run_ops (history c) s0"
  | (held) k as where "lock_value c = 1" "pcs c k = Inside as" "\<And>j bs. pcs c j = Inside bs \<Longrightarrow> j = k"
      "run_op as (shared c) = run_ops (history c) s0"
  using assms unfolding lock_inv_def by blast

lemma lock_inv_free:
  "lock_value c = 0 \<Longrightarrow> (\<And>i as. pcs c i \<noteq> Inside as) \<Longrightarrow> shared c = run_ops (history c) s0 \<Longrightarrow> lock_inv s0 c"
  by (simp add: lock_inv_def)

lemma lock_inv_held:
  "lock_value c = 1 \<Longrightarrow> pcs c k = Inside as \<Longrightarrow> (\<And>j bs. pcs c j = Inside bs \<Longrightarrow> j = k) \<Longrightarrow>
   run_op as (shared c) = run_ops (history c) s0 \<Longrightarrow> lock_inv s0 c"
  unfolding lock_inv_def by blast

text \<open>A CPU outside the critical section may move among the other control points.\<close>

lemma lock_inv_move:
  assumes "lock_inv s0 c" "\<And>as. pcs c i \<noteq> Inside as" "\<And>as. p \<noteq> Inside as"
  shows "lock_inv s0 (c\<lparr>pcs := (pcs c)(i := p)\<rparr>)"
  using assms(1)
proof (cases rule: lock_invE)
  case free
  with assms(3) show ?thesis by (intro lock_inv_free) auto
next
  case (held k as)
  have ne: "k \<noteq> i" using held(2) assms(2) by auto
  show ?thesis
  proof (rule lock_inv_held [of _ k as])
    fix j bs assume "pcs (c\<lparr>pcs := (pcs c)(i := p)\<rparr>) j = Inside bs"
    then show "j = k" using held(3) [of j bs] assms(3) by (cases "j = i") simp_all
  qed (use held(1,2,4) ne in simp_all)
qed

lemma lock_inv_exchange:
  assumes "lock_inv s0 c" "pcs c i = Exchanging"
  shows "lock_inv s0 (spinlock_lock_exchange i c)"
  using assms(1)
proof (cases rule: lock_invE)
  case free
  then show ?thesis
    by (cases "programs c i")
      (auto intro!: lock_inv_held [of _ i] simp: spinlock_lock_exchange_def exchange_acquire_def Let_def split: if_splits)
next
  case (held k as)
  then have "spinlock_lock_exchange i c = c\<lparr>pcs := (pcs c)(i := Spinning)\<rparr>"
    by (simp add: spinlock_lock_exchange_def exchange_acquire_def)
  with assms show ?thesis by (simp add: lock_inv_move)
qed

lemma lock_inv_step:
  assumes "lock_inv s0 c" "cpu_step i c c'"
  shows "lock_inv s0 c'"
  using assms(2)
proof (cases rule: cpu_step.cases)
  case enter
  with assms(1) show ?thesis by (simp add: lock_inv_move)
next
  case exchange
  with assms(1) show ?thesis by (simp add: lock_inv_exchange)
next
  case load
  with assms(1) show ?thesis by (simp add: spinlock_lock_load_def lock_inv_move)
next
  case (access a as)
  from assms(1) show ?thesis
  proof (cases rule: lock_invE)
    case (held k bs)
    have k: "i = k" by (rule held(3)) (rule access(2))
    show ?thesis unfolding access(1)
    proof (rule lock_inv_held [of _ i as])
      fix j cs assume "pcs (access i a as c) j = Inside cs"
      then show "j = i" using held(3) [of j cs] k by (cases "j = i") (simp_all add: access_def)
    qed (use held(1,2,4) access(2) k in \<open>simp_all add: access_def\<close>)
  qed (use access in simp)
next
  case leave
  from assms(1) show ?thesis
  proof (cases rule: lock_invE)
    case (held k bs)
    have k: "i = k" by (rule held(3)) (rule leave(2))
    show ?thesis unfolding leave(1)
    proof (rule lock_inv_free)
      fix j cs show "pcs (unlock i c) j \<noteq> Inside cs"
        using held(3) [of j cs] k by (cases "j = i") (auto simp: unlock_def)
    qed (use held(2,4) leave(2) k in \<open>simp_all add: unlock_def spinlock_unlock_def\<close>)
  qed (use leave in simp)
qed

lemma exchange_enters: "lock_value c = 0 \<Longrightarrow> \<exists>as. pcs (spinlock_lock_exchange i c) i = Inside as"
  by (cases "programs c i") (simp_all add: spinlock_lock_exchange_def exchange_acquire_def Let_def)

lemma lock_inv_reachable: "system_step\<^sup>*\<^sup>* (initial s0 progs) c \<Longrightarrow> lock_inv s0 c"
  by (induction rule: rtranclp_induct) (auto simp: lock_inv_initial system_step_def lock_inv_step)

lemma step_rtrancl: "cpu_step i c d \<Longrightarrow> system_step\<^sup>*\<^sup>* d e \<Longrightarrow> system_step\<^sup>*\<^sup>* c e"
  by (rule converse_rtranclp_into_rtranclp) (auto simp: system_step_def)

subsection \<open>Properties\<close>

text \<open>
  C11. Mutual exclusion and atomicity: in every reachable state at most one CPU is between
  \<open>spinlock_lock\<close> and \<open>spinlock_unlock\<close>, and whenever none is, the shared state is what the
  operations give when they run one after the other in the order in which they took the lock.
  The lock word is 0 exactly when nobody is inside.
\<close>

theorem spinlock_atomic:
  assumes "system_step\<^sup>*\<^sup>* (initial s0 progs) c"
  shows "(\<forall>i j as bs. pcs c i = Inside as \<longrightarrow> pcs c j = Inside bs \<longrightarrow> i = j)
    \<and> (lock_value c = 0 \<longleftrightarrow> (\<forall>i as. pcs c i \<noteq> Inside as))
    \<and> ((\<forall>i as. pcs c i \<noteq> Inside as) \<longrightarrow> shared c = run_ops (history c) s0)"
  using lock_inv_reachable [OF assms]
proof (cases rule: lock_invE)
  case free
  then show ?thesis by auto
next
  case (held k as)
  have "\<forall>i j as bs. pcs c i = Inside as \<longrightarrow> pcs c j = Inside bs \<longrightarrow> i = j" using held(3) by metis
  with held(1,2) show ?thesis by auto
qed

theorem spinlock_atomic_witness:
  "\<exists>c. system_step\<^sup>*\<^sup>* (initial (0::nat) (\<lambda>i. [[Suc, Suc]])) c \<and> pcs c 1 = Inside [Suc] \<and> pcs c 2 = Exchanging
     \<and> lock_value c \<noteq> 0"
proof -
  define c0 where "c0 = initial (0::nat) (\<lambda>i. [[Suc, Suc]])"
  define c1 where "c1 = c0\<lparr>pcs := (pcs c0)(1 := Exchanging)\<rparr>"
  define c2 where "c2 = c1\<lparr>pcs := (pcs c1)(2 := Exchanging)\<rparr>"
  define c3 where "c3 = spinlock_lock_exchange 1 c2"
  define c4 where "c4 = access 1 Suc [Suc] c3"
  have s1: "cpu_step 1 c0 c1" unfolding c1_def by (rule cpu_step.enter) (simp_all add: c0_def initial_def)
  have s2: "cpu_step 2 c1 c2" unfolding c2_def by (rule cpu_step.enter) (simp_all add: c1_def c0_def initial_def)
  have s3: "cpu_step 1 c2 c3" unfolding c3_def by (rule cpu_step.exchange) (simp add: c2_def c1_def)
  have p3: "pcs c3 1 = Inside [Suc, Suc]"
    by (simp add: c3_def c2_def c1_def c0_def initial_def spinlock_lock_exchange_def exchange_acquire_def)
  have s4: "cpu_step 1 c3 c4" unfolding c4_def by (rule cpu_step.access) (fact p3)
  have "system_step\<^sup>*\<^sup>* c0 c4"
    by (rule step_rtrancl [OF s1 step_rtrancl [OF s2 step_rtrancl [OF s3 step_rtrancl [OF s4]]]]) simp
  then have r: "system_step\<^sup>*\<^sup>* (initial 0 (\<lambda>i. [[Suc, Suc]])) c4" unfolding c0_def .
  have "pcs c4 1 = Inside [Suc]" by (simp add: c4_def access_def)
  moreover have "pcs c4 2 = Exchanging"
    by (simp add: c4_def access_def c3_def c2_def c1_def c0_def initial_def spinlock_lock_exchange_def exchange_acquire_def)
  ultimately show ?thesis using spinlock_atomic [OF r] r by metis
qed

text \<open>
  C12. No deadlock: as long as some CPU waits for the lock, some CPU can take a step that moves
  it on (no idle spinning); and a CPU that waits while the lock is free is inside after at most two
  steps of its own.
\<close>

theorem spinlock_progress:
  assumes "system_step\<^sup>*\<^sup>* (initial s0 progs) c" "pcs c i = Exchanging \<or> pcs c i = Spinning"
  shows "(\<exists>j c'. cpu_step j c c' \<and> pcs c' j \<noteq> pcs c j)
    \<and> (lock_value c = 0 \<longrightarrow> (\<exists>c1 c2 as. (c1 = c \<or> cpu_step i c c1) \<and> cpu_step i c1 c2 \<and> pcs c2 i = Inside as))"
  using lock_inv_reachable [OF assms(1)]
proof (cases rule: lock_invE)
  case free
  show ?thesis
  proof (cases "pcs c i = Exchanging")
    case True
    then have "cpu_step i c (spinlock_lock_exchange i c)" by (rule cpu_step.exchange)
    with exchange_enters [OF free(1)] free(2) show ?thesis by metis
  next
    case False
    with assms(2) have "cpu_step i c (spinlock_lock_load i c)" by (intro cpu_step.load) simp
    moreover have x: "pcs (spinlock_lock_load i c) i = Exchanging" "lock_value (spinlock_lock_load i c) = 0"
      using free(1) by (simp_all add: spinlock_lock_load_def)
    ultimately show ?thesis
      using False cpu_step.exchange [OF x(1)] exchange_enters [OF x(2)] by metis
  qed
next
  case (held k as)
  have "\<exists>c'. cpu_step k c c' \<and> pcs c' k \<noteq> pcs c k"
  proof (cases as)
    case Nil
    with held(2) show ?thesis using cpu_step.leave [of c k] by (auto simp: unlock_def)
  next
    case (Cons a bs)
    with held(2) show ?thesis using cpu_step.access [of c k a bs] by (auto simp: access_def)
  qed
  with held(1) show ?thesis by auto
qed

theorem spinlock_progress_witness:
  "\<exists>c. pcs c 1 = Exchanging \<and> system_step\<^sup>*\<^sup>* (initial (0::nat) (\<lambda>i. [[Suc]])) c
     \<and> (\<exists>j c'. cpu_step j c c' \<and> pcs c' j \<noteq> pcs c j)"
proof -
  define c0 where "c0 = initial (0::nat) (\<lambda>i. [[Suc]])"
  define c1 where "c1 = c0\<lparr>pcs := (pcs c0)(1 := Exchanging)\<rparr>"
  have "cpu_step 1 c0 c1" unfolding c1_def by (rule cpu_step.enter) (simp_all add: c0_def initial_def)
  then have "system_step\<^sup>*\<^sup>* c0 c1" by (rule step_rtrancl) simp
  then have r: "system_step\<^sup>*\<^sup>* (initial (0::nat) (\<lambda>i. [[Suc]])) c1" unfolding c0_def .
  have p: "pcs c1 1 = Exchanging" by (simp add: c1_def)
  from spinlock_progress [OF r, of 1] p r show ?thesis by blast
qed

end
