(* ===== verification/Vmm.thy ===== *)
theory Vmm
  imports Kheap
begin

text \<open>
  Virtual memory, \<open>kernel/vmm.c\<close>: four-level page tables that live in physical memory. A table
  is a page of 512 eight-byte entries, read and written with \<open>read64\<close> and \<open>write64\<close>. The \<open>static\<close>
  variables of the file are the fields of \<open>vmm\<close>. The TLB is not modelled: the \<open>invlpg\<close> and
  \<open>mfence\<close> instructions have no effect on the state.
\<close>

subsection \<open>The model\<close>

record vmm = heap +
  kernel_pml4 :: u64
  kernel_pml4_phys :: u64

definition PTE_ADDR_MASK :: u64 where
  "PTE_ADDR_MASK = 0x000ffffffffff000"

definition VMM_PRESENT :: u64 where
  "VMM_PRESENT = 0x001"

definition VMM_WRITE :: u64 where
  "VMM_WRITE = 0x002"

definition VMM_USER :: u64 where
  "VMM_USER = 0x004"

definition VMM_NX :: u64 where
  "VMM_NX = push_bit 63 1"

definition new_table :: "'a vmm_scheme \<Rightarrow> (u64 \<times> 'a vmm_scheme) or_panic" where
  "new_table s =
     (let (table, s1) = pmm_alloc_page s
      in if table = 0 then panic ''VMM: no page table memory''
         else Inr (table, s1\<lparr>mem := mem_zero (mem s1) table PAGE_SIZE\<rparr>))"

definition table_slot :: "u64 \<Rightarrow> u64 \<Rightarrow> u64" where
  "table_slot table index = table + 8 * index"

definition next_table :: "u64 \<Rightarrow> u64 \<Rightarrow> bool \<Rightarrow> u64 \<Rightarrow> 'a vmm_scheme \<Rightarrow> (u64 \<times> 'a vmm_scheme) or_panic" where
  "next_table table index create create_flags s =
     (let slot = table_slot table index
      in if read64 (mem s) slot AND VMM_PRESENT = 0 then
           if \<not> create then Inr (0, s)
           else kbind (new_table s) (\<lambda>(child, s1).
             let s2 = s1\<lparr>mem := write64 (mem s1) slot
                          ((child AND PTE_ADDR_MASK) OR VMM_PRESENT OR VMM_WRITE OR create_flags)\<rparr>
             in Inr (read64 (mem s2) slot AND PTE_ADDR_MASK, s2))
         else Inr (read64 (mem s) slot AND PTE_ADDR_MASK, s))"

definition pml4_i :: "u64 \<Rightarrow> u64" where
  "pml4_i virt = drop_bit 39 virt AND 0x1ff"

definition pdpt_i :: "u64 \<Rightarrow> u64" where
  "pdpt_i virt = drop_bit 30 virt AND 0x1ff"

definition pd_i :: "u64 \<Rightarrow> u64" where
  "pd_i virt = drop_bit 21 virt AND 0x1ff"

definition pt_i :: "u64 \<Rightarrow> u64" where
  "pt_i virt = drop_bit 12 virt AND 0x1ff"

definition pte_for_root :: "u64 \<Rightarrow> u64 \<Rightarrow> bool \<Rightarrow> u64 \<Rightarrow> 'a vmm_scheme \<Rightarrow> (u64 \<times> 'a vmm_scheme) or_panic" where
  "pte_for_root root virt create create_flags s =
     kbind (next_table root (pml4_i virt) create create_flags s) (\<lambda>(pdpt, s1).
     if pdpt = 0 then Inr (0, s1)
     else kbind (next_table pdpt (pdpt_i virt) create create_flags s1) (\<lambda>(pd, s2).
     if pd = 0 then Inr (0, s2)
     else kbind (next_table pd (pd_i virt) create create_flags s2) (\<lambda>(pt, s3).
     if pt = 0 then Inr (0, s3)
     else Inr (table_slot pt (pt_i virt), s3))))"

definition leaf_entry :: "u64 \<Rightarrow> u64 \<Rightarrow> u64" where
  "leaf_entry phys flags =
     (phys AND PTE_ADDR_MASK) OR (flags AND NOT VMM_NX) OR VMM_PRESENT OR (flags AND VMM_NX)"

fun map_pages :: "u64 \<Rightarrow> u64 \<Rightarrow> u64 list \<Rightarrow> u64 \<Rightarrow> 'a vmm_scheme \<Rightarrow> (cint \<times> 'a vmm_scheme) or_panic" where
  "map_pages root flags [] phys_page s = Inr (0, s)"
| "map_pages root flags (addr # addrs) phys_page s =
     kbind (pte_for_root root addr True (flags AND VMM_USER) s) (\<lambda>(pte, s1).
     if pte = 0 then Inr (-1, s1)
     else map_pages root flags addrs (phys_page + PAGE_SIZE)
            (s1\<lparr>mem := write64 (mem s1) pte (leaf_entry phys_page flags)\<rparr>))"

definition map_in_root :: "u64 \<Rightarrow> u64 \<Rightarrow> u64 \<Rightarrow> u64 \<Rightarrow> u64 \<Rightarrow> 'a vmm_scheme \<Rightarrow> (cint \<times> 'a vmm_scheme) or_panic" where
  "map_in_root root virt phys sz flags s =
     map_pages root flags (page_addrs (align_down virt PAGE_SIZE) (align_up (virt + sz) PAGE_SIZE))
       (align_down phys PAGE_SIZE) s"

definition vmm_map :: "u64 \<Rightarrow> u64 \<Rightarrow> u64 \<Rightarrow> u64 \<Rightarrow> 'a vmm_scheme \<Rightarrow> (cint \<times> 'a vmm_scheme) or_panic" where
  "vmm_map virt phys sz flags s = map_in_root (kernel_pml4 s) virt phys sz flags s"

definition vmm_map_in :: "u64 \<Rightarrow> u64 \<Rightarrow> u64 \<Rightarrow> u64 \<Rightarrow> u64 \<Rightarrow> 'a vmm_scheme \<Rightarrow> (cint \<times> 'a vmm_scheme) or_panic" where
  "vmm_map_in pml4_phys virt phys sz flags s = map_in_root pml4_phys virt phys sz flags s"

fun protect_pages :: "u64 \<Rightarrow> u64 \<Rightarrow> u64 list \<Rightarrow> 'a vmm_scheme \<Rightarrow> (cint \<times> 'a vmm_scheme) or_panic" where
  "protect_pages root flags [] s = Inr (0, s)"
| "protect_pages root flags (addr # addrs) s =
     kbind (pte_for_root root addr False 0 s) (\<lambda>(pte, s1).
     if pte = 0 \<or> read64 (mem s1) pte AND VMM_PRESENT = 0 then Inr (-1, s1)
     else protect_pages root flags addrs
            (s1\<lparr>mem := write64 (mem s1) pte (leaf_entry (read64 (mem s1) pte) flags)\<rparr>))"

definition protect_in_root :: "u64 \<Rightarrow> u64 \<Rightarrow> u64 \<Rightarrow> u64 \<Rightarrow> 'a vmm_scheme \<Rightarrow> (cint \<times> 'a vmm_scheme) or_panic" where
  "protect_in_root root virt sz flags s =
     protect_pages root flags (page_addrs (align_down virt PAGE_SIZE) (align_up (virt + sz) PAGE_SIZE)) s"

definition vmm_protect :: "u64 \<Rightarrow> u64 \<Rightarrow> u64 \<Rightarrow> 'a vmm_scheme \<Rightarrow> (cint \<times> 'a vmm_scheme) or_panic" where
  "vmm_protect virt sz flags s = protect_in_root (kernel_pml4 s) virt sz flags s"

definition vmm_protect_in :: "u64 \<Rightarrow> u64 \<Rightarrow> u64 \<Rightarrow> u64 \<Rightarrow> 'a vmm_scheme \<Rightarrow> (cint \<times> 'a vmm_scheme) or_panic" where
  "vmm_protect_in pml4_phys virt sz flags s = protect_in_root pml4_phys virt sz flags s"

fun unmap_pages :: "u64 \<Rightarrow> u64 list \<Rightarrow> 'a vmm_scheme \<Rightarrow> 'a vmm_scheme or_panic" where
  "unmap_pages root [] s = Inr s"
| "unmap_pages root (addr # addrs) s =
     kbind (pte_for_root root addr False 0 s) (\<lambda>(pte, s1).
     unmap_pages root addrs (if pte \<noteq> 0 then s1\<lparr>mem := write64 (mem s1) pte 0\<rparr> else s1))"

definition unmap_in_root :: "u64 \<Rightarrow> u64 \<Rightarrow> u64 \<Rightarrow> 'a vmm_scheme \<Rightarrow> 'a vmm_scheme or_panic" where
  "unmap_in_root root virt sz s =
     unmap_pages root (page_addrs (align_down virt PAGE_SIZE) (align_up (virt + sz) PAGE_SIZE)) s"

definition vmm_unmap :: "u64 \<Rightarrow> u64 \<Rightarrow> 'a vmm_scheme \<Rightarrow> 'a vmm_scheme or_panic" where
  "vmm_unmap virt sz s = unmap_in_root (kernel_pml4 s) virt sz s"

definition vmm_unmap_in :: "u64 \<Rightarrow> u64 \<Rightarrow> u64 \<Rightarrow> 'a vmm_scheme \<Rightarrow> 'a vmm_scheme or_panic" where
  "vmm_unmap_in pml4_phys virt sz s = unmap_in_root pml4_phys virt sz s"

text \<open>
  A lookup never creates a table, so it can neither panic nor change the state
  (\<open>pte_for_root_lookup\<close> below); \<open>find_pte\<close> is the walk with \<open>create = 0\<close>.
\<close>

definition find_table :: "memory \<Rightarrow> u64 \<Rightarrow> u64 \<Rightarrow> u64" where
  "find_table m table index =
     (if read64 m (table_slot table index) AND VMM_PRESENT = 0 then 0
      else read64 m (table_slot table index) AND PTE_ADDR_MASK)"

definition find_pte :: "memory \<Rightarrow> u64 \<Rightarrow> u64 \<Rightarrow> u64" where
  "find_pte m root virt =
     (let pdpt = find_table m root (pml4_i virt)
      in if pdpt = 0 then 0
         else let pd = find_table m pdpt (pdpt_i virt)
              in if pd = 0 then 0
                 else let pt = find_table m pd (pd_i virt)
                      in if pt = 0 then 0 else table_slot pt (pt_i virt))"

definition virt_to_phys :: "memory \<Rightarrow> u64 \<Rightarrow> u64 \<Rightarrow> u64" where
  "virt_to_phys m root virt =
     (let pte = find_pte m root virt
      in if pte = 0 \<or> read64 m pte AND VMM_PRESENT = 0 then 0
         else (read64 m pte AND PTE_ADDR_MASK) OR (virt AND (PAGE_SIZE - 1)))"

definition vmm_virt_to_phys_in :: "u64 \<Rightarrow> u64 \<Rightarrow> 'a vmm_scheme \<Rightarrow> u64" where
  "vmm_virt_to_phys_in pml4_phys virt s = virt_to_phys (mem s) pml4_phys virt"

definition vmm_virt_to_phys :: "u64 \<Rightarrow> 'a vmm_scheme \<Rightarrow> u64" where
  "vmm_virt_to_phys virt s = vmm_virt_to_phys_in (read_cr3 s) virt s"

definition vmm_flags :: "u64 \<Rightarrow> 'a vmm_scheme \<Rightarrow> u64" where
  "vmm_flags virt s =
     (let pte = find_pte (mem s) (read_cr3 s) virt
      in if pte = 0 \<or> read64 (mem s) pte AND VMM_PRESENT = 0 then 0
         else read64 (mem s) pte AND NOT PTE_ADDR_MASK)"

definition vmm_kernel_pml4 :: "'a vmm_scheme \<Rightarrow> u64" where
  "vmm_kernel_pml4 s = kernel_pml4_phys s"

definition vmm_create_user_pml4 :: "'a vmm_scheme \<Rightarrow> (u64 \<times> 'a vmm_scheme) or_panic" where
  "vmm_create_user_pml4 s =
     kbind (new_table s) (\<lambda>(root, s1).
       let copy = (\<lambda>i m. write64 m (table_slot root (word_of_nat i))
                           (read64 m (table_slot (kernel_pml4 s1) (word_of_nat i))));
           clear = (\<lambda>i m. write64 m (table_slot root (word_of_nat i)) 0)
       in Inr (root, s1\<lparr>mem := fold clear [1..<256] (fold copy [0..<512] (mem s1))\<rparr>))"

text \<open>\<open>vmm_init\<close> reads the LAPIC base that \<open>acpi.c\<close> found; it is the argument \<open>lapic_base\<close>.\<close>

definition vmm_init :: "BootInfo \<Rightarrow> u64 \<Rightarrow> 'a vmm_scheme \<Rightarrow> 'a vmm_scheme or_panic" where
  "vmm_init bi lapic_base s =
     kbind (new_table s) (\<lambda>(table, s0).
     let s1 = s0\<lparr>kernel_pml4 := table, kernel_pml4_phys := table\<rparr>;
         phys_limit = pmm_total_pages s1 * PAGE_SIZE
     in kbind (vmm_map 0 0 phys_limit VMM_WRITE s1) (\<lambda>(r1, s2).
     if r1 < 0 then panic ''VMM: identity map failed''
     else
     let fb = framebuffer bi
     in kbind (if fb_base fb \<noteq> 0 \<and> fb_width fb \<noteq> 0 \<and> fb_height fb \<noteq> 0
               then vmm_map (fb_base fb) (fb_base fb)
                      (ucast (pixels_per_scanline fb) * ucast (fb_height fb) * 4) (VMM_WRITE OR VMM_NX) s2
               else Inr (0, s2)) (\<lambda>(r2, s3).
     if r2 < 0 then panic ''VMM: framebuffer map failed''
     else kbind (if lapic_base \<noteq> 0
                 then vmm_map lapic_base lapic_base PAGE_SIZE (VMM_WRITE OR VMM_NX) s3
                 else Inr (0, s3)) (\<lambda>(r3, s4).
     if r3 < 0 then panic ''VMM: LAPIC map failed''
     else Inr (write_cr3 (kernel_pml4_phys s4) s4)))))"

definition vmm_self_test :: "BootInfo \<Rightarrow> 'a vmm_scheme \<Rightarrow> 'a vmm_scheme or_panic" where
  "vmm_self_test bi s =
     (if vmm_virt_to_phys (kernel_base bi) s \<noteq> kernel_base bi
      then panic ''VMM: kernel identity translation failed''
      else
        let (addr, s1) = pmm_alloc_page s
        in if addr = 0 then panic ''VMM: self-test alloc failed''
           else kbind (vmm_map addr addr PAGE_SIZE (VMM_WRITE OR VMM_NX) s1) (\<lambda>(r1, s2).
             if r1 < 0 then panic ''VMM: self-test map failed''
             else if vmm_virt_to_phys addr s2 \<noteq> addr then panic ''VMM: self-test translation failed''
             else kbind (vmm_unmap addr PAGE_SIZE s2) (\<lambda>s3.
               if vmm_virt_to_phys addr s3 \<noteq> 0 then panic ''VMM: self-test unmap failed''
               else kbind (vmm_map addr addr PAGE_SIZE (VMM_WRITE OR VMM_NX) s3) (\<lambda>(r2, s4).
                 if r2 < 0 then panic ''VMM: self-test remap failed''
                 else Inr (pmm_free_page addr s4)))))"

end
