(* ===== verification/Vmm_Tables.thy ===== *)
theory Vmm_Tables
  imports Vmm "HOL-Library.Sublist"
begin

text \<open>
  The page tables of \<open>Vmm\<close> as trees. \<open>walk m root q\<close> follows the path \<open>q\<close> of table indices from the
  top-level table \<open>root\<close>; \<open>entry_of m root v\<close> is the present entry that maps the page of \<open>v\<close>, the
  abstraction that the operations act on. \<open>vm_ok root s\<close> is the invariant of an address space: the
  tables are page aligned, none of them is a free frame, no table is reached by two paths, and a
  present entry of the three upper levels leads to a table.

  \<open>grows root T s s'\<close> bounds what an operation on the tables may change: the memory of frames that
  were free or belong to \<open>T\<close>, the frame allocator, and new tables in frames that were free. The
  operations of \<open>vmm.c\<close> are shown to act on \<open>entry_of\<close> as \<open>put_pages\<close>, \<open>clear_pages\<close> and
  \<open>reflag_pages\<close>. \<open>unless_full\<close> reads: unless the machine stops for want of a frame for a table.
\<close>

subsection \<open>Definitions\<close>

definition frame_of :: "u64 \<Rightarrow> nat" where
  "frame_of a = unat a div 4096"

fun walk :: "memory \<Rightarrow> u64 \<Rightarrow> u64 list \<Rightarrow> u64" where
  "walk m t [] = t"
| "walk m t (i # q) = (let c = find_table m t i in if c = 0 then 0 else walk m c q)"

definition path :: "u64 list \<Rightarrow> bool" where
  "path q \<longleftrightarrow> length q \<le> 3 \<and> (\<forall>i \<in> set q. i < 512)"

definition ix :: "u64 \<Rightarrow> u64 list" where
  "ix v = [pml4_i v, pdpt_i v, pd_i v]"

definition entry_of :: "memory \<Rightarrow> u64 \<Rightarrow> u64 \<Rightarrow> u64 option" where
  "entry_of m root v =
     (let pte = find_pte m root v
      in if pte = 0 \<or> read64 m pte AND VMM_PRESENT = 0 then None else Some (read64 m pte))"

definition tree_ok :: "memory \<Rightarrow> u64 \<Rightarrow> bool" where
  "tree_ok m root \<longleftrightarrow> root \<noteq> 0
     \<and> (\<forall>q. path q \<longrightarrow> walk m root q \<noteq> 0 \<longrightarrow> 4096 dvd unat (walk m root q))
     \<and> (\<forall>q r. path q \<longrightarrow> path r \<longrightarrow> walk m root q \<noteq> 0 \<longrightarrow> walk m root q = walk m root r \<longrightarrow> q = r)
     \<and> (\<forall>q i. path (q @ [i]) \<longrightarrow> walk m root q \<noteq> 0 \<longrightarrow>
          read64 m (table_slot (walk m root q) i) AND VMM_PRESENT \<noteq> 0 \<longrightarrow> find_table m (walk m root q) i \<noteq> 0)"

definition vm_ok :: "u64 \<Rightarrow> 'a vmm_scheme \<Rightarrow> bool" where
  "vm_ok root s \<longleftrightarrow> pmm_ok s \<and> tree_ok (mem s) root
     \<and> (\<forall>q. path q \<longrightarrow> walk (mem s) root q \<noteq> 0 \<longrightarrow>
          frame_of (walk (mem s) root q) < unat (total_page_count s) \<and> frame_of (walk (mem s) root q) \<notin> free_frames s)"

definition only_pmm :: "'a vmm_scheme \<Rightarrow> 'a vmm_scheme \<Rightarrow> bool" where
  "only_pmm s s' \<longleftrightarrow>
     (\<exists>m bm f u. s' = s\<lparr>mem := m, bitmap := bm, free_page_count := f, used_page_count := u\<rparr>)"

definition grows :: "u64 \<Rightarrow> nat set \<Rightarrow> 'a vmm_scheme \<Rightarrow> 'a vmm_scheme \<Rightarrow> bool" where
  "grows root T s s' \<longleftrightarrow> vm_ok root s' \<and> only_pmm s s' \<and> free_frames s' \<subseteq> free_frames s
     \<and> (\<forall>a. frame_of a \<notin> free_frames s \<union> T \<longrightarrow> mem s' a = mem s a)
     \<and> (\<forall>q. path q \<longrightarrow> walk (mem s') root q = walk (mem s) root q
            \<or> walk (mem s) root q = 0 \<and> frame_of (walk (mem s') root q) \<in> free_frames s)"

definition touched :: "memory \<Rightarrow> u64 \<Rightarrow> u64 \<Rightarrow> nat set" where
  "touched m root v = {frame_of (walk m root q) | q. prefix q (ix v) \<and> walk m root q \<noteq> 0}"

text \<open>The one way the page-table code stops the machine: no frame is left for a table.\<close>

definition unless_full :: "('a \<Rightarrow> bool) \<Rightarrow> 'a or_panic \<Rightarrow> bool" where
  "unless_full P r \<longleftrightarrow> (case r of Inl h \<Rightarrow> h = Panic ''VMM: no page table memory'' | Inr x \<Rightarrow> P x)"

text \<open>
  A table entry whose table is still missing gets a fresh, empty table: the table \<open>c\<close>, taken from the
  free frames, becomes the child of the table at \<open>p\<close> under the index \<open>i\<close>.
\<close>

definition adds_child :: "u64 \<Rightarrow> u64 list \<Rightarrow> u64 \<Rightarrow> u64 \<Rightarrow> u64 \<Rightarrow> 'a vmm_scheme \<Rightarrow> 'a vmm_scheme \<Rightarrow> bool" where
  "adds_child root p i c e s s2 \<longleftrightarrow> vm_ok root s \<and> path (p @ [i]) \<and> walk (mem s) root p \<noteq> 0
     \<and> walk (mem s) root (p @ [i]) = 0
     \<and> c \<noteq> 0 \<and> 4096 dvd unat c \<and> frame_of c < unat (total_page_count s) \<and> frame_of c \<in> free_frames s
     \<and> free_frames s2 = free_frames s - {frame_of c} \<and> pmm_ok s2 \<and> only_pmm s s2
     \<and> mem s2 = write64 (\<lambda>a. if frame_of a = frame_of c then 0 else mem s a) (table_slot (walk (mem s) root p) i) e
     \<and> e AND VMM_PRESENT \<noteq> 0 \<and> e AND PTE_ADDR_MASK = c"

definition reached :: "u64 \<Rightarrow> u64 \<Rightarrow> 'a vmm_scheme \<Rightarrow> u64 list \<Rightarrow> u64 \<times> 'a vmm_scheme \<Rightarrow> bool" where
  "reached root v s q r \<longleftrightarrow> (case r of (c, s1) \<Rightarrow> c \<noteq> 0 \<and> walk (mem s1) root q = c
     \<and> grows root (touched (mem s) root v) s s1 \<and> entry_of (mem s1) root = entry_of (mem s) root)"

definition same_page :: "u64 \<Rightarrow> u64 \<Rightarrow> bool" where
  "same_page v w \<longleftrightarrow> ix v = ix w \<and> pt_i v = pt_i w"

fun put_pages :: "u64 \<Rightarrow> u64 list \<Rightarrow> u64 \<Rightarrow> (u64 \<Rightarrow> u64 option) \<Rightarrow> u64 \<Rightarrow> u64 option" where
  "put_pages flags [] phys E = E"
| "put_pages flags (a # as) phys E =
     put_pages flags as (phys + PAGE_SIZE) (\<lambda>w. if same_page a w then Some (leaf_entry phys flags) else E w)"

definition protect_entry :: "u64 \<Rightarrow> u64 \<Rightarrow> u64" where
  "protect_entry flags e = leaf_entry e flags"

definition page_no :: "u64 \<Rightarrow> nat" where
  "page_no v = unat v div 4096 mod 2 ^ 36"

fun clear_pages :: "u64 list \<Rightarrow> (u64 \<Rightarrow> u64 option) \<Rightarrow> u64 \<Rightarrow> u64 option" where
  "clear_pages [] E = E"
| "clear_pages (a # as) E = clear_pages as (\<lambda>w. if same_page a w then None else E w)"

fun reflag_pages :: "u64 \<Rightarrow> u64 list \<Rightarrow> (u64 \<Rightarrow> u64 option) \<Rightarrow> cint \<times> (u64 \<Rightarrow> u64 option)" where
  "reflag_pages flags [] E = (0, E)"
| "reflag_pages flags (a # as) E =
     (case E a of
        None \<Rightarrow> (-1, E)
      | Some e \<Rightarrow> reflag_pages flags as (\<lambda>w. if same_page a w then Some (leaf_entry e flags) else E w))"

subsection \<open>Slots\<close>

lemma aligned_frame: "4096 dvd unat t \<Longrightarrow> unat t = frame_of t * 4096"
  by (simp add: frame_of_def)

lemma frame_bound: "(frame_of t + 1) * 4096 \<le> 2 ^ 64"
proof -
  have "frame_of t < 4503599627370496"
    using unat_u64_less [of t] unfolding frame_of_def by (simp add: less_mult_imp_div_less)
  then show ?thesis by simp
qed

lemma unat_8_idx: "(i::u64) < 512 \<Longrightarrow> unat (8 * i) = 8 * unat i"
  by (subst unat_mult_exact) (simp_all add: word_less_nat_alt)

lemma unat_slot:
  assumes "4096 dvd unat t" "i < 512"
  shows "unat (table_slot t i) = unat t + 8 * unat i"
proof -
  have "unat t + 4096 \<le> 2 ^ 64" using frame_bound [of t] unfolding aligned_frame [OF assms(1)] by simp
  then show ?thesis using assms(2) unat_8_idx [OF assms(2)]
    by (simp add: table_slot_def word_less_nat_alt unat_add_exact)
qed

lemma slot_bounds:
  assumes "4096 dvd unat t" "i < 512"
  shows "frame_of (table_slot t i) = frame_of t" "8 dvd unat (table_slot t i)"
    "unat (table_slot t i) + 8 \<le> (frame_of t + 1) * 4096" "frame_of t * 4096 \<le> unat (table_slot t i)"
proof -
  obtain k where k: "unat t = 4096 * k" using assms(1) by (auto elim: dvdE)
  have i: "unat i < 512" using assms(2) by (simp add: word_less_nat_alt)
  note u = unat_slot [OF assms]
  have f: "frame_of t = k" using k by (simp add: frame_of_def)
  have b: "unat (table_slot t i) < (k + 1) * 4096" "k * 4096 \<le> unat (table_slot t i)" using u k i by simp_all
  then have "unat (table_slot t i) div 4096 = k" by (intro div_nat_eqI) simp_all
  then show "frame_of (table_slot t i) = frame_of t" using f by (simp add: frame_of_def)
  have "unat (table_slot t i) = 8 * (512 * k + unat i)" using u k by simp
  then show "8 dvd unat (table_slot t i)" by simp
  show "unat (table_slot t i) + 8 \<le> (frame_of t + 1) * 4096" using u k i f by simp
  show "frame_of t * 4096 \<le> unat (table_slot t i)" using b f by simp
qed

lemma frame_of_inj: "4096 dvd unat t \<Longrightarrow> 4096 dvd unat u \<Longrightarrow> frame_of t = frame_of u \<Longrightarrow> t = u"
  by (metis aligned_frame word_unat_eq_iff)

lemma slot_inj:
  assumes "4096 dvd unat t" "i < 512" "4096 dvd unat u" "j < 512" "table_slot t i = table_slot u j"
  shows "t = u \<and> i = j"
proof -
  have "frame_of t = frame_of u" using assms slot_bounds(1) by metis
  then have "t = u" using assms frame_of_inj by blast
  with assms unat_slot [of t i] unat_slot [of t j] show ?thesis by (simp add: word_unat_eq_iff)
qed

lemma slot_nonzero: "4096 dvd unat t \<Longrightarrow> i < 512 \<Longrightarrow> t \<noteq> 0 \<Longrightarrow> table_slot t i \<noteq> 0"
  using unat_slot [of t i] by (auto simp: unat_eq_zero [symmetric])

lemma read_slot_agree:
  assumes "4096 dvd unat t" "i < 512" "\<And>a. frame_of a = frame_of t \<Longrightarrow> m a = m' a"
  shows "read64 m (table_slot t i) = read64 m' (table_slot t i)"
proof (rule read64_agree)
  note b = slot_bounds [OF assms(1,2)]
  show "unat (table_slot t i) + 8 \<le> 2 ^ 64" using b(3) frame_bound [of t] by linarith
  fix x :: u64 assume x: "unat (table_slot t i) \<le> unat x" "unat x < unat (table_slot t i) + 8"
  then have "frame_of t * 4096 \<le> unat x" "unat x < (frame_of t + 1) * 4096" using b(3,4) by linarith+
  then have "unat x div 4096 = frame_of t" by (intro div_nat_eqI) simp_all
  then show "m x = m' x" by (intro assms(3)) (simp add: frame_of_def)
qed

lemma write_slot_elsewhere:
  assumes "4096 dvd unat t" "i < 512" "frame_of a \<noteq> frame_of t"
  shows "write64 m (table_slot t i) v a = m a"
proof (rule write64_elsewhere)
  note b = slot_bounds [OF assms(1,2)]
  show "unat (table_slot t i) + 8 \<le> 2 ^ 64" using b(3) frame_bound [of t] by linarith
  show "\<not> (unat (table_slot t i) \<le> unat a \<and> unat a < unat (table_slot t i) + 8)"
  proof
    assume x: "unat (table_slot t i) \<le> unat a \<and> unat a < unat (table_slot t i) + 8"
    then have "frame_of t * 4096 \<le> unat a" "unat a < (frame_of t + 1) * 4096" using b(3,4) by linarith+
    then have "unat a div 4096 = frame_of t" by (intro div_nat_eqI) simp_all
    with assms(3) show False by (simp add: frame_of_def)
  qed
qed

lemma read_slot_write:
  assumes "4096 dvd unat t" "i < 512" "4096 dvd unat u" "j < 512"
  shows "read64 (write64 m (table_slot u j) v) (table_slot t i) =
    (if t = u \<and> i = j then v else read64 m (table_slot t i))"
proof (cases "table_slot u j = table_slot t i")
  case True
  with assms slot_inj [of u j t i] show ?thesis by auto
next
  case False
  then have ne: "\<not> (t = u \<and> i = j)" by blast
  have "read64 (write64 m (table_slot u j) v) (table_slot t i) = read64 m (table_slot t i)"
    using False assms slot_bounds(2) by (intro read64_write64_other) blast+
  then show ?thesis by (simp only: ne if_False)
qed

subsection \<open>Walks\<close>

lemma walk_snoc:
  "t \<noteq> 0 \<Longrightarrow> walk m t (q @ [i]) = (if walk m t q = 0 then 0 else find_table m (walk m t q) i)"
  by (induction q arbitrary: t) (simp_all add: Let_def)

lemma path_Nil [simp]: "path []"
  by (simp add: path_def)

lemma path_snoc: "path (q @ [i]) \<longleftrightarrow> path q \<and> length q \<le> 2 \<and> i < 512"
  by (auto simp: path_def)

lemma pte_index_less [simp]:
  "pml4_i v < 512" "pdpt_i v < 512" "pd_i v < 512" "pt_i v < 512"
proof -
  have "y AND 0x1ff < (512::u64)" for y by (rule le_less_trans [OF word_and_le1]) simp
  then show "pml4_i v < 512" "pdpt_i v < 512" "pd_i v < 512" "pt_i v < 512"
    by (simp_all only: pml4_i_def pdpt_i_def pd_i_def pt_i_def)
qed

lemma path_ix [simp]: "path (ix v)"
  by (simp add: path_def ix_def)

lemma find_pte_walk:
  "root \<noteq> 0 \<Longrightarrow> find_pte m root v = (if walk m root (ix v) = 0 then 0 else table_slot (walk m root (ix v)) (pt_i v))"
  by (simp add: find_pte_def ix_def Let_def)

lemma walk_same:
  assumes "root \<noteq> 0"
    and "\<And>q i. path (q @ [i]) \<Longrightarrow> walk m root q \<noteq> 0 \<Longrightarrow> find_table m' (walk m root q) i = find_table m (walk m root q) i"
    and "path q"
  shows "walk m' root q = walk m root q"
  using assms(3)
proof (induction q rule: rev_induct)
  case (snoc i q)
  then show ?case using assms(1) assms(2) [of q i] by (simp add: walk_snoc path_snoc)
qed simp

lemma walk_new_child:
  assumes tree: "tree_ok m root" and p: "path (p @ [i])" and t: "walk m root p \<noteq> 0"
    and none: "walk m root (p @ [i]) = 0"
    and c: "c \<noteq> 0" "find_table m' (walk m root p) i = c" "\<And>j. j < 512 \<Longrightarrow> find_table m' c j = 0"
    and other: "\<And>q j. path (q @ [j]) \<Longrightarrow> walk m root q \<noteq> 0 \<Longrightarrow> (q, j) \<noteq> (p, i) \<Longrightarrow>
      find_table m' (walk m root q) j = find_table m (walk m root q) j"
    and "path q"
  shows "walk m' root q = (if q = p @ [i] then c else walk m root q)"
  using assms(9)
proof (induction q rule: rev_induct)
  case Nil
  then show ?case by simp
next
  case (snoc j q)
  have root: "root \<noteq> 0" using tree by (simp add: tree_ok_def)
  from snoc.prems have q: "path q" "length q \<le> 2" "j < 512" by (simp_all add: path_snoc)
  note IH = snoc.IH [OF q(1)]
  show ?case
  proof (cases "q = p @ [i]")
    case True
    then have "walk m' root q = c" "walk m root q = 0" using IH none by simp_all
    then have "walk m' root (q @ [j]) = 0" "walk m root (q @ [j]) = 0"
      using root c q by (simp_all add: walk_snoc)
    with True show ?thesis by simp
  next
    case False
    with IH have IH: "walk m' root q = walk m root q" by simp
    show ?thesis
    proof (cases "(q, j) = (p, i)")
      case True
      with IH root t c show ?thesis by (simp add: walk_snoc)
    next
      case ne: False
      with IH root other [OF snoc.prems _ ne] show ?thesis by (auto simp: walk_snoc)
    qed
  qed
qed

lemma only_pmmI: "only_pmm s (s\<lparr>mem := m, bitmap := bm, free_page_count := f, used_page_count := u\<rparr>)"
  unfolding only_pmm_def by blast

lemma only_pmm_mem [simp]: "only_pmm s (s\<lparr>mem := m\<rparr>)"
  using only_pmmI [where s = s and m = m and bm = "bitmap s" and f = "free_page_count s" and u = "used_page_count s"]
  by simp

lemma only_pmm_refl [simp]: "only_pmm s s"
  using only_pmm_mem [of s "mem s"] by simp

lemma only_pmm_trans [trans]: "only_pmm s s1 \<Longrightarrow> only_pmm s1 s2 \<Longrightarrow> only_pmm s s2"
proof -
  assume "only_pmm s s1" "only_pmm s1 s2"
  then obtain m bm f u n cm g v
    where "s1 = s\<lparr>mem := m, bitmap := bm, free_page_count := f, used_page_count := u\<rparr>"
      and "s2 = s1\<lparr>mem := n, bitmap := cm, free_page_count := g, used_page_count := v\<rparr>"
    unfolding only_pmm_def by blast
  then have "s2 = s\<lparr>mem := n, bitmap := cm, free_page_count := g, used_page_count := v\<rparr>" by simp
  then show ?thesis unfolding only_pmm_def by blast
qed

lemma only_pmm_fields:
  assumes "only_pmm s s'"
  shows "total_page_count s' = total_page_count s" "kernel_pml4 s' = kernel_pml4 s"
    "kernel_pml4_phys s' = kernel_pml4_phys s" "cr3 s' = cr3 s"
  using assms by (auto simp: only_pmm_def)

lemma grows_refl: "vm_ok root s \<Longrightarrow> grows root T s s"
  by (simp add: grows_def)

lemma growsD:
  assumes "grows root T s s'"
  shows "vm_ok root s'" "only_pmm s s'" "free_frames s' \<subseteq> free_frames s"
    "frame_of a \<notin> free_frames s \<union> T \<Longrightarrow> mem s' a = mem s a"
    "path q \<Longrightarrow> walk (mem s') root q = walk (mem s) root q
       \<or> walk (mem s) root q = 0 \<and> frame_of (walk (mem s') root q) \<in> free_frames s"
  using assms unfolding grows_def by blast+

lemma grows_trans:
  assumes a: "grows root T s s1" and b: "grows root T' s1 s2" and "T' \<subseteq> T \<union> free_frames s"
  shows "grows root T s s2"
  unfolding grows_def
proof (intro conjI allI impI)
  show "vm_ok root s2" by (rule growsD [OF b])
  show "only_pmm s s2" using growsD(2) [OF a] growsD(2) [OF b] by (rule only_pmm_trans)
  show "free_frames s2 \<subseteq> free_frames s" using growsD(3) [OF a] growsD(3) [OF b] by blast
  fix x assume x: "frame_of x \<notin> free_frames s \<union> T"
  then have "frame_of x \<notin> free_frames s1 \<union> T'" using growsD(3) [OF a] assms(3) by blast
  with growsD(4) [OF a x] growsD(4) [OF b] show "mem s2 x = mem s x" by metis
next
  fix q assume q: "path q"
  show "walk (mem s2) root q = walk (mem s) root q
      \<or> walk (mem s) root q = 0 \<and> frame_of (walk (mem s2) root q) \<in> free_frames s"
    using growsD(5) [OF a q] growsD(5) [OF b q] growsD(3) [OF a] by (metis subset_iff)
qed

lemma grows_mono: "grows root T s s' \<Longrightarrow> T \<subseteq> T' \<Longrightarrow> grows root T' s s'"
  unfolding grows_def by blast

lemma path_prefix: "prefix q (ix v) \<Longrightarrow> path q"
  using path_ix [of v] by (auto simp: path_def prefix_def)

lemma touched_grows:
  assumes "grows root T s s1"
  shows "touched (mem s1) root v \<subseteq> touched (mem s) root v \<union> free_frames s"
proof
  fix x assume "x \<in> touched (mem s1) root v"
  then obtain q where q: "prefix q (ix v)" "walk (mem s1) root q \<noteq> 0" "x = frame_of (walk (mem s1) root q)"
    by (auto simp: touched_def)
  have "path q" using q(1) by (rule path_prefix)
  then consider "walk (mem s1) root q = walk (mem s) root q" | "frame_of (walk (mem s1) root q) \<in> free_frames s"
    using growsD(5) [OF assms] by blast
  then show "x \<in> touched (mem s) root v \<union> free_frames s"
  proof cases
    case 1
    with q show ?thesis unfolding touched_def by auto
  next
    case 2
    with q show ?thesis by simp
  qed
qed

lemma and_addr_mask:
  assumes "4096 dvd unat c" "frame_of c < 2 ^ 40"
  shows "c AND PTE_ADDR_MASK = c"
proof -
  have M: "PTE_ADDR_MASK = mask 52 AND NOT (mask 12)"
    by (simp add: PTE_ADDR_MASK_def mask_eq_exp_minus_1)
  have "unat (c AND NOT (mask 12)) = unat c" using assms(1) by (simp add: unat_and_not_mask)
  then have a: "c AND NOT (mask 12) = c" by (simp only: unat_eq_iff)
  have "unat c < 2 ^ 52"
    using assms(2) aligned_frame [OF assms(1)] by simp
  then have "take_bit 52 c = c"
    by (simp add: word_unat_eq_iff unsigned_take_bit_eq take_bit_nat_eq_self)
  then have "c AND mask 52 = c" by (simp add: take_bit_eq_mask)
  with a show ?thesis by (metis M and.assoc)
qed

lemma table_entry_addr:
  assumes "4096 dvd unat c" "frame_of c < 2 ^ 40" "fl AND PTE_ADDR_MASK = 0"
  shows "((c AND PTE_ADDR_MASK) OR VMM_PRESENT OR VMM_WRITE OR fl) AND PTE_ADDR_MASK = c"
    and "((c AND PTE_ADDR_MASK) OR VMM_PRESENT OR VMM_WRITE OR fl) AND VMM_PRESENT \<noteq> 0"
proof -
  have "VMM_PRESENT AND PTE_ADDR_MASK = 0" "VMM_WRITE AND PTE_ADDR_MASK = 0"
    by (simp_all add: VMM_PRESENT_def VMM_WRITE_def PTE_ADDR_MASK_def)
  then show "((c AND PTE_ADDR_MASK) OR VMM_PRESENT OR VMM_WRITE OR fl) AND PTE_ADDR_MASK = c"
    using assms by (simp add: bit.conj_disj_distrib2 and_addr_mask)
  show "((c AND PTE_ADDR_MASK) OR VMM_PRESENT OR VMM_WRITE OR fl) AND VMM_PRESENT \<noteq> 0"
    using bit_and_iff [of "(c AND PTE_ADDR_MASK) OR VMM_PRESENT OR VMM_WRITE OR fl" VMM_PRESENT 0]
    by (auto simp: bit_or_iff VMM_PRESENT_def)
qed

lemma unless_full_simps [simp]:
  "unless_full P (Inr x) \<longleftrightarrow> P x" "unless_full P (panic ''VMM: no page table memory'')"
  by (simp_all add: unless_full_def panic_def)

lemma unless_full_bind:
  "unless_full P r \<Longrightarrow> (\<And>x. P x \<Longrightarrow> unless_full Q (f x)) \<Longrightarrow> unless_full Q (kbind r f)"
  by (cases r) (auto simp: unless_full_def)

lemma unless_full_mono: "unless_full P r \<Longrightarrow> (\<And>x. P x \<Longrightarrow> Q x) \<Longrightarrow> unless_full Q r"
  by (auto simp: unless_full_def split: sum.splits)

lemma new_table_result:
  assumes "pmm_ok s"
  shows "unless_full (\<lambda>(c, s1). c \<noteq> 0 \<and> 4096 dvd unat c \<and> frame_of c < unat (total_page_count s)
        \<and> frame_of c \<in> free_frames s \<and> free_frames s1 = free_frames s - {frame_of c} \<and> pmm_ok s1 \<and> only_pmm s s1
        \<and> mem s1 = (\<lambda>a. if frame_of a = frame_of c then 0 else mem s a))
     (new_table s)"
proof -
  obtain c s1 where a: "pmm_alloc_pages 1 s = (c, s1)" by fastforce
  have t52: "unat (total_page_count s) \<le> 2 ^ 52" using assms by (rule pmm_ok_total)
  from a t52 show ?thesis
  proof (cases rule: pmm_alloc_pages_cases)
    case none
    then show ?thesis using a by (simp add: new_table_def pmm_alloc_page_def)
  next
    case (run st)
    have fr: "frame_of c = st" "frames_of c 1 = {st}"
      using run(2,4) by (auto simp: frame_of_def frames_of_def)
    let ?s2 = "s1\<lparr>mem := mem_zero (mem s1) c PAGE_SIZE\<rparr>"
    have zero: "mem_zero (mem s1) c PAGE_SIZE = (\<lambda>a. if frame_of a = st then 0 else mem s a)"
    proof
      fix x
      have "x - c < PAGE_SIZE \<longleftrightarrow> frame_of x = st"
        using in_block_iff [OF run(2), of 1 x] run(5) t52 fr by (simp add: fits_def frame_of_def)
      then show "mem_zero (mem s1) c PAGE_SIZE x = (if frame_of x = st then 0 else mem s x)"
        using alloc_result_mem [OF run(2,5) t52, of x] run(7) fr by (simp add: mem_zero_eq frame_of_def)
    qed
    have free: "free_frames s1 = free_frames s - {st}" "st \<in> free_frames s"
      using alloc_takes_frames [OF assms a run(3)] fr by simp_all
    obtain m bm f u where "s1 = s\<lparr>mem := m, bitmap := bm, free_page_count := f, used_page_count := u\<rparr>"
      using a by (rule pmm_alloc_pages_update)
    then have "only_pmm s s1" unfolding only_pmm_def by blast
    then have "only_pmm s ?s2" by (rule only_pmm_trans) simp
    moreover have "pmm_ok s1" using assms a by (rule pmm_alloc_pages_ok)
    then have "pmm_ok ?s2" by (simp add: pmm_ok_def)
    moreover have "st < unat (total_page_count s)" using run(5) by (simp add: fits_def)
    moreover have "new_table s = Inr (c, ?s2)" using a run(3) by (simp add: new_table_def pmm_alloc_page_def)
    ultimately show ?thesis using run(2,3) fr free zero
by simp
  qed
qed

lemma vm_okD:
  assumes "vm_ok root s"
  shows "pmm_ok s" "tree_ok (mem s) root" "root \<noteq> 0"
    "path q \<Longrightarrow> walk (mem s) root q \<noteq> 0 \<Longrightarrow> 4096 dvd unat (walk (mem s) root q)"
    "path q \<Longrightarrow> walk (mem s) root q \<noteq> 0 \<Longrightarrow> frame_of (walk (mem s) root q) < unat (total_page_count s)"
    "path q \<Longrightarrow> walk (mem s) root q \<noteq> 0 \<Longrightarrow> frame_of (walk (mem s) root q) \<notin> free_frames s"
    "path q \<Longrightarrow> path r \<Longrightarrow> walk (mem s) root q \<noteq> 0 \<Longrightarrow> walk (mem s) root q = walk (mem s) root r \<Longrightarrow> q = r"
    "path (q @ [i]) \<Longrightarrow> walk (mem s) root q \<noteq> 0 \<Longrightarrow>
       read64 (mem s) (table_slot (walk (mem s) root q) i) AND VMM_PRESENT \<noteq> 0 \<Longrightarrow> find_table (mem s) (walk (mem s) root q) i \<noteq> 0"
  using assms unfolding vm_ok_def tree_ok_def by blast+

lemma entry_walk:
  assumes "vm_ok root s"
  shows "entry_of (mem s) root v =
    (let pt = walk (mem s) root (ix v); e = read64 (mem s) (table_slot pt (pt_i v))
     in if pt = 0 \<or> e AND VMM_PRESENT = 0 then None else Some e)"
proof (cases "walk (mem s) root (ix v) = 0")
  case True
  then show ?thesis using vm_okD(3) [OF assms] by (simp add: entry_of_def find_pte_walk)
next
  case False
  then have "table_slot (walk (mem s) root (ix v)) (pt_i v) \<noteq> 0"
    using vm_okD(4) [OF assms path_ix False] by (intro slot_nonzero) simp_all
  with False vm_okD(3) [OF assms] show ?thesis by (simp add: entry_of_def find_pte_walk Let_def)
qed

lemma find_table_cong:
  "read64 m' (table_slot t i) = read64 m (table_slot t i) \<Longrightarrow> find_table m' t i = find_table m t i"
  by (simp add: find_table_def)

lemma read64_zero_frame:
  assumes "4096 dvd unat c" "j < 512" "\<And>a. frame_of a = frame_of c \<Longrightarrow> m a = 0"
  shows "read64 m (table_slot c j) = 0"
proof -
  have "read64 m (table_slot c j) = read64 (\<lambda>_. 0) (table_slot c j)"
    using assms by (intro read_slot_agree) simp_all
  also have "\<dots> = 0" by (simp add: read64_def read_bytes_def numeral_eq_Suc)
  finally show ?thesis .
qed

lemma adds_child_apart:
  assumes "adds_child root p i c e s s2" "path q" "walk (mem s) root q \<noteq> 0"
  shows "4096 dvd unat (walk (mem s) root q)" "frame_of (walk (mem s) root q) \<noteq> frame_of c"
  using assms vm_okD(4,6) [of root s q] unfolding adds_child_def by metis+

lemma adds_child_reads:
  assumes "adds_child root p i c e s s2"
  shows "path q \<Longrightarrow> walk (mem s) root q \<noteq> 0 \<Longrightarrow> j < 512 \<Longrightarrow>
      read64 (mem s2) (table_slot (walk (mem s) root q) j) =
        (if q = p \<and> j = i then e else read64 (mem s) (table_slot (walk (mem s) root q) j))"
    and "j < 512 \<Longrightarrow> read64 (mem s2) (table_slot c j) = 0"
proof -
  let ?m = "\<lambda>a. if frame_of a = frame_of c then 0 else mem s a"
  have ok: "vm_ok root s" and pi: "path p" "i < 512" and t: "walk (mem s) root p \<noteq> 0" and c: "4096 dvd unat c"
    and m2: "mem s2 = write64 ?m (table_slot (walk (mem s) root p) i) e"
    using assms by (simp_all add: adds_child_def path_snoc)
  note apart = adds_child_apart [OF assms] and inj = vm_okD(7) [OF ok]
  show "read64 (mem s2) (table_slot (walk (mem s) root q) j) =
      (if q = p \<and> j = i then e else read64 (mem s) (table_slot (walk (mem s) root q) j))"
    if q: "path q" "walk (mem s) root q \<noteq> 0" "j < 512"
  proof -
    have "read64 ?m (table_slot (walk (mem s) root q) j) = read64 (mem s) (table_slot (walk (mem s) root q) j)"
      using apart [OF q(1,2)] q(3) by (intro read_slot_agree) simp_all
    then show ?thesis
      using apart [OF q(1,2)] apart [OF pi(1) t] q pi inj [OF q(1) pi(1) q(2)]
      by (auto simp: m2 read_slot_write)
  qed
  show "read64 (mem s2) (table_slot c j) = 0" if "j < 512"
    using read64_zero_frame [of c j ?m] that c pi apart [OF pi(1) t] by (auto simp: m2 read_slot_write)
qed

lemma adds_child_walk:
  assumes "adds_child root p i c e s s2" "path q"
  shows "walk (mem s2) root q = (if q = p @ [i] then c else walk (mem s) root q)"
proof -
  have ok: "vm_ok root s" and p: "path (p @ [i])" and t: "walk (mem s) root p \<noteq> 0"
    and none: "walk (mem s) root (p @ [i]) = 0" and c: "c \<noteq> 0" and e: "e AND VMM_PRESENT \<noteq> 0" "e AND PTE_ADDR_MASK = c"
    using assms(1) by (simp_all add: adds_child_def)
  note rd = adds_child_reads [OF assms(1)]
  show ?thesis
  proof (rule walk_new_child [OF vm_okD(2) [OF ok] p t none c])
    show "find_table (mem s2) (walk (mem s) root p) i = c"
      using rd(1) [of p i] p t e by (simp add: find_table_def path_snoc)
    show "find_table (mem s2) c j = 0" if "j < 512" for j using rd(2) [OF that] by (simp add: find_table_def)
    fix q j assume a: "path (q @ [j])" "walk (mem s) root q \<noteq> 0" "(q, j) \<noteq> (p, i)"
    then show "find_table (mem s2) (walk (mem s) root q) j = find_table (mem s) (walk (mem s) root q) j"
      using rd(1) [of q j] by (intro find_table_cong) (auto simp: path_snoc)
  qed (rule assms(2))
qed

lemma adds_child_tree:
  assumes "adds_child root p i c e s s2"
  shows "tree_ok (mem s2) root"
  unfolding tree_ok_def
proof (intro conjI allI impI)
  have ok: "vm_ok root s" and c: "c \<noteq> 0" "4096 dvd unat c" and e: "e AND VMM_PRESENT \<noteq> 0" "e AND PTE_ADDR_MASK = c"
    using assms by (simp_all add: adds_child_def)
  note okD = vm_okD [OF ok] and wk = adds_child_walk [OF assms] and apart = adds_child_apart [OF assms]
  show "root \<noteq> 0" by (rule okD)
  fix q assume q: "path q" "walk (mem s2) root q \<noteq> 0"
  then show "4096 dvd unat (walk (mem s2) root q)"
    using okD(4) [of q] c(2) by (auto simp: wk split: if_splits)
  fix r assume r: "path r" "walk (mem s2) root q = walk (mem s2) root r"
  with q show "q = r"
    using okD(7) [of q r] apart(2) [of q] apart(2) [of r] c(1) by (auto simp: wk split: if_splits)
next
  fix q j assume a: "path (q @ [j])" "walk (mem s2) root q \<noteq> 0"
    "read64 (mem s2) (table_slot (walk (mem s2) root q) j) AND VMM_PRESENT \<noteq> 0"
  have ok: "vm_ok root s" and c: "c \<noteq> 0" and e: "e AND VMM_PRESENT \<noteq> 0" "e AND PTE_ADDR_MASK = c"
    using assms by (simp_all add: adds_child_def)
  have q: "path q" "j < 512" using a(1) by (simp_all add: path_snoc)
  note rd = adds_child_reads [OF assms] and wk = adds_child_walk [OF assms q(1)]
  show "find_table (mem s2) (walk (mem s2) root q) j \<noteq> 0"
  proof (cases "q = p @ [i]")
    case True
    with a(3) rd(2) [OF q(2)] wk show ?thesis by simp
  next
    case False
    with wk a(2,3) rd(1) [OF q(1) _ q(2)] vm_okD(8) [OF ok a(1)] c e show ?thesis
      by (auto simp: find_table_def split: if_splits)
  qed
qed

lemma adds_child_vm_ok:
  assumes "adds_child root p i c e s s2"
  shows "vm_ok root s2"
proof -
  have ok: "vm_ok root s" and c: "frame_of c < unat (total_page_count s)" and o: "only_pmm s s2" and p2: "pmm_ok s2"
    and f: "free_frames s2 = free_frames s - {frame_of c}"
    using assms by (simp_all add: adds_child_def)
  have "frame_of (walk (mem s2) root q) < unat (total_page_count s2) \<and> frame_of (walk (mem s2) root q) \<notin> free_frames s2"
    if "path q" "walk (mem s2) root q \<noteq> 0" for q
    using that vm_okD(5,6) [OF ok, of q] c f only_pmm_fields(1) [OF o]
    by (auto simp: adds_child_walk [OF assms] split: if_splits)
  with p2 adds_child_tree [OF assms] show ?thesis unfolding vm_ok_def by blast
qed

lemma adds_child_entries:
  assumes "adds_child root p i c e s s2"
  shows "entry_of (mem s2) root v = entry_of (mem s) root v"
proof -
  have ok: "vm_ok root s" and none: "walk (mem s) root (p @ [i]) = 0" and p: "length p \<le> 2"
    using assms by (simp_all add: adds_child_def path_snoc)
  note wk = adds_child_walk [OF assms path_ix, of v] and rd = adds_child_reads [OF assms]
  have "ix v \<noteq> p" using p by (auto simp: ix_def)
  then show ?thesis
    using none wk rd(2) [of "pt_i v"] rd(1) [OF path_ix _ pte_index_less(4), of v v]
    by (cases "ix v = p @ [i]") (auto simp: entry_walk [OF ok] entry_walk [OF adds_child_vm_ok [OF assms]] Let_def)
qed

lemma adds_child_grows:
  assumes "adds_child root p i c e s s2"
  shows "grows root {frame_of (walk (mem s) root p)} s s2"
  unfolding grows_def
proof (intro conjI allI impI)
  show "vm_ok root s2" using assms by (rule adds_child_vm_ok)
  have t: "path p" "i < 512" "walk (mem s) root p \<noteq> 0" and m2: "mem s2 = write64 (\<lambda>a. if frame_of a = frame_of c then 0 else mem s a) (table_slot (walk (mem s) root p) i) e"
    and none: "walk (mem s) root (p @ [i]) = 0" and cf: "frame_of c \<in> free_frames s"
    using assms by (simp_all add: adds_child_def path_snoc)
  show "only_pmm s s2" "free_frames s2 \<subseteq> free_frames s" using assms by (auto simp: adds_child_def)
  show "mem s2 a = mem s a" if "frame_of a \<notin> free_frames s \<union> {frame_of (walk (mem s) root p)}" for a
    using that cf write_slot_elsewhere [OF adds_child_apart(1) [OF assms t(1,3)] t(2)] by (auto simp: m2)
  show "walk (mem s2) root q = walk (mem s) root q \<or> walk (mem s) root q = 0 \<and> frame_of (walk (mem s2) root q) \<in> free_frames s"
    if "path q" for q
    using none cf by (simp add: adds_child_walk [OF assms that])
qed

lemma next_table_adds:
  assumes ok: "vm_ok root s" and p: "path (p @ [i])" "walk (mem s) root p \<noteq> 0" and fl: "fl AND PTE_ADDR_MASK = 0"
    and absent: "read64 (mem s) (table_slot (walk (mem s) root p) i) AND VMM_PRESENT = 0" and n: "new_table s = Inr (c, s1)"
  obtains e m where "next_table (walk (mem s) root p) i True fl s = Inr (c, s1\<lparr>mem := m\<rparr>)"
    "adds_child root p i c e s (s1\<lparr>mem := m\<rparr>)"
proof -
  from new_table_result [OF vm_okD(1) [OF ok]] n
  have c: "c \<noteq> 0" "4096 dvd unat c" "frame_of c < unat (total_page_count s)" "frame_of c \<in> free_frames s"
    and s1: "free_frames s1 = free_frames s - {frame_of c}" "pmm_ok s1" "only_pmm s s1"
      "mem s1 = (\<lambda>a. if frame_of a = frame_of c then 0 else mem s a)" by simp_all
  let ?e = "(c AND PTE_ADDR_MASK) OR VMM_PRESENT OR VMM_WRITE OR fl"
  let ?s2 = "s1\<lparr>mem := write64 (mem s1) (table_slot (walk (mem s) root p) i) ?e\<rparr>"
  have none: "walk (mem s) root (p @ [i]) = 0"
    using absent vm_okD(3) [OF ok] by (simp add: walk_snoc find_table_def)
  have "frame_of c < 2 ^ 40" using c(3) pmm_ok_total40 [OF vm_okD(1) [OF ok]] by linarith
  note e = table_entry_addr [OF c(2) this fl]
  have "only_pmm s ?s2" using s1(3) by (rule only_pmm_trans) simp
  then have "adds_child root p i c ?e s ?s2"
    using ok p none c s1 e by (simp add: adds_child_def pmm_ok_def)
  moreover have "next_table (walk (mem s) root p) i True fl s = Inr (c, ?s2)"
    using absent n e(1) by (simp add: next_table_def Let_def)
  ultimately show thesis using that by blast
qed

lemma next_table_present:
  assumes ok: "vm_ok root s" and p: "path (p @ [i])" "walk (mem s) root p \<noteq> 0"
    and pres: "read64 (mem s) (table_slot (walk (mem s) root p) i) AND VMM_PRESENT \<noteq> 0"
  shows "next_table (walk (mem s) root p) i True fl s = Inr (walk (mem s) root (p @ [i]), s)" "walk (mem s) root (p @ [i]) \<noteq> 0"
  using vm_okD(3,8) [OF ok] p pres by (simp_all add: next_table_def Let_def walk_snoc find_table_def)

lemma next_table_grows:
  assumes ok: "vm_ok root s" and p: "path (p @ [i])" "walk (mem s) root p \<noteq> 0" and fl: "fl AND PTE_ADDR_MASK = 0"
  shows "unless_full (\<lambda>(c, s'). c \<noteq> 0 \<and> walk (mem s') root (p @ [i]) = c
      \<and> grows root {frame_of (walk (mem s) root p)} s s' \<and> entry_of (mem s') root = entry_of (mem s) root)
    (next_table (walk (mem s) root p) i True fl s)"
proof (cases "read64 (mem s) (table_slot (walk (mem s) root p) i) AND VMM_PRESENT = 0")
  case False
  then show ?thesis using next_table_present [OF ok p] grows_refl [OF ok] by simp
next
  case absent: True
  show ?thesis
  proof (cases "new_table s")
    case (Inl h)
    then have "h = Panic ''VMM: no page table memory''"
      using new_table_result [OF vm_okD(1) [OF ok]] by (simp add: unless_full_def)
    with Inl absent show ?thesis by (simp add: next_table_def unless_full_def)
  next
    case (Inr x)
    then obtain c s1 where "new_table s = Inr (c, s1)" by (cases x) simp
    from next_table_adds [OF ok p fl absent this] obtain e s2
      where "next_table (walk (mem s) root p) i True fl s = Inr (c, s2)" and add: "adds_child root p i c e s s2"
      by metis
    moreover have "c \<noteq> 0" using add by (simp add: adds_child_def)
    moreover have "entry_of (mem s2) root = entry_of (mem s) root" using adds_child_entries [OF add] by blast
    ultimately show ?thesis using adds_child_walk [OF add p(1)] adds_child_grows [OF add] by simp
  qed
qed

lemma touched_prefix:
  assumes "grows root T s s1" "prefix q (ix v)" "walk (mem s1) root q \<noteq> 0"
  shows "{frame_of (walk (mem s1) root q)} \<subseteq> touched (mem s) root v \<union> free_frames s"
  using touched_grows [OF assms(1), of v] assms(2,3) unfolding touched_def by blast

lemma reached_root: "vm_ok root s \<Longrightarrow> reached root v s [] (root, s)"
  using vm_okD(3) [of root s] grows_refl [of root s] by (simp add: reached_def)

lemma reached_next:
  assumes r: "reached root v s q (t, s1)" and q: "prefix q (ix v)" "path (q @ [i])" and fl: "fl AND PTE_ADDR_MASK = 0"
  shows "unless_full (reached root v s (q @ [i])) (next_table t i True fl s1)"
proof -
  from r have t: "t = walk (mem s1) root q" "walk (mem s1) root q \<noteq> 0" and g: "grows root (touched (mem s) root v) s s1"
    and e: "entry_of (mem s1) root = entry_of (mem s) root"
    by (simp_all add: reached_def)
  show ?thesis
    unfolding t(1)
    by (rule unless_full_mono [OF next_table_grows [OF growsD(1) [OF g] q(2) t(2) fl]])
      (use e grows_trans [OF g _ touched_prefix [OF g q(1) t(2)]] in \<open>auto simp: reached_def\<close>)
qed

lemma pte_for_root_grows:
  assumes ok: "vm_ok root s" and fl: "fl AND PTE_ADDR_MASK = 0"
  shows "unless_full (\<lambda>(pte, s'). pte = table_slot (walk (mem s') root (ix v)) (pt_i v)
      \<and> walk (mem s') root (ix v) \<noteq> 0 \<and> grows root (touched (mem s) root v) s s'
      \<and> entry_of (mem s') root = entry_of (mem s) root)
    (pte_for_root root v True fl s)" (is "unless_full ?Q _")
proof -
  let ?f3 = "\<lambda>(pt, s3). if pt = 0 then Inr (0, s3) else Inr (table_slot pt (pt_i v), s3)"
  let ?f2 = "\<lambda>(pd, s2). if pd = 0 then Inr (0, s2) else kbind (next_table pd (pd_i v) True fl s2) ?f3"
  let ?f1 = "\<lambda>(pdpt, s1). if pdpt = 0 then Inr (0, s1) else kbind (next_table pdpt (pdpt_i v) True fl s1) ?f2"
  have nz: "fst x \<noteq> 0" if "reached root v s q x" for q and x :: "u64 \<times> 'a vmm_scheme"
    using that by (auto simp: reached_def)
  have f3: "unless_full ?Q (?f3 x)" if "reached root v s ([pml4_i v, pdpt_i v] @ [pd_i v]) x" for x :: "u64 \<times> 'a vmm_scheme"
    using that by (auto simp: reached_def ix_def)
  have f2: "unless_full ?Q (?f2 x)" if "reached root v s ([pml4_i v] @ [pdpt_i v]) x" for x :: "u64 \<times> 'a vmm_scheme"
  proof -
    have "unless_full ?Q (kbind (next_table (fst x) (pd_i v) True fl (snd x)) ?f3)"
      by (rule unless_full_bind [OF reached_next [of root v s "[pml4_i v, pdpt_i v]"]])
        (erule f3 | use that fl in \<open>simp add: path_def ix_def\<close>)+
    with nz [OF that] show ?thesis by (simp add: split_beta)
  qed
  have f1: "unless_full ?Q (?f1 x)" if "reached root v s ([] @ [pml4_i v]) x" for x :: "u64 \<times> 'a vmm_scheme"
  proof -
    have "unless_full ?Q (kbind (next_table (fst x) (pdpt_i v) True fl (snd x)) ?f2)"
      by (rule unless_full_bind [OF reached_next [of root v s "[pml4_i v]"]])
        (erule f2 | use that fl in \<open>simp add: path_def ix_def\<close>)+
    with nz [OF that] show ?thesis by (simp add: split_beta)
  qed
  show ?thesis
    unfolding pte_for_root_def
    by (rule unless_full_bind [OF reached_next [OF reached_root [OF ok]]])
      (erule f1 | use fl in \<open>simp add: path_def\<close>)+
qed

lemma vm_ok_same:
  assumes ok: "vm_ok root s" and p: "pmm_ok s'" "total_page_count s' = total_page_count s" "free_frames s' \<subseteq> free_frames s"
    and rd: "\<And>q i. path (q @ [i]) \<Longrightarrow> walk (mem s) root q \<noteq> 0 \<Longrightarrow>
      read64 (mem s') (table_slot (walk (mem s) root q) i) = read64 (mem s) (table_slot (walk (mem s) root q) i)"
  shows "vm_ok root s'" and "\<And>q. path q \<Longrightarrow> walk (mem s') root q = walk (mem s) root q"
proof -
  note okD = vm_okD [OF ok]
  show w: "walk (mem s') root q = walk (mem s) root q" if "path q" for q
    using okD(3) find_table_cong [OF rd] that by (rule walk_same)
  have "find_table (mem s') (walk (mem s') root q) i \<noteq> 0" if "path (q @ [i])" "walk (mem s') root q \<noteq> 0"
    "read64 (mem s') (table_slot (walk (mem s') root q) i) AND VMM_PRESENT \<noteq> 0" for q i
    using that okD(8) [of q i] rd [of q i] by (simp add: path_snoc w find_table_def)
  moreover have "4096 dvd unat (walk (mem s') root q)" if "path q" "walk (mem s') root q \<noteq> 0" for q
    using that okD(4) [of q] by (simp add: w)
  moreover have "q = r" if "path q" "path r" "walk (mem s') root q \<noteq> 0" "walk (mem s') root q = walk (mem s') root r" for q r
    using that okD(7) [of q r] by (simp add: w)
  moreover have "frame_of (walk (mem s') root q) < unat (total_page_count s')"
    "frame_of (walk (mem s') root q) \<notin> free_frames s'" if "path q" "walk (mem s') root q \<noteq> 0" for q
    using that okD(5,6) [of q] p(2,3) by (auto simp: w)
  ultimately show "vm_ok root s'" unfolding vm_ok_def tree_ok_def using okD(3) p(1) by blast
qed

lemma leaf_reads:
  fixes e :: u64
  assumes ok: "vm_ok root s" and pt: "walk (mem s) root (ix v) \<noteq> 0" and q: "path q" "i < 512" "walk (mem s) root q \<noteq> 0"
  shows "read64 (write64 (mem s) (table_slot (walk (mem s) root (ix v)) (pt_i v)) e) (table_slot (walk (mem s) root q) i) =
    (if q = ix v \<and> i = pt_i v then e else read64 (mem s) (table_slot (walk (mem s) root q) i))"
  using q vm_okD(4) [OF ok q(1,3)] vm_okD(4) [OF ok path_ix pt] vm_okD(7) [OF ok q(1) path_ix q(3)]
  by (auto simp: read_slot_write)

lemma leaf_vm_ok:
  fixes e :: u64
  assumes ok: "vm_ok root s" and pt: "walk (mem s) root (ix v) \<noteq> 0"
  shows "vm_ok root (s\<lparr>mem := write64 (mem s) (table_slot (walk (mem s) root (ix v)) (pt_i v)) e\<rparr>)"
    and leaf_walk: "path q \<Longrightarrow>
      walk (write64 (mem s) (table_slot (walk (mem s) root (ix v)) (pt_i v)) e) root q = walk (mem s) root q"
proof -
  let ?s = "s\<lparr>mem := write64 (mem s) (table_slot (walk (mem s) root (ix v)) (pt_i v)) e\<rparr>"
  have rd: "read64 (mem ?s) (table_slot (walk (mem s) root q) i) = read64 (mem s) (table_slot (walk (mem s) root q) i)"
    if "path (q @ [i])" "walk (mem s) root q \<noteq> 0" for q i
    using leaf_reads [OF ok pt, of q i e] that by (auto simp: path_snoc ix_def)
  have p: "pmm_ok ?s" "total_page_count ?s = total_page_count s" "free_frames ?s \<subseteq> free_frames s"
    using vm_okD(1) [OF ok] by (simp_all add: pmm_ok_def)
  show "vm_ok root ?s" using ok p rd by (rule vm_ok_same)
  show "path q \<Longrightarrow> walk (write64 (mem s) (table_slot (walk (mem s) root (ix v)) (pt_i v)) e) root q = walk (mem s) root q"
    using vm_ok_same(2) [OF ok p rd] by simp
qed

lemma leaf_write:
  fixes e :: u64
  assumes ok: "vm_ok root s" and pt: "walk (mem s) root (ix v) \<noteq> 0"
  defines "s' \<equiv> s\<lparr>mem := write64 (mem s) (table_slot (walk (mem s) root (ix v)) (pt_i v)) e\<rparr>"
  shows "grows root (touched (mem s) root v) s s'"
    and "entry_of (mem s') root w =
      (if same_page v w then if e AND VMM_PRESENT = 0 then None else Some e else entry_of (mem s) root w)"
proof -
  note ok' = leaf_vm_ok(1) [OF ok pt, of e, folded s'_def]
  have wk: "walk (mem s') root q = walk (mem s) root q" if "path q" for q
    using leaf_walk [OF ok pt that] by (simp add: s'_def)
  have "frame_of (walk (mem s) root (ix v)) \<in> touched (mem s) root v" using pt by (auto simp: touched_def)
  then have "mem s' a = mem s a" if "frame_of a \<notin> free_frames s \<union> touched (mem s) root v" for a
    using that write_slot_elsewhere [OF vm_okD(4) [OF ok path_ix pt] pte_index_less(4), of a]
    by (cases "frame_of a = frame_of (walk (mem s) root (ix v))") (simp_all add: s'_def)
  then show "grows root (touched (mem s) root v) s s'"
    using ok' wk by (simp add: grows_def) (simp add: s'_def)
  have rd: "read64 (mem s') (table_slot (walk (mem s) root (ix w)) (pt_i w)) =
      (if ix w = ix v \<and> pt_i w = pt_i v then e else read64 (mem s) (table_slot (walk (mem s) root (ix w)) (pt_i w)))"
    if "walk (mem s) root (ix w) \<noteq> 0"
    using leaf_reads [OF ok pt path_ix pte_index_less(4) that] by (simp add: s'_def)
  show "entry_of (mem s') root w =
      (if same_page v w then if e AND VMM_PRESENT = 0 then None else Some e else entry_of (mem s) root w)"
    using rd pt by (auto simp: entry_walk [OF ok] entry_walk [OF ok'] wk same_page_def Let_def)
qed

lemma leaf_entry_present: "leaf_entry phys flags AND VMM_PRESENT \<noteq> 0"
proof -
  have "bit (leaf_entry phys flags AND VMM_PRESENT) 0"
    by (simp add: leaf_entry_def bit_simps VMM_PRESENT_def)
  then show ?thesis by auto
qed

lemma user_flag_mask: "(flags AND VMM_USER) AND PTE_ADDR_MASK = 0"
proof -
  have "VMM_USER AND PTE_ADDR_MASK = 0" by (simp add: VMM_USER_def PTE_ADDR_MASK_def)
  then show ?thesis by (simp add: and.assoc)
qed

lemma map_pages_grows:
  assumes "vm_ok root s"
  shows "unless_full (\<lambda>(r, s'). r = 0 \<and> grows root (\<Union>v \<in> set addrs. touched (mem s) root v) s s'
      \<and> entry_of (mem s') root = put_pages flags addrs phys (entry_of (mem s) root))
    (map_pages root flags addrs phys s)"
  using assms
proof (induction addrs arbitrary: phys s)
  case Nil
  then show ?case by (simp add: grows_refl)
next
  case (Cons v addrs)
  let ?T = "\<Union>v \<in> set (v # addrs). touched (mem s) root v"
  show ?case
    unfolding map_pages.simps
  proof (rule unless_full_bind [OF pte_for_root_grows [OF Cons.prems user_flag_mask]], clarify)
    fix s1
    assume pt: "walk (mem s1) root (ix v) \<noteq> 0" and g: "grows root (touched (mem s) root v) s s1"
      and e: "entry_of (mem s1) root = entry_of (mem s) root"
    let ?pte = "table_slot (walk (mem s1) root (ix v)) (pt_i v)"
    let ?s2 = "s1\<lparr>mem := write64 (mem s1) ?pte (leaf_entry phys flags)\<rparr>"
    note ok1 = growsD(1) [OF g]
    note lw = leaf_write [OF ok1 pt, of "leaf_entry phys flags"]
    have nz: "?pte \<noteq> 0" using vm_okD(4) [OF ok1 path_ix pt] pt by (intro slot_nonzero) simp_all
    have g0: "grows root (touched (mem s) root v) s ?s2"
      by (rule grows_trans [OF g lw(1) touched_grows [OF g]])
    have "grows root ?T s s3" if "grows root (\<Union>v \<in> set addrs. touched (mem ?s2) root v) ?s2 s3" for s3
      by (rule grows_trans [OF grows_mono [OF g0] that]) (use touched_grows [OF g0] in auto)
    moreover have "entry_of (mem ?s2) root = (\<lambda>w. if same_page v w then Some (leaf_entry phys flags) else entry_of (mem s) root w)"
      using lw(2) e leaf_entry_present by auto
    ultimately have "unless_full (\<lambda>(r, s'). r = 0 \<and> grows root ?T s s'
        \<and> entry_of (mem s') root = put_pages flags (v # addrs) phys (entry_of (mem s) root))
      (map_pages root flags addrs (phys + PAGE_SIZE) ?s2)"
      using unless_full_mono [OF Cons.IH [OF growsD(1) [OF g0]]] by auto
    then show "unless_full (\<lambda>(r, s'). r = 0 \<and> grows root ?T s s'
        \<and> entry_of (mem s') root = put_pages flags (v # addrs) phys (entry_of (mem s) root))
      (if ?pte = 0 then Inr (- 1, s1) else map_pages root flags addrs (phys + PAGE_SIZE) ?s2)"
      using nz by simp
  qed
qed

lemma unat_table_index: "unat (drop_bit n v AND (0x1ff::u64)) = unat v div 2 ^ n mod 512"
proof -
  have m: "(0x1ff::u64) = mask 9" by (simp add: mask_eq_exp_minus_1)
  have "unat (take_bit 9 (drop_bit n v)) = take_bit 9 (drop_bit n (unat v))"
    by (simp add: unsigned_take_bit_eq unsigned_drop_bit_eq take_bit_nat_eq_self)
  then show ?thesis by (simp add: m take_bit_eq_mask [symmetric]) (simp add: take_bit_eq_mod drop_bit_eq_div)
qed

lemma digits_mod: "(n::nat) mod 2 ^ 36 = m mod 2 ^ 36 \<longleftrightarrow>
  n mod 512 = m mod 512 \<and> n div 512 mod 512 = m div 512 mod 512
   \<and> n div 2 ^ 18 mod 512 = m div 2 ^ 18 mod 512 \<and> n div 2 ^ 27 mod 512 = m div 2 ^ 27 mod 512"
proof -
  have eq: "a mod (512 * k) = b mod (512 * k) \<longleftrightarrow> a mod 512 = b mod 512 \<and> a div 512 mod k = b div 512 mod k"
    if "0 < k" for a b k :: nat
  proof
    assume h: "a mod (512 * k) = b mod (512 * k)"
    have "a mod 512 = b mod 512" using h by (metis mod_mult_self2_is_0 mod_mod_cancel dvd_triv_left)
    moreover have "512 * (a div 512 mod k) + a mod 512 = 512 * (b div 512 mod k) + b mod 512"
      using h by (simp add: mod_mult2_eq)
    ultimately show "a mod 512 = b mod 512 \<and> a div 512 mod k = b div 512 mod k" by simp
  qed (simp add: mod_mult2_eq)
  have p: "(2::nat) ^ 36 = 512 * (512 * (512 * 512))" "(2::nat) ^ 18 = 512 * 512" "(2::nat) ^ 27 = 512 * (512 * 512)" by simp_all
  show ?thesis unfolding p by (subst eq, simp, subst eq, simp, subst eq, simp) (simp add: div_mult2_eq [symmetric])
qed

lemma same_page_iff: "same_page v w \<longleftrightarrow> page_no v = page_no w"
proof -
  have d: "unat v div 2 ^ 39 = unat v div 4096 div 2 ^ 27" "unat v div 2 ^ 30 = unat v div 4096 div 2 ^ 18"
    "unat v div 2 ^ 21 = unat v div 4096 div 512" "unat v div 2 ^ 12 = unat v div 4096" for v :: u64
    by (simp_all add: div_mult2_eq [symmetric])
  have i: "pml4_i v = pml4_i w \<longleftrightarrow> unat v div 2 ^ 39 mod 512 = unat w div 2 ^ 39 mod 512"
    "pdpt_i v = pdpt_i w \<longleftrightarrow> unat v div 2 ^ 30 mod 512 = unat w div 2 ^ 30 mod 512"
    "pd_i v = pd_i w \<longleftrightarrow> unat v div 2 ^ 21 mod 512 = unat w div 2 ^ 21 mod 512"
    "pt_i v = pt_i w \<longleftrightarrow> unat v div 2 ^ 12 mod 512 = unat w div 2 ^ 12 mod 512"
    unfolding pml4_i_def pdpt_i_def pd_i_def pt_i_def
    by (simp_all only: unat_table_index [symmetric] unat_eq_iff)
  show ?thesis
    unfolding same_page_def ix_def page_no_def digits_mod list.inject i d by blast
qed

lemma put_pages_miss:
  "(\<And>a. a \<in> set as \<Longrightarrow> \<not> same_page a w) \<Longrightarrow> put_pages flags as phys E w = E w"
  by (induction as arbitrary: phys E) auto

lemma put_pages_hit:
  assumes "k < length as" "same_page (as ! k) w" "\<And>j. k < j \<Longrightarrow> j < length as \<Longrightarrow> \<not> same_page (as ! j) w"
  shows "put_pages flags as phys E w = Some (leaf_entry (phys + PAGE_SIZE * word_of_nat k) flags)"
  using assms
proof (induction as arbitrary: k phys E)
  case (Cons a as)
  show ?case
  proof (cases k)
    case 0
    have "\<not> same_page b w" if "b \<in> set as" for b
    proof -
      from that obtain j where "j < length as" "b = as ! j" by (auto simp: in_set_conv_nth)
      with Cons.prems(3) [of "Suc j"] 0 show ?thesis by simp
    qed
    with Cons.prems(2) 0 show ?thesis by (simp add: put_pages_miss)
  next
    case (Suc k')
    have later: "\<not> same_page (as ! j) w" if "k' < j" "j < length as" for j
      using Cons.prems(3) [of "Suc j"] that Suc by simp
    have "put_pages flags as (phys + PAGE_SIZE) E' w = Some (leaf_entry (phys + PAGE_SIZE + PAGE_SIZE * word_of_nat k') flags)" for E'
      using Cons.prems(1,2) Suc later by (intro Cons.IH) simp_all
    moreover have "phys + PAGE_SIZE + PAGE_SIZE * word_of_nat k' = phys + PAGE_SIZE * word_of_nat k"
      unfolding Suc by (simp add: distrib_left add.assoc)
    ultimately show ?thesis by (simp only: put_pages.simps)
  qed
qed simp

lemma unat_page_offset: "4096 * k < 2 ^ 64 \<Longrightarrow> unat (4096 * word_of_nat k :: u64) = 4096 * k"
proof -
  assume a: "4096 * k < 2 ^ 64"
  then have "unat (word_of_nat k :: u64) = k" by (intro unat_word_of_nat64) linarith
  with a show ?thesis by (subst unat_mult_exact) simp_all
qed

lemma page_addrs_nth: "k < length (page_addrs start lim) \<Longrightarrow> page_addrs start lim ! k = start + PAGE_SIZE * word_of_nat k"
proof -
  define n where "n = (unat lim - unat start + 4095) div 4096"
  show "k < length (page_addrs start lim) \<Longrightarrow> ?thesis" unfolding page_addrs_def n_def [symmetric] by simp
qed

lemma unat_nth_page:
  assumes "4096 dvd unat start" "unat lim \<le> 2 ^ 48" "4096 dvd unat lim" "k < length (page_addrs start lim)"
  shows "unat (page_addrs start lim ! k) = unat start + 4096 * k" "unat start + 4096 * k < unat lim"
    "page_no (page_addrs start lim ! k) = unat start div 4096 + k"
proof -
  obtain a b where ab: "unat start = 4096 * a" "unat lim = 4096 * b" using assms(1,3) by (auto elim!: dvdE)
  have k: "k < (unat lim - unat start + 4095) div 4096" using assms(4) by (simp add: page_addrs_def)
  then have "k < b - a" unfolding ab diff_mult_distrib2 [symmetric] by simp
  then show lt: "unat start + 4096 * k < unat lim" unfolding ab by simp
  then have b48: "unat start + 4096 * k < 2 ^ 48" using assms(2) by linarith
  then have "unat (4096 * word_of_nat k :: u64) = 4096 * k" by (intro unat_page_offset) simp
  with b48 have "unat (start + 4096 * word_of_nat k) = unat start + 4096 * k"
    by (subst unat_add_exact) simp_all
  then show u: "unat (page_addrs start lim ! k) = unat start + 4096 * k"
    by (simp only: page_addrs_nth [OF assms(4)])
  have "4096 * (a + k) < 4096 * 2 ^ 36" using ab(1) b48 by simp
  then have "a + k < 2 ^ 36" by (simp only: mult_less_cancel1)
  moreover have "(unat start + 4096 * k) div 4096 = a + k" using ab(1) by simp
  ultimately have "(unat start + 4096 * k) div 4096 = a + k" "a + k < 2 ^ 36" by simp_all
  then show "page_no (page_addrs start lim ! k) = unat start div 4096 + k"
    unfolding page_no_def u using ab(1) by simp
qed

lemma page_no_small: "unat w < 2 ^ 48 \<Longrightarrow> page_no w = unat w div 4096"
  unfolding page_no_def by (simp add: less_mult_imp_div_less)

lemma page_addrs_hit:
  assumes "4096 dvd unat start" "unat lim \<le> 2 ^ 48" "4096 dvd unat lim" "unat w < 2 ^ 48" "start \<le> w" "w < lim"
  obtains k where "k < length (page_addrs start lim)" "same_page (page_addrs start lim ! k) w"
    "PAGE_SIZE * word_of_nat k = align_down w PAGE_SIZE - start"
proof -
  obtain a b where ab: "unat start = 4096 * a" "unat lim = 4096 * b" using assms(1,3) by (auto elim!: dvdE)
  define k where "k = unat w div 4096 - a"
  have w: "4096 * a \<le> unat w" "unat w < 4096 * b" using assms(5,6) ab by (simp_all add: word_le_nat_alt word_less_nat_alt)
  then have aw: "a \<le> unat w div 4096" "unat w div 4096 < b" by (simp_all add: less_eq_div_iff_mult_less_eq div_less_iff_less_mult mult.commute)
  then have kb: "k < b - a" by (simp add: k_def)
  have len: "k < length (page_addrs start lim)"
    using kb unfolding page_addrs_def ab diff_mult_distrib2 [symmetric] by simp
  note u = unat_nth_page [OF assms(1-3) len]
  have "page_no (page_addrs start lim ! k) = page_no w"
    using u(3) ab aw by (simp add: page_no_small [OF assms(4)] k_def)
  moreover have "PAGE_SIZE * word_of_nat k = align_down w PAGE_SIZE - start"
  proof -
    have "unat (4096 * word_of_nat k :: u64) = 4096 * k"
      using u(2) assms(2) by (intro unat_page_offset) simp
    moreover have le: "start \<le> align_down w PAGE_SIZE"
      using aw ab by (simp add: word_le_nat_alt unat_simps)
    then have "unat (align_down w PAGE_SIZE - start) = 4096 * k"
      using ab by (simp add: unat_sub_exact unat_simps k_def diff_mult_distrib2)
    ultimately show ?thesis by (simp add: word_unat_eq_iff)
  qed
  ultimately show thesis using len that by (simp add: same_page_iff)
qed

lemma page_addrs_range:
  assumes "4096 dvd unat start" "unat lim \<le> 2 ^ 48" "4096 dvd unat lim" "unat w < 2 ^ 48"
  shows "(\<exists>a \<in> set (page_addrs start lim). same_page a w) \<longleftrightarrow> start \<le> w \<and> w < lim"
proof
  assume "\<exists>a \<in> set (page_addrs start lim). same_page a w"
  then obtain k where k: "k < length (page_addrs start lim)" "same_page (page_addrs start lim ! k) w"
    by (auto simp: in_set_conv_nth)
  obtain a b where ab: "unat start = 4096 * a" "unat lim = 4096 * b" using assms(1,3) by (auto elim!: dvdE)
  note u = unat_nth_page [OF assms(1-3) k(1)]
  have "unat w div 4096 = a + k" using k(2) u(3) ab by (simp add: same_page_iff page_no_small [OF assms(4)])
  moreover have "a + k < b" using u(2) ab by simp
  ultimately have "a \<le> unat w div 4096" "unat w div 4096 < b" by simp_all
  then show "start \<le> w \<and> w < lim"
    using ab by (simp add: word_le_nat_alt word_less_nat_alt less_eq_div_iff_mult_less_eq div_less_iff_less_mult mult.commute)
qed (use page_addrs_hit [OF assms] nth_mem in blast)

lemma page_addrs_pages_distinct:
  assumes "4096 dvd unat start" "unat lim \<le> 2 ^ 48" "4096 dvd unat lim"
  shows "distinct (map page_no (page_addrs start lim))"
  using unat_nth_page(3) [OF assms] by (simp add: distinct_conv_nth)

lemma put_pages_range:
  assumes "4096 dvd unat start" "unat lim \<le> 2 ^ 48" "4096 dvd unat lim" "unat w < 2 ^ 48"
  shows "put_pages flags (page_addrs start lim) phys E w =
    (if start \<le> w \<and> w < lim then Some (leaf_entry (phys + (align_down w PAGE_SIZE - start)) flags) else E w)"
proof (cases "start \<le> w \<and> w < lim")
  case True
  then obtain k where k: "k < length (page_addrs start lim)" "same_page (page_addrs start lim ! k) w"
    "PAGE_SIZE * word_of_nat k = align_down w PAGE_SIZE - start"
    using page_addrs_hit [OF assms] by blast
  have "\<not> same_page (page_addrs start lim ! j) w" if "k < j" "j < length (page_addrs start lim)" for j
    using k(2) unat_nth_page(3) [OF assms(1-3) k(1)] unat_nth_page(3) [OF assms(1-3) that(2)] that(1)
    by (simp add: same_page_iff)
  with put_pages_hit [OF k(1,2)] True show ?thesis by (simp add: k(3) [symmetric])
next
  case False
  then show ?thesis using page_addrs_range [OF assms] by (auto intro: put_pages_miss)
qed

lemma clear_pages_eq: "clear_pages as E w = (if \<exists>a \<in> set as. same_page a w then None else E w)"
  by (induction as arbitrary: E) auto

lemma reflag_pages_eq:
  assumes "distinct (map page_no as)" "\<And>a b. same_page a b \<Longrightarrow> E a = E b"
  shows "reflag_pages flags as E =
    (if \<forall>a \<in> set as. E a \<noteq> None then 0 else -1,
     \<lambda>w. if \<exists>a \<in> set (takeWhile (\<lambda>a. E a \<noteq> None) as). same_page a w
          then map_option (\<lambda>e. leaf_entry e flags) (E w) else E w)"
  using assms
proof (induction as arbitrary: E)
  case (Cons a as)
  show ?case
  proof (cases "E a")
    case (Some e)
    let ?E = "\<lambda>w. if same_page a w then Some (leaf_entry e flags) else E w"
    have new: "?E b = E b" if "b \<in> set as" for b
      using that Cons.prems(1) by (auto simp: same_page_iff image_iff)
    then have tw: "takeWhile (\<lambda>a. ?E a \<noteq> None) as = takeWhile (\<lambda>a. E a \<noteq> None) as"
      by (intro takeWhile_cong) auto
    have not_a: "\<not> same_page b a" if "b \<in> set (takeWhile (\<lambda>a. E a \<noteq> None) as)" for b
      using that Cons.prems(1) set_takeWhileD [OF that] by (auto simp: same_page_iff image_iff)
    have resp: "?E b = ?E c" if "same_page b c" for b c
      using that Cons.prems(2) [OF that] by (simp add: same_page_iff)
    have "reflag_pages flags as ?E = (if \<forall>a \<in> set as. ?E a \<noteq> None then 0 else -1,
       \<lambda>w. if \<exists>a \<in> set (takeWhile (\<lambda>a. ?E a \<noteq> None) as). same_page a w
            then map_option (\<lambda>e. leaf_entry e flags) (?E w) else ?E w)"
      using Cons.prems(1) resp by (intro Cons.IH) simp_all
    note r = this
    have n: "(\<forall>b \<in> set as. ?E b \<noteq> None) \<longleftrightarrow> (\<forall>b \<in> set as. E b \<noteq> None)" using new by metis
    have eq: "(if \<exists>b \<in> set (takeWhile (\<lambda>b. E b \<noteq> None) as). same_page b w
          then map_option (\<lambda>e. leaf_entry e flags) (?E w) else ?E w) =
        (if \<exists>b \<in> set (takeWhile (\<lambda>b. E b \<noteq> None) (a # as)). same_page b w
          then map_option (\<lambda>e. leaf_entry e flags) (E w) else E w)" for w
    proof (cases "same_page a w")
      case True
      then have "E w = Some e" using Some Cons.prems(2) by metis
      moreover have "\<not> (\<exists>b \<in> set (takeWhile (\<lambda>b. E b \<noteq> None) as). same_page b w)"
        using True not_a by (metis same_page_iff)
      ultimately show ?thesis using True Some by simp
    qed (simp add: Some)
    show ?thesis unfolding reflag_pages.simps Some option.case r tw n eq by (simp add: Some)
  qed (simp add: fun_eq_iff)
qed (simp add: fun_eq_iff)

lemma next_table_lookup: "next_table t i False fl s = Inr (find_table (mem s) t i, s)"
  by (simp add: next_table_def find_table_def Let_def)

lemma pte_for_root_lookup: "pte_for_root root v False fl s = Inr (find_pte (mem s) root v, s)"
  by (simp add: pte_for_root_def find_pte_def next_table_lookup Let_def)

lemma entry_of_same_page: "same_page v w \<Longrightarrow> entry_of m root v = entry_of m root w"
  by (simp add: same_page_def ix_def entry_of_def find_pte_def Let_def)

lemma find_pte_mapped:
  assumes "vm_ok root s"
  shows "find_pte (mem s) root v \<noteq> 0 \<longleftrightarrow> walk (mem s) root (ix v) \<noteq> 0"
    and "walk (mem s) root (ix v) \<noteq> 0 \<Longrightarrow> find_pte (mem s) root v = table_slot (walk (mem s) root (ix v)) (pt_i v)"
  using vm_okD(3,4) [OF assms] slot_nonzero by (auto simp: find_pte_walk)

lemma grows_step:
  assumes "grows root (touched (mem s) root v) s s1" "grows root (\<Union>v \<in> A. touched (mem s1) root v) s1 s2"
  shows "grows root (\<Union>v \<in> insert v A. touched (mem s) root v) s s2"
  by (rule grows_trans [OF grows_mono [OF assms(1)] assms(2)]) (use touched_grows [OF assms(1)] in auto)

lemma unmap_pages_refines:
  assumes "vm_ok root s"
  obtains s' where "unmap_pages root addrs s = Inr s'" "grows root (\<Union>v \<in> set addrs. touched (mem s) root v) s s'"
    "entry_of (mem s') root = clear_pages addrs (entry_of (mem s) root)"
  using assms
proof (induction addrs arbitrary: s thesis)
  case Nil
  then show ?case by (simp add: grows_refl)
next
  case (Cons v addrs)
  let ?pte = "find_pte (mem s) root v"
  define s1 where "s1 = (if ?pte \<noteq> 0 then s\<lparr>mem := write64 (mem s) ?pte 0\<rparr> else s)"
  note fp = find_pte_mapped [OF Cons.prems(2), of v]
  have s1: "grows root (touched (mem s) root v) s s1
    \<and> entry_of (mem s1) root = (\<lambda>w. if same_page v w then None else entry_of (mem s) root w)"
  proof (cases "?pte = 0")
    case True
    with Cons.prems(2) show ?thesis
      using entry_of_same_page [of v _ "mem s" root] by (auto simp: s1_def grows_refl entry_of_def)
  next
    case False
    then have pt: "walk (mem s) root (ix v) \<noteq> 0" using fp(1) by simp
    have "s1 = s\<lparr>mem := write64 (mem s) (table_slot (walk (mem s) root (ix v)) (pt_i v)) 0\<rparr>"
      using False fp(2) [OF pt] by (simp add: s1_def)
    with leaf_write [OF Cons.prems(2) pt, of 0] show ?thesis by auto
  qed
  obtain s' where s': "unmap_pages root addrs s1 = Inr s'" "grows root (\<Union>v \<in> set addrs. touched (mem s1) root v) s1 s'"
    "entry_of (mem s') root = clear_pages addrs (entry_of (mem s1) root)"
    using Cons.IH growsD(1) s1 by blast
  show ?case
  proof (rule Cons.prems(1) [of s'])
    show "unmap_pages root (v # addrs) s = Inr s'" using s'(1) by (simp add: pte_for_root_lookup s1_def)
    show "grows root (\<Union>v \<in> set (v # addrs). touched (mem s) root v) s s'"
      using grows_step [of root s v s1 "set addrs" s'] s1 s'(2) by simp
    show "entry_of (mem s') root = clear_pages (v # addrs) (entry_of (mem s) root)" using s1 s'(3) by simp
  qed
qed

lemma protect_pages_refines:
  assumes "vm_ok root s"
  obtains r s' where "protect_pages root flags addrs s = Inr (r, s')" "grows root (\<Union>v \<in> set addrs. touched (mem s) root v) s s'"
    "reflag_pages flags addrs (entry_of (mem s) root) = (r, entry_of (mem s') root)"
  using assms
proof (induction addrs arbitrary: s thesis)
  case Nil
  then show ?case by (simp add: grows_refl)
next
  case (Cons v addrs)
  let ?pte = "find_pte (mem s) root v"
  show ?case
  proof (cases "entry_of (mem s) root v")
    case None
    then have "?pte = 0 \<or> read64 (mem s) ?pte AND VMM_PRESENT = 0" by (auto simp: entry_of_def Let_def split: if_splits)
    then show ?thesis
      using Cons.prems(2) None by (intro Cons.prems(1) [of "-1" s]) (simp_all add: pte_for_root_lookup grows_refl)
  next
    case (Some e)
    then have pte: "?pte \<noteq> 0" "read64 (mem s) ?pte AND VMM_PRESENT \<noteq> 0" "read64 (mem s) ?pte = e"
      by (auto simp: entry_of_def Let_def split: if_splits)
    note fp = find_pte_mapped [OF Cons.prems(2), of v]
    have pt: "walk (mem s) root (ix v) \<noteq> 0" using fp(1) pte(1) by simp
    define s1 where "s1 = s\<lparr>mem := write64 (mem s) ?pte (leaf_entry e flags)\<rparr>"
    have "s1 = s\<lparr>mem := write64 (mem s) (table_slot (walk (mem s) root (ix v)) (pt_i v)) (leaf_entry e flags)\<rparr>"
      using fp(2) [OF pt] by (simp add: s1_def)
    then have s1: "grows root (touched (mem s) root v) s s1"
      "entry_of (mem s1) root = (\<lambda>w. if same_page v w then Some (leaf_entry e flags) else entry_of (mem s) root w)"
      using leaf_write [OF Cons.prems(2) pt, of "leaf_entry e flags"] leaf_entry_present [of e flags] by auto
    obtain r s' where s': "protect_pages root flags addrs s1 = Inr (r, s')"
      "grows root (\<Union>v \<in> set addrs. touched (mem s1) root v) s1 s'"
      "reflag_pages flags addrs (entry_of (mem s1) root) = (r, entry_of (mem s') root)"
      using Cons.IH growsD(1) [OF s1(1)] by blast
    show ?thesis
    proof (rule Cons.prems(1) [of r s'])
      show "protect_pages root flags (v # addrs) s = Inr (r, s')"
        using s'(1) pte by (simp add: pte_for_root_lookup s1_def)
      show "grows root (\<Union>v \<in> set (v # addrs). touched (mem s) root v) s s'"
        using grows_step [OF s1(1) s'(2)] by simp
      show "reflag_pages flags (v # addrs) (entry_of (mem s) root) = (r, entry_of (mem s') root)"
        using s1(2) s'(3) Some by simp
    qed
  qed
qed

subsection \<open>Translation\<close>

lemma virt_to_phys_entry:
  "virt_to_phys m root w = (case entry_of m root w of None \<Rightarrow> 0 | Some e \<Rightarrow> (e AND PTE_ADDR_MASK) OR (w AND (PAGE_SIZE - 1)))"
  by (simp add: virt_to_phys_def entry_of_def Let_def)

lemma leaf_entry_addr:
  assumes "flags AND PTE_ADDR_MASK = 0"
  shows "leaf_entry phys flags AND PTE_ADDR_MASK = phys AND PTE_ADDR_MASK"
proof -
  have f: "(flags AND x) AND PTE_ADDR_MASK = 0" for x
  proof -
    have "(flags AND x) AND PTE_ADDR_MASK = (flags AND PTE_ADDR_MASK) AND x" by (simp only: ac_simps)
    with assms show ?thesis by simp
  qed
  have p: "VMM_PRESENT AND PTE_ADDR_MASK = 0" by (simp add: VMM_PRESENT_def PTE_ADDR_MASK_def)
  show ?thesis
    unfolding leaf_entry_def bit.conj_disj_distrib2 f p by (simp add: and.assoc)
qed

lemma page_plus_offset:
  assumes "4096 dvd unat p"
  shows "p OR (w AND (PAGE_SIZE - 1)) = p + (w AND (PAGE_SIZE - 1))"
proof -
  have "unat (p AND NOT (mask 12)) = unat p" using assms by (simp add: unat_and_not_mask)
  then have "p AND NOT (mask 12) = p" by (simp only: unat_eq_iff)
  moreover have "(p AND NOT (mask 12)) AND (w AND mask 12) = 0"
    by (simp add: bit_eq_iff bit_simps)
  ultimately have "p AND (w AND (PAGE_SIZE - 1)) = 0" by (simp add: mask_12)
  then show ?thesis by (simp only: disjunctive_add_eq_or)
qed

lemma align_down_plus: "align_down w PAGE_SIZE + (w AND (PAGE_SIZE - 1)) = w"
proof -
  have "unat (w AND mask 12) = unat w mod 4096"
    by (simp add: take_bit_eq_mask [symmetric] take_bit_eq_mod unat_mod_distrib)
  moreover have "unat (align_down w PAGE_SIZE) + unat w mod 4096 = unat w" by (simp add: unat_simps)
  ultimately have "unat (align_down w PAGE_SIZE + (w AND mask 12)) = unat w" by (subst unat_add_exact) simp_all
  then show ?thesis by (simp add: mask_12 word_unat_eq_iff)
qed

end
