(* ===== verification/Vmm_Spaces.thy ===== *)
theory Vmm_Spaces
  imports Vmm_Tables
begin

text \<open>
  Address spaces: what mapping, unmapping and protecting a range do to every address below $2^{48}$,
  the kernel address space that \<open>vmm_init\<close> builds, the user address spaces that
  \<open>vmm_create_user_pml4\<close> makes from it, and the separation of the user halves of different spaces.

  \<open>spaces_ok R s\<close> says that the address spaces with the top-level tables \<open>R\<close> are well formed and share
  only tables of the kernel half; \<open>space_run T R s R' s'\<close> is a sequence of operations on user halves
  that leads from \<open>s\<close> to \<open>s'\<close> and works on the spaces \<open>T\<close>.
\<close>

subsection \<open>Definitions\<close>

definition table_frames :: "memory \<Rightarrow> u64 \<Rightarrow> nat set" where
  "table_frames m root = {frame_of (walk m root q) | q. path q \<and> walk m root q \<noteq> 0}"

definition in_pages :: "u64 \<Rightarrow> u64 \<Rightarrow> u64 \<Rightarrow> bool" where
  "in_pages virt sz w \<longleftrightarrow> align_down virt PAGE_SIZE \<le> w \<and> w < align_up (virt + sz) PAGE_SIZE"

definition kernel_regions :: "BootInfo \<Rightarrow> u64 \<Rightarrow> 'a vmm_scheme \<Rightarrow> u64 \<Rightarrow> bool" where
  "kernel_regions bi lapic_base s w \<longleftrightarrow>
     (let fb = framebuffer bi
      in in_pages 0 (pmm_total_pages s * PAGE_SIZE) w
         \<or> fb_base fb \<noteq> 0 \<and> fb_width fb \<noteq> 0 \<and> fb_height fb \<noteq> 0
             \<and> in_pages (fb_base fb) (ucast (pixels_per_scanline fb) * ucast (fb_height fb) * 4) w
         \<or> lapic_base \<noteq> 0 \<and> in_pages lapic_base PAGE_SIZE w)"

definition identity_entries :: "(u64 \<Rightarrow> bool) \<Rightarrow> (u64 \<Rightarrow> u64 option) \<Rightarrow> bool" where
  "identity_entries region E \<longleftrightarrow> (\<forall>w. unat w < 2 ^ 48 \<longrightarrow>
     (if region w then \<exists>fl \<in> {VMM_WRITE, VMM_WRITE OR VMM_NX}. E w = Some (leaf_entry (align_down w PAGE_SIZE) fl)
      else E w = None))"

definition kernel_maps :: "u64 \<Rightarrow> (u64 \<Rightarrow> bool) \<Rightarrow> cint \<times> 'a vmm_scheme \<Rightarrow> bool" where
  "kernel_maps root region r \<longleftrightarrow> (case r of (r, s) \<Rightarrow> r = 0 \<and> vm_ok root s \<and> kernel_pml4 s = root
     \<and> kernel_pml4_phys s = root \<and> identity_entries region (entry_of (mem s) root))"

text \<open>The indices of the top-level table that belong to the user half of an address space.\<close>

definition user_index :: "u64 \<Rightarrow> bool" where
  "user_index i \<longleftrightarrow> 1 \<le> i \<and> i < 256"

text \<open>Two address spaces share only tables of the kernel half, each at the same place in both.\<close>

definition apart :: "memory \<Rightarrow> u64 \<Rightarrow> u64 \<Rightarrow> bool" where
  "apart m r1 r2 \<longleftrightarrow> (\<forall>q q'. path q \<longrightarrow> path q' \<longrightarrow> walk m r1 q \<noteq> 0 \<longrightarrow> walk m r1 q = walk m r2 q' \<longrightarrow>
     q = q' \<and> q \<noteq> [] \<and> \<not> user_index (hd q))"

definition spaces_ok :: "u64 set \<Rightarrow> 'a vmm_scheme \<Rightarrow> bool" where
  "spaces_ok R s \<longleftrightarrow> (\<forall>r \<in> R. vm_ok r s) \<and> (\<forall>r \<in> R. \<forall>r' \<in> R. r \<noteq> r' \<longrightarrow> apart (mem s) r r')"

text \<open>The tree below a user top-level table is the kernel's without its user half.\<close>

definition shares_kernel :: "memory \<Rightarrow> u64 \<Rightarrow> memory \<Rightarrow> u64 \<Rightarrow> bool" where
  "shares_kernel m' root m K \<longleftrightarrow>
     (\<forall>q. path q \<longrightarrow> q \<noteq> [] \<longrightarrow> walk m' root q = (if user_index (hd q) then 0 else walk m K q))"

definition adds_space :: "u64 \<Rightarrow> u64 \<Rightarrow> 'a vmm_scheme \<Rightarrow> 'a vmm_scheme \<Rightarrow> bool" where
  "adds_space K root s s' \<longleftrightarrow> vm_ok K s \<and> root \<noteq> 0 \<and> 4096 dvd unat root \<and> frame_of root < unat (total_page_count s)
     \<and> frame_of root \<in> free_frames s \<and> free_frames s' = free_frames s - {frame_of root} \<and> pmm_ok s' \<and> only_pmm s s'
     \<and> (\<forall>a. frame_of a \<noteq> frame_of root \<longrightarrow> mem s' a = mem s a)
     \<and> (\<forall>i < 512. read64 (mem s') (table_slot root i) = (if user_index i then 0 else read64 (mem s) (table_slot K i)))"

definition user_pages :: "u64 \<Rightarrow> u64 \<Rightarrow> bool" where
  "user_pages virt sz \<longleftrightarrow> 2 ^ 39 \<le> unat virt \<and> unat virt + unat sz \<le> 2 ^ 47"

inductive space_run :: "u64 set \<Rightarrow> u64 set \<Rightarrow> 'a vmm_scheme \<Rightarrow> u64 set \<Rightarrow> 'a vmm_scheme \<Rightarrow> bool" where
  start: "space_run {} R s R s"
| create: "space_run T R s R1 s1 \<Longrightarrow> vmm_create_user_pml4 s1 = Inr (root, s2) \<Longrightarrow> space_run T R s (insert root R1) s2"
| map: "space_run T R s R1 s1 \<Longrightarrow> root \<in> R1 \<Longrightarrow> user_pages virt sz \<Longrightarrow>
    vmm_map_in root virt phys sz flags s1 = Inr (r, s2) \<Longrightarrow> space_run (insert root T) R s R1 s2"
| unmap: "space_run T R s R1 s1 \<Longrightarrow> root \<in> R1 \<Longrightarrow> user_pages virt sz \<Longrightarrow>
    vmm_unmap_in root virt sz s1 = Inr s2 \<Longrightarrow> space_run (insert root T) R s R1 s2"
| protect: "space_run T R s R1 s1 \<Longrightarrow> root \<in> R1 \<Longrightarrow> user_pages virt sz \<Longrightarrow>
    vmm_protect_in root virt sz flags s1 = Inr (r, s2) \<Longrightarrow> space_run (insert root T) R s R1 s2"

definition pages_touched :: "memory \<Rightarrow> u64 \<Rightarrow> u64 \<Rightarrow> u64 \<Rightarrow> nat set" where
  "pages_touched m root virt sz =
     (\<Union>v \<in> set (page_addrs (align_down virt PAGE_SIZE) (align_up (virt + sz) PAGE_SIZE)). touched m root v)"

text \<open>How many frames \<open>pmm_alloc_page\<close> can still hand out.\<close>

definition table_supply :: "'a pmm_scheme \<Rightarrow> nat" where
  "table_supply s = card (free_frames s \<inter> {256..})"

text \<open>
  \<open>wanted addrs\<close> are the places in the tree of the tables that mapping \<open>addrs\<close> needs; \<open>affordable D root s\<close>
  says that there are frames enough for those of \<open>D\<close> that are missing.
\<close>

definition wanted :: "u64 list \<Rightarrow> u64 list set" where
  "wanted addrs = {q. q \<noteq> [] \<and> (\<exists>v \<in> set addrs. prefix q (ix v))}"

definition affordable :: "u64 list set \<Rightarrow> u64 \<Rightarrow> 'a vmm_scheme \<Rightarrow> bool" where
  "affordable D root s \<longleftrightarrow> finite D \<and> (\<forall>q \<in> D. path q) \<and> card {q \<in> D. walk (mem s) root q = 0} \<le> table_supply s"

definition pages_of :: "u64 \<Rightarrow> u64 \<Rightarrow> u64 list" where
  "pages_of virt sz = page_addrs (align_down virt PAGE_SIZE) (align_up (virt + sz) PAGE_SIZE)"

definition kernel_tables :: "BootInfo \<Rightarrow> u64 \<Rightarrow> 'a vmm_scheme \<Rightarrow> u64 list set" where
  "kernel_tables bi lapic_base s =
     (let fb = framebuffer bi
      in wanted (pages_of 0 (pmm_total_pages s * PAGE_SIZE))
         \<union> (if fb_base fb \<noteq> 0 \<and> fb_width fb \<noteq> 0 \<and> fb_height fb \<noteq> 0
            then wanted (pages_of (fb_base fb) (ucast (pixels_per_scanline fb) * ucast (fb_height fb) * 4)) else {})
         \<union> (if lapic_base \<noteq> 0 then wanted (pages_of lapic_base PAGE_SIZE) else {}))"

text \<open>A machine of 272 frames with an empty top-level table in the frame 256.\<close>

definition demo_vmm :: vmm where
  "demo_vmm = bitmap_set 256 \<lparr>mem = (\<lambda>_. 0), cr3 = 0x100000, bitmap = (\<lambda>_. 0), bitmap_base = 0x180000,
     bitmap_bytes = 4096, max_phys = 0x110000, total_page_count = 272, free_page_count = 271,
     reserved_page_count = 0, used_page_count = 1, heap_head = 0, kernel_pml4 = 0x100000,
     kernel_pml4_phys = 0x100000\<rparr>"

definition headless_boot :: BootInfo where
  "headless_boot = \<lparr>bi_magic = ORE_BOOTINFO_MAGIC, rsdp = 0, kernel_base = 0x100000, kernel_size = 0x1000,
     initramfs_base = 0, initramfs_size = 0,
     framebuffer = \<lparr>fb_base = 0, fb_width = 0, fb_height = 0, pixels_per_scanline = 0, pixel_format = 0\<rparr>,
     memory_map_entries = 0, memory_map_descriptor_size = 40, memory_map = [], cmdline = []\<rparr>"

subsection \<open>Lemmas\<close>

lemma touched_tables: "touched m root v \<subseteq> table_frames m root"
  unfolding touched_def table_frames_def using path_prefix by blast

lemma page_range_bounds:
  assumes "unat virt + unat sz \<le> 2 ^ 48"
  shows "4096 dvd unat (align_down virt PAGE_SIZE)" "4096 dvd unat (align_up (virt + sz) PAGE_SIZE)"
    "unat (align_up (virt + sz) PAGE_SIZE) \<le> 2 ^ 48"
proof -
  have u: "unat (virt + sz) = unat virt + unat sz" using assms by (intro unat_add_exact) simp
  have a: "unat (align_up (virt + sz) PAGE_SIZE) = (unat virt + unat sz + 4095) div 4096 * 4096"
    using assms u by (subst unat_align_up) simp_all
  show "4096 dvd unat (align_down virt PAGE_SIZE)" "4096 dvd unat (align_up (virt + sz) PAGE_SIZE)"
    by (simp_all add: unat_align_down a)
  have "(unat virt + unat sz + 4095) div 4096 \<le> (2 ^ 48 + 4095) div 4096" using assms by (intro div_le_mono) simp
  then have "(unat virt + unat sz + 4095) div 4096 * 4096 \<le> 2 ^ 36 * 4096" by (intro mult_le_mono1) simp
  then show "unat (align_up (virt + sz) PAGE_SIZE) \<le> 2 ^ 48" unfolding a by simp
qed

lemma map_in_root_refines:
  assumes "vm_ok root s" "unat virt + unat sz \<le> 2 ^ 48"
  shows "unless_full (\<lambda>(r, s'). r = 0
      \<and> grows root (\<Union>v \<in> set (page_addrs (align_down virt PAGE_SIZE) (align_up (virt + sz) PAGE_SIZE)). touched (mem s) root v) s s'
      \<and> (\<forall>w. unat w < 2 ^ 48 \<longrightarrow> entry_of (mem s') root w =
            (if in_pages virt sz w
             then Some (leaf_entry (align_down phys PAGE_SIZE + (align_down w PAGE_SIZE - align_down virt PAGE_SIZE)) flags)
             else entry_of (mem s) root w)))
    (map_in_root root virt phys sz flags s)"
  unfolding map_in_root_def
  by (rule unless_full_mono [OF map_pages_grows [OF assms(1)]])
    (use page_range_bounds [OF assms(2)] in \<open>auto simp: put_pages_range in_pages_def\<close>)

lemma grows_tables:
  assumes "grows root (\<Union>v \<in> A. touched (mem s) root v) s s'" "frame_of a \<notin> free_frames s \<union> table_frames (mem s) root"
  shows "mem s' a = mem s a"
  using growsD(4) [OF assms(1), of a] assms(2) touched_tables [of "mem s" root] by blast

text \<open>Translating an address of a page that maps to \<open>phys\<close>.\<close>

lemma translate_leaf:
  assumes "entry_of m root w = Some (leaf_entry p flags)" "4096 dvd unat p" "unat p < 2 ^ 52" "flags AND PTE_ADDR_MASK = 0"
  shows "virt_to_phys m root w = p + (w AND (PAGE_SIZE - 1))"
proof -
  have "frame_of p < 2 ^ 40" using assms(2,3) by (simp add: frame_of_def less_mult_imp_div_less)
  then show ?thesis
    using assms and_addr_mask [OF assms(2)] page_plus_offset [OF assms(2), of w]
    by (simp add: virt_to_phys_entry leaf_entry_addr)
qed

lemma new_table_empty:
  assumes "pmm_ok s"
  shows "unless_full (\<lambda>(c, s1). vm_ok c s1 \<and> entry_of (mem s1) c = (\<lambda>_. None) \<and> only_pmm s s1) (new_table s)"
proof (rule unless_full_mono [OF new_table_result [OF assms]], clarify)
  fix c s1
  assume c: "c \<noteq> 0" "4096 dvd unat c" "frame_of c < unat (total_page_count s)" "frame_of c \<in> free_frames s"
    and s1: "free_frames s1 = free_frames s - {frame_of c}" "pmm_ok s1" "only_pmm s s1"
      "mem s1 = (\<lambda>a. if frame_of a = frame_of c then 0 else mem s a)"
  have z: "read64 (mem s1) (table_slot c j) = 0" if "j < 512" for j
    using read64_zero_frame [OF c(2) that, of "mem s1"] s1(4) by simp
  have w: "walk (mem s1) c q = (if q = [] then c else 0)" if "path q" for q
    using that z by (cases q) (auto simp: path_def find_table_def)
  have tot: "total_page_count s1 = total_page_count s" using s1(3) by (rule only_pmm_fields)
  have "vm_ok c s1"
    unfolding vm_ok_def tree_ok_def
    using c s1(1,2) tot z by (auto simp: w path_snoc split: if_splits)
  moreover have "ix v \<noteq> []" for v by (simp add: ix_def)
  then have "entry_of (mem s1) c = (\<lambda>_. None)"
    using \<open>vm_ok c s1\<close> by (auto simp: entry_walk w [OF path_ix])
  ultimately show "vm_ok c s1 \<and> entry_of (mem s1) c = (\<lambda>_. None) \<and> only_pmm s s1" using s1(3) by blast
qed

lemma vm_ok_fields [simp]:
  "vm_ok r (s\<lparr>kernel_pml4 := a, kernel_pml4_phys := b\<rparr>) = vm_ok r s" "vm_ok r (s\<lparr>cr3 := c\<rparr>) = vm_ok r s"
  by (simp_all add: vm_ok_def pmm_ok_def free_frames_def bitmap_test_def)

subsection \<open>The kernel address space\<close>

lemma identity_map:
  assumes "vm_ok root s" "unat virt + unat sz \<le> 2 ^ 48"
  shows "unless_full (\<lambda>(r, s'). r = 0 \<and> vm_ok root s' \<and> only_pmm s s'
      \<and> (\<forall>w. unat w < 2 ^ 48 \<longrightarrow> entry_of (mem s') root w =
            (if in_pages virt sz w then Some (leaf_entry (align_down w PAGE_SIZE) flags) else entry_of (mem s) root w)))
    (map_in_root root virt virt sz flags s)"
  by (rule unless_full_mono [OF map_in_root_refines [OF assms, where phys = virt]]) (auto dest: growsD(1,2))

lemma identity_entries_map:
  assumes "identity_entries A E" "fl \<in> {VMM_WRITE, VMM_WRITE OR VMM_NX}"
    "\<forall>w. unat w < 2 ^ 48 \<longrightarrow> E' w = (if B w then Some (leaf_entry (align_down w PAGE_SIZE) fl) else E w)"
  shows "identity_entries (\<lambda>w. A w \<or> B w) E'"
  using assms unfolding identity_entries_def by auto

lemma kernel_maps_step:
  assumes "kernel_maps root A (r0, s)" "c \<Longrightarrow> unat virt + unat sz \<le> 2 ^ 48" "fl \<in> {VMM_WRITE, VMM_WRITE OR VMM_NX}"
  shows "unless_full (kernel_maps root (\<lambda>w. A w \<or> c \<and> in_pages virt sz w))
    (if c then vmm_map virt virt sz fl s else Inr (0, s))"
proof (cases c)
  case True
  from assms(1) have ok: "vm_ok root s" "identity_entries A (entry_of (mem s) root)" "kernel_pml4 s = root" "kernel_pml4_phys s = root"
    by (simp_all add: kernel_maps_def)
  have "unless_full (kernel_maps root (\<lambda>w. A w \<or> in_pages virt sz w)) (map_in_root root virt virt sz fl s)"
    by (rule unless_full_mono [OF identity_map [OF ok(1) assms(2) [OF True]]])
      (use ok(3,4) in \<open>auto simp: kernel_maps_def only_pmm_fields intro: identity_entries_map [OF ok(2) assms(3)]\<close>)
  with True ok(3) show ?thesis by (simp add: vmm_map_def)
qed (use assms in \<open>simp add: kernel_maps_def\<close>)

lemma unat_mult4:
  assumes "unat (a::u32) * unat (b::u32) * 4 \<le> 2 ^ 48"
  shows "unat (ucast a * ucast b * 4 :: u64) = unat a * unat b * 4"
proof -
  define n where "n = unat a * unat b"
  have n: "n * 4 \<le> 281474976710656" using assms by (simp add: n_def)
  then have "unat (ucast a * ucast b :: u64) = n" unfolding n_def by (subst unat_mult_exact) simp_all
  with n show ?thesis unfolding n_def [symmetric] by (subst unat_mult_exact) simp_all
qed

lemma vmm_init_maps:
  assumes "pmm_ok s" "unat (total_page_count s) \<le> 2 ^ 36" "unat lapic_base + 4096 \<le> 2 ^ 48"
    and fb: "unat (fb_base (framebuffer bi)) +
      unat (pixels_per_scanline (framebuffer bi)) * unat (fb_height (framebuffer bi)) * 4 \<le> 2 ^ 48"
  shows "unless_full (\<lambda>s'. vm_ok (cr3 s') s' \<and> kernel_pml4 s' = cr3 s' \<and> kernel_pml4_phys s' = cr3 s'
      \<and> identity_entries (kernel_regions bi lapic_base s) (entry_of (mem s') (cr3 s')))
    (vmm_init bi lapic_base s)"
  unfolding vmm_init_def
proof (rule unless_full_bind [OF new_table_empty [OF assms(1)]], clarify)
  fix root s0
  assume ok: "vm_ok root s0" and e: "entry_of (mem s0) root = (\<lambda>_. None)" and o: "only_pmm s s0"
  let ?b = "framebuffer bi" and ?s1 = "s0\<lparr>kernel_pml4 := root, kernel_pml4_phys := root\<rparr>"
  let ?fb = "fb_base ?b \<noteq> 0 \<and> fb_width ?b \<noteq> 0 \<and> fb_height ?b \<noteq> 0"
  let ?fbsz = "ucast (pixels_per_scanline ?b) * ucast (fb_height ?b) * 4 :: u64"
  let ?lim = "pmm_total_pages s * PAGE_SIZE"
  let ?A = "\<lambda>w. in_pages 0 ?lim w" and ?B = "\<lambda>w. ?fb \<and> in_pages (fb_base ?b) ?fbsz w"
  let ?C = "\<lambda>w. lapic_base \<noteq> 0 \<and> in_pages lapic_base PAGE_SIZE w"
  have lim: "unat (0::u64) + unat ?lim \<le> 2 ^ 48" "pmm_total_pages ?s1 = pmm_total_pages s"
    using assms(2) only_pmm_fields(1) [OF o] by (simp_all add: pmm_total_pages_def unat_mult_exact)
  have fbsz: "unat (fb_base ?b) + unat ?fbsz \<le> 2 ^ 48"
    by (subst unat_mult4) (use fb in linarith)+
  have none: "kernel_maps root (\<lambda>_. False) (0, ?s1)" using ok e by (simp add: kernel_maps_def identity_entries_def)
  let ?Q = "\<lambda>s'. vm_ok (cr3 s') s' \<and> kernel_pml4 s' = cr3 s' \<and> kernel_pml4_phys s' = cr3 s'
      \<and> identity_entries (kernel_regions bi lapic_base s) (entry_of (mem s') (cr3 s'))"
  let ?f3 = "\<lambda>(r3, s4). if r3 < 0 then panic ''VMM: LAPIC map failed'' else Inr (write_cr3 (kernel_pml4_phys s4) s4)"
  let ?f2 = "\<lambda>(r2, s3). if r2 < 0 then panic ''VMM: framebuffer map failed''
    else kbind (if lapic_base \<noteq> 0 then vmm_map lapic_base lapic_base PAGE_SIZE (VMM_WRITE OR VMM_NX) s3 else Inr (0, s3)) ?f3"
  let ?f1 = "\<lambda>(r1, s2). if r1 < 0 then panic ''VMM: identity map failed''
    else kbind (if ?fb then vmm_map (fb_base ?b) (fb_base ?b) ?fbsz (VMM_WRITE OR VMM_NX) s2 else Inr (0, s2)) ?f2"
  have regions: "kernel_regions bi lapic_base s = (\<lambda>w. (?A w \<or> ?B w) \<or> ?C w)"
    by (auto simp: kernel_regions_def Let_def)
  have f3: "unless_full ?Q (?f3 x)" if "kernel_maps root (\<lambda>w. (?A w \<or> ?B w) \<or> ?C w) x" for x :: "cint \<times> 'a vmm_scheme"
    using that by (auto simp: kernel_maps_def write_cr3_def regions)
  have f2: "unless_full ?Q (?f2 x)" if k: "kernel_maps root (\<lambda>w. ?A w \<or> ?B w) x" for x :: "cint \<times> 'a vmm_scheme"
  proof -
    obtain s3 where x: "x = (0, s3)" using k by (cases x) (simp add: kernel_maps_def)
    have "unless_full ?Q (kbind (if lapic_base \<noteq> 0 then vmm_map lapic_base lapic_base PAGE_SIZE (VMM_WRITE OR VMM_NX) s3 else Inr (0, s3)) ?f3)"
      by (rule unless_full_bind [OF kernel_maps_step [OF k [unfolded x]]]) (erule f3 | use assms(3) in simp)+
    then show ?thesis by (simp add: x)
  qed
  have f1: "unless_full ?Q (?f1 x)" if k: "kernel_maps root ?A x" for x :: "cint \<times> 'a vmm_scheme"
  proof -
    obtain s2 where x: "x = (0, s2)" using k by (cases x) (simp add: kernel_maps_def)
    have "unless_full ?Q (kbind (if ?fb then vmm_map (fb_base ?b) (fb_base ?b) ?fbsz (VMM_WRITE OR VMM_NX) s2 else Inr (0, s2)) ?f2)"
      by (rule unless_full_bind [OF kernel_maps_step [OF k [unfolded x]]]) (erule f2 | use fbsz in simp)+
    then show ?thesis by (simp add: x)
  qed
  have "unless_full ?Q (kbind (vmm_map 0 0 ?lim VMM_WRITE ?s1) ?f1)"
    using kernel_maps_step [OF none, of True 0 ?lim VMM_WRITE] lim(1)
    by (intro unless_full_bind [OF _ f1]) simp_all
  then show "unless_full ?Q
    (let s1 = ?s1; phys_limit = pmm_total_pages s1 * PAGE_SIZE
     in kbind (vmm_map 0 0 phys_limit VMM_WRITE s1) (\<lambda>(r1, s2).
        if r1 < 0 then panic ''VMM: identity map failed''
        else let fb = ?b
          in kbind (if fb_base fb \<noteq> 0 \<and> fb_width fb \<noteq> 0 \<and> fb_height fb \<noteq> 0
               then vmm_map (fb_base fb) (fb_base fb) (ucast (pixels_per_scanline fb) * ucast (fb_height fb) * 4) (VMM_WRITE OR VMM_NX) s2
               else Inr (0, s2)) ?f2))"
    by (simp only: Let_def lim(2))
qed

lemma fold_slots:
  assumes root: "4096 dvd unat root" and src: "\<And>i m m'. i < 512 \<Longrightarrow> (\<And>a. frame_of a \<noteq> frame_of root \<Longrightarrow> m a = m' a) \<Longrightarrow> f i m = f i m'"
    and n: "n \<le> 512"
  defines "g \<equiv> \<lambda>i m. write64 m (table_slot root (word_of_nat i)) (f i m)"
  shows "frame_of a \<noteq> frame_of root \<Longrightarrow> fold g [k..<n] m a = m a"
    and "j < 512 \<Longrightarrow> read64 (fold g [k..<n] m) (table_slot root (word_of_nat j)) =
      (if k \<le> j \<and> j < n then f j m else read64 m (table_slot root (word_of_nat j)))"
proof -
  have idx: "(word_of_nat i :: u64) < 512" if "i < 512" for i
    using that by (simp add: word_less_nat_alt unat_word_of_nat64)
  have "(frame_of a \<noteq> frame_of root \<longrightarrow> fold g [k..<n] m a = m a)
    \<and> (j < 512 \<longrightarrow> read64 (fold g [k..<n] m) (table_slot root (word_of_nat j)) =
      (if k \<le> j \<and> j < n then f j m else read64 m (table_slot root (word_of_nat j))))" for a j
    using n
  proof (induction n arbitrary: a j)
    case (Suc n)
    show ?case
    proof (cases "k \<le> n")
      case True
      let ?m = "fold g [k..<n] m"
      have fold: "fold g [k..<Suc n] m = write64 ?m (table_slot root (word_of_nat n)) (f n ?m)"
        using True by (simp add: g_def)
      have IH: "frame_of a \<noteq> frame_of root \<Longrightarrow> ?m a = m a"
        "j < 512 \<Longrightarrow> read64 ?m (table_slot root (word_of_nat j)) =
          (if k \<le> j \<and> j < n then f j m else read64 m (table_slot root (word_of_nat j)))" for a j
        using Suc by simp_all
      have i: "n < 512" using Suc.prems by simp
      have fm: "f n ?m = f n m" using i IH(1) by (rule src)
      show ?thesis
        unfolding fold fm
        using True IH write_slot_elsewhere [OF root idx [OF i]] read_slot_write [OF root idx root idx [OF i]] i
        by (auto simp: word_of_nat_inj64 less_Suc_eq)
    qed auto
  qed simp
  then show "frame_of a \<noteq> frame_of root \<Longrightarrow> fold g [k..<n] m a = m a"
    and "j < 512 \<Longrightarrow> read64 (fold g [k..<n] m) (table_slot root (word_of_nat j)) =
      (if k \<le> j \<and> j < n then f j m else read64 m (table_slot root (word_of_nat j)))"
    by blast+
qed

text \<open>The top-level table that \<open>vmm_create_user_pml4\<close> fills in.\<close>

lemma user_pml4_memory:
  assumes "4096 dvd unat root" "4096 dvd unat K" "frame_of K \<noteq> frame_of root"
  defines "copy \<equiv> \<lambda>i m. write64 m (table_slot root (word_of_nat i)) (read64 m (table_slot K (word_of_nat i)))"
    and "clear \<equiv> \<lambda>i m. write64 m (table_slot root (word_of_nat i)) 0"
  shows "frame_of a \<noteq> frame_of root \<Longrightarrow> fold clear [1..<256] (fold copy [0..<512] m) a = m a"
    and "i < 512 \<Longrightarrow> read64 (fold clear [1..<256] (fold copy [0..<512] m)) (table_slot root i) =
      (if user_index i then 0 else read64 m (table_slot K i))"
proof -
  have src: "read64 x (table_slot K (word_of_nat i)) = read64 y (table_slot K (word_of_nat i))"
    if "i < 512" "\<And>a. frame_of a \<noteq> frame_of root \<Longrightarrow> x a = y a" for i x y
    using assms(2,3) that by (intro read_slot_agree) (auto simp: word_less_nat_alt unat_word_of_nat64)
  have copied: "fold copy [0..<512] m a = m a" if "frame_of a \<noteq> frame_of root" for a
    unfolding copy_def by (rule fold_slots(1) [OF assms(1) _ order_refl that]) (rule src)
  have copied2: "read64 (fold copy [0..<512] m) (table_slot root (word_of_nat j)) = read64 m (table_slot K (word_of_nat j))"
    if "j < 512" for j
    unfolding copy_def by (subst fold_slots(2) [OF assms(1) _ order_refl that]) (rule src, simp_all add: that)
  note cleared = fold_slots [where f = "\<lambda>_ _. 0", OF assms(1) refl, folded clear_def]
  show "fold clear [1..<256] (fold copy [0..<512] m) a = m a" if "frame_of a \<noteq> frame_of root"
    using copied [OF that] cleared(1) [OF _ that, of 256] by (simp del: upt_rec_numeral)
  show "read64 (fold clear [1..<256] (fold copy [0..<512] m)) (table_slot root i) =
      (if user_index i then 0 else read64 m (table_slot K i))" if "i < 512"
  proof -
    have i: "word_of_nat (unat i) = i" "unat i < 512" using that by (simp_all add: word_less_nat_alt)
    have "read64 (fold copy [0..<512] m) (table_slot root i) = read64 m (table_slot K i)"
      using copied2 [OF i(2)] by (simp only: i(1))
    moreover have "user_index i \<longleftrightarrow> 1 \<le> unat i \<and> unat i < 256"
      by (simp add: user_index_def word_le_nat_alt word_less_nat_alt)
    ultimately show ?thesis
      using cleared(2) [of 256 "unat i" 1 "fold copy [0..<512] m"] i by (simp del: upt_rec_numeral)
  qed
qed

lemma user_walk:
  assumes K: "vm_ok K s" and root: "4096 dvd unat root" "frame_of root \<in> free_frames s" "root \<noteq> 0"
    and other: "\<And>a. frame_of a \<noteq> frame_of root \<Longrightarrow> m' a = mem s a"
    and slots: "\<And>i. i < 512 \<Longrightarrow> read64 m' (table_slot root i) = (if user_index i then 0 else read64 (mem s) (table_slot K i))"
  shows "shares_kernel m' root (mem s) K"
  unfolding shares_kernel_def
proof (intro allI impI)
  fix q assume q: "path q" "q \<noteq> []"
  have rd: "find_table m' (walk (mem s) K p) j = find_table (mem s) (walk (mem s) K p) j"
    if "path (p @ [j])" "walk (mem s) K p \<noteq> 0" for p j
  proof -
    have p: "path p" "j < 512" using that by (simp_all add: path_snoc)
    have "frame_of (walk (mem s) K p) \<noteq> frame_of root" using vm_okD(6) [OF K p(1) that(2)] root(2) by metis
    then show ?thesis
      using vm_okD(4) [OF K p(1) that(2)] p(2) other by (intro find_table_cong read_slot_agree) auto
  qed
  show "walk m' root q = (if user_index (hd q) then 0 else walk (mem s) K q)"
    using q
  proof (induction q rule: rev_induct)
    case (snoc j p)
    have j: "j < 512" and p: "path p" using snoc.prems by (simp_all add: path_snoc)
    show ?case
    proof (cases "p = []")
      case True
      have "find_table m' root j = (if user_index j then 0 else find_table (mem s) K j)"
        using slots [OF j] by (simp add: find_table_def)
      with True show ?thesis by (simp add: Let_def)
    next
      case False
      then show ?thesis using snoc rd vm_okD(3) [OF K] root(3) p by (auto simp: walk_snoc hd_append)
    qed
  qed simp
qed

text \<open>A change of memory outside the tables of an address space leaves it as it was.\<close>

lemma space_frame:
  assumes ok: "vm_ok r s" and s': "pmm_ok s'" "only_pmm s s'" "free_frames s' \<subseteq> free_frames s"
    and same: "\<And>q a. path q \<Longrightarrow> walk (mem s) r q \<noteq> 0 \<Longrightarrow> frame_of a = frame_of (walk (mem s) r q) \<Longrightarrow> mem s' a = mem s a"
  shows "vm_ok r s'" "path q \<Longrightarrow> walk (mem s') r q = walk (mem s) r q" "entry_of (mem s') r = entry_of (mem s) r"
proof -
  have rd: "read64 (mem s') (table_slot (walk (mem s) r q) i) = read64 (mem s) (table_slot (walk (mem s) r q) i)"
    if "path q" "i < 512" "walk (mem s) r q \<noteq> 0" for q i
    using vm_okD(4) [OF ok that(1,3)] that(2) same [OF that(1,3)] by (intro read_slot_agree)
  note w = vm_ok_same [OF ok s'(1) only_pmm_fields(1) [OF s'(2)] s'(3)]
  show ok': "vm_ok r s'" and wk: "path q \<Longrightarrow> walk (mem s') r q = walk (mem s) r q" for q
    using w rd by (simp_all add: path_snoc)
  show "entry_of (mem s') r = entry_of (mem s) r"
  proof
    fix v
    show "entry_of (mem s') r v = entry_of (mem s) r v"
      using rd [of "ix v" "pt_i v"] by (cases "walk (mem s) r (ix v) = 0") (simp_all add: entry_walk [OF ok] entry_walk [OF ok'] wk Let_def)
  qed
qed

lemma adds_space_others:
  assumes "adds_space K root s s'" "vm_ok r s"
  shows "vm_ok r s'" "path q \<Longrightarrow> walk (mem s') r q = walk (mem s) r q" "entry_of (mem s') r = entry_of (mem s) r"
proof -
  have "mem s' a = mem s a" if "path q" "walk (mem s) r q \<noteq> 0" "frame_of a = frame_of (walk (mem s) r q)" for q a
    using assms(1) that vm_okD(6) [OF assms(2) that(1,2)] unfolding adds_space_def by metis
  moreover have "pmm_ok s'" "only_pmm s s'" "free_frames s' \<subseteq> free_frames s"
    using assms(1) by (auto simp: adds_space_def)
  ultimately show "vm_ok r s'" "path q \<Longrightarrow> walk (mem s') r q = walk (mem s) r q" "entry_of (mem s') r = entry_of (mem s) r"
    using space_frame [OF assms(2)] by blast+
qed

lemma adds_space_walk:
  assumes "adds_space K root s s'" "path q"
  shows "walk (mem s') root q = (if q = [] then root else if user_index (hd q) then 0 else walk (mem s) K q)"
proof -
  have "shares_kernel (mem s') root (mem s) K"
    using assms(1) unfolding adds_space_def by (intro user_walk) blast+
  with assms(2) show ?thesis by (auto simp: shares_kernel_def)
qed

lemma adds_space_reads:
  assumes "adds_space K root s s'" "path q" "q \<noteq> []" "walk (mem s') root q \<noteq> 0" "i < 512"
  shows "walk (mem s') root q = walk (mem s) K q" "\<not> user_index (hd q)"
    "read64 (mem s') (table_slot (walk (mem s) K q) i) = read64 (mem s) (table_slot (walk (mem s) K q) i)"
proof -
  have K: "vm_ok K s" using assms(1) by (simp add: adds_space_def)
  show w: "walk (mem s') root q = walk (mem s) K q" "\<not> user_index (hd q)"
    using adds_space_walk [OF assms(1,2)] assms(3,4) by (auto split: if_splits)
  then have nz: "walk (mem s) K q \<noteq> 0" using assms(4) by simp
  have "frame_of (walk (mem s) K q) \<noteq> frame_of root"
    using vm_okD(6) [OF K assms(2) nz] assms(1) unfolding adds_space_def by metis
  then show "read64 (mem s') (table_slot (walk (mem s) K q) i) = read64 (mem s) (table_slot (walk (mem s) K q) i)"
    using vm_okD(4) [OF K assms(2) nz] assms(1,5) unfolding adds_space_def by (intro read_slot_agree) auto
qed


lemma adds_space_ok:
  assumes "adds_space K root s s'"
  shows "vm_ok root s'"
proof -
  have K: "vm_ok K s" and root: "root \<noteq> 0" "4096 dvd unat root" "frame_of root < unat (total_page_count s)"
    "frame_of root \<in> free_frames s" and s': "free_frames s' = free_frames s - {frame_of root}" "pmm_ok s'"
    and tot: "total_page_count s' = total_page_count s"
    using assms only_pmm_fields(1) [of s s'] by (simp_all add: adds_space_def)
  note w = adds_space_walk [OF assms] and rd = adds_space_reads [OF assms]
  have fr: "walk (mem s) K q \<noteq> root" if "path q" "walk (mem s) K q \<noteq> 0" for q
    using vm_okD(6) [OF K that] root(4) by metis
  have inj: "q = r" if "path q" "path r" "walk (mem s') root q \<noteq> 0" "walk (mem s') root q = walk (mem s') root r" for q r
    using that fr [of q] fr [of r] vm_okD(7) [OF K, of q r] root(1) by (auto simp: w split: if_splits)
  have "find_table (mem s') (walk (mem s') root q) i \<noteq> 0" if "path (q @ [i])" "walk (mem s') root q \<noteq> 0"
    "read64 (mem s') (table_slot (walk (mem s') root q) i) AND VMM_PRESENT \<noteq> 0" for q i
  proof (cases "q = []")
    case True
    have i: "i < 512" using that(1) by (simp add: path_snoc)
    then have "read64 (mem s') (table_slot root i) = (if user_index i then 0 else read64 (mem s) (table_slot K i))"
      using assms by (simp add: adds_space_def)
    with True that vm_okD(8) [OF K, of "[]" i] vm_okD(3) [OF K] show ?thesis by (auto simp: find_table_def path_def split: if_splits)
  next
    case False
    then show ?thesis
      using that rd [of q i] vm_okD(8) [OF K that(1)] by (simp add: path_snoc find_table_def)
  qed
  moreover have "4096 dvd unat (walk (mem s') root q)" "frame_of (walk (mem s') root q) < unat (total_page_count s')"
    "frame_of (walk (mem s') root q) \<notin> free_frames s'" if "path q" "walk (mem s') root q \<noteq> 0" for q
    using that root s' tot vm_okD(4,5,6) [OF K, of q] by (auto simp: w split: if_splits)
  ultimately show ?thesis unfolding vm_ok_def tree_ok_def using root(1) inj s'(2) by blast
qed

lemma adds_space_entries:
  assumes "adds_space K root s s'"
  shows "entry_of (mem s') root v = (if user_index (pml4_i v) then None else entry_of (mem s) K v)"
proof -
  have K: "vm_ok K s" using assms by (simp add: adds_space_def)
  have "ix v \<noteq> []" "hd (ix v) = pml4_i v" by (simp_all add: ix_def)
  then show ?thesis
    using adds_space_walk [OF assms path_ix, of v] adds_space_reads(3) [OF assms path_ix _ _ pte_index_less(4), of v v]
    by (cases "user_index (pml4_i v) \<or> walk (mem s) K (ix v) = 0")
      (auto simp: entry_walk [OF K] entry_walk [OF adds_space_ok [OF assms]] Let_def)
qed

lemma adds_space_spaces:
  assumes "adds_space K root s s'" "spaces_ok R s" "K \<in> R"
  shows "root \<notin> R" "spaces_ok (insert root R) s'"
proof -
  have okR: "vm_ok r s" if "r \<in> R" for r using assms(2) that by (simp add: spaces_ok_def)
  have apR: "apart (mem s) r r'" if "r \<in> R" "r' \<in> R" "r \<noteq> r'" for r r' using assms(2) that by (simp add: spaces_ok_def)
  have free: "frame_of root \<in> free_frames s" "root \<noteq> 0" using assms(1) by (simp_all add: adds_space_def)
  have nr: "walk (mem s) r q \<noteq> root" if "r \<in> R" "path q" for r q
    using vm_okD(6) [OF okR [OF that(1)] that(2)] free by metis
  then show "root \<notin> R" using nr [of root "[]"] by auto
  note w = adds_space_walk [OF assms(1)] and same = adds_space_others(2) [OF assms(1) okR]
  have "apart (mem s') r r'" if "r \<in> R" "r' \<in> R" "r \<noteq> r'" for r r'
    using apR [OF that] that unfolding apart_def by (simp add: same)
  moreover have shared: "q = q' \<and> q \<noteq> [] \<and> \<not> user_index (hd q)"
    if "r \<in> R" "path q" "path q'" "walk (mem s') root q = walk (mem s) r q'" "walk (mem s') root q \<noteq> 0" for r q q'
  proof -
    from that nr [OF that(1,3)] have q: "q \<noteq> []" "\<not> user_index (hd q)" "walk (mem s) K q = walk (mem s) r q'" "walk (mem s) K q \<noteq> 0"
      by (auto simp: w split: if_splits)
    show ?thesis
    proof (cases "r = K")
      case True
      with q that vm_okD(7) [OF okR [OF assms(3)], of q q'] show ?thesis by simp
    next
      case False
      with q that apR [OF assms(3) that(1)] show ?thesis unfolding apart_def by metis
    qed
  qed
  have "apart (mem s') root r" if "r \<in> R" for r
    unfolding apart_def using shared [OF that] that by (auto simp: same)
  moreover have "apart (mem s') r root" if r: "r \<in> R" for r
    unfolding apart_def
  proof (intro allI impI)
    fix q q' assume q: "path q" "path q'" "walk (mem s') r q \<noteq> 0" "walk (mem s') r q = walk (mem s') root q'"
    then have "q' = q \<and> q' \<noteq> [] \<and> \<not> user_index (hd q')"
      using r by (intro shared [of r q' q]) (simp_all add: same)
    then show "q = q' \<and> q \<noteq> [] \<and> \<not> user_index (hd q)" by blast
  qed
  ultimately show "spaces_ok (insert root R) s'"
    unfolding spaces_ok_def using adds_space_ok [OF assms(1)] adds_space_others(1) [OF assms(1) okR] by auto
qed

lemma create_user_pml4_adds:
  assumes K: "vm_ok (kernel_pml4 s) s"
  shows "unless_full (\<lambda>(root, s'). adds_space (kernel_pml4 s) root s s') (vmm_create_user_pml4 s)"
  unfolding vmm_create_user_pml4_def
proof (rule unless_full_bind [OF new_table_result [OF vm_okD(1) [OF K]]], clarify)
  fix root s1
  assume root: "root \<noteq> 0" "4096 dvd unat root" "frame_of root < unat (total_page_count s)" "frame_of root \<in> free_frames s"
    and s1: "free_frames s1 = free_frames s - {frame_of root}" "pmm_ok s1" "only_pmm s s1"
      "mem s1 = (\<lambda>a. if frame_of a = frame_of root then 0 else mem s a)"
  let ?K = "kernel_pml4 s"
  let ?copy = "\<lambda>i m. write64 m (table_slot root (word_of_nat i)) (read64 m (table_slot ?K (word_of_nat i)))"
  let ?clear = "\<lambda>i m. write64 m (table_slot root (word_of_nat i)) 0"
  let ?m = "fold ?clear [1..<256] (fold ?copy [0..<512] (mem s1))"
  have k1: "kernel_pml4 s1 = ?K" using s1(3) by (rule only_pmm_fields)
  have Kt: "4096 dvd unat ?K" "frame_of ?K \<notin> free_frames s"
    using vm_okD(4) [OF K, of "[]"] vm_okD(6) [OF K, of "[]"] vm_okD(3) [OF K] by simp_all
  then have ne: "frame_of ?K \<noteq> frame_of root" using root(4) by metis
  note um = user_pml4_memory [OF root(2) Kt(1) ne]
  have "?m a = mem s a" if "frame_of a \<noteq> frame_of root" for a
    using um(1) [OF that] that s1(4) by (simp only: if_False)
  moreover have "read64 ?m (table_slot root i) = (if user_index i then 0 else read64 (mem s) (table_slot ?K i))" if "i < 512" for i
  proof -
    have "read64 (mem s1) (table_slot ?K i) = read64 (mem s) (table_slot ?K i)"
      using Kt(1) that ne s1(4) by (intro read_slot_agree) simp_all
    then show ?thesis using um(2) [OF that] by (simp only:)
  qed
  moreover have "only_pmm s (s1\<lparr>mem := ?m\<rparr>)" using s1(3) by (rule only_pmm_trans) simp
  moreover have "pmm_ok (s1\<lparr>mem := ?m\<rparr>)" "free_frames (s1\<lparr>mem := ?m\<rparr>) = free_frames s - {frame_of root}"
    using s1(1,2) by (simp_all add: pmm_ok_def del: upt_rec_numeral)
  ultimately have "adds_space ?K root s (s1\<lparr>mem := ?m\<rparr>)"
    unfolding adds_space_def using K root by (simp del: upt_rec_numeral)
  then show "unless_full (\<lambda>(root, s'). adds_space ?K root s s')
    (let copy = \<lambda>i m. write64 m (table_slot root (word_of_nat i)) (read64 m (table_slot (kernel_pml4 s1) (word_of_nat i)));
         clear = ?clear
     in Inr (root, s1\<lparr>mem := fold clear [1..<256] (fold copy [0..<512] (mem s1))\<rparr>))"
    unfolding Let_def k1 by (simp del: upt_rec_numeral)
qed

subsection \<open>Isolation\<close>

lemma spaces_okD:
  assumes "spaces_ok R s"
  shows "r \<in> R \<Longrightarrow> vm_ok r s"
    and "r \<in> R \<Longrightarrow> r' \<in> R \<Longrightarrow> r \<noteq> r' \<Longrightarrow> path q \<Longrightarrow> path q' \<Longrightarrow> walk (mem s) r q \<noteq> 0 \<Longrightarrow>
      walk (mem s) r q = walk (mem s) r' q' \<Longrightarrow> q = q' \<and> q \<noteq> [] \<and> \<not> user_index (hd q)"
  using assms unfolding spaces_ok_def apart_def by blast+

lemma grows_keeps_others:
  assumes R: "spaces_ok R s" "root \<in> R" and g: "grows root (\<Union>v \<in> A. touched (mem s) root v) s s'"
    and A: "\<forall>v \<in> A. user_index (pml4_i v)" and r: "r \<in> R" "r \<noteq> root"
  shows "vm_ok r s'" "path q \<Longrightarrow> walk (mem s') r q = walk (mem s) r q" "entry_of (mem s') r = entry_of (mem s) r"
proof -
  note okR = spaces_okD(1) [OF R(1)] and gD = growsD [OF g]
  have "mem s' a = mem s a"
    if q: "path q" "walk (mem s) r q \<noteq> 0" and a: "frame_of a = frame_of (walk (mem s) r q)" for q a
  proof (rule gD(4))
    have "frame_of a \<notin> touched (mem s) root v" if v: "v \<in> A" for v
    proof
      assume "frame_of a \<in> touched (mem s) root v"
      then obtain p where p: "prefix p (ix v)" "walk (mem s) root p \<noteq> 0" "frame_of (walk (mem s) r q) = frame_of (walk (mem s) root p)"
        using a by (auto simp: touched_def)
      have pp: "path p" using p(1) by (rule path_prefix)
      have "walk (mem s) root p = walk (mem s) r q"
        using vm_okD(4) [OF okR [OF R(2)] pp p(2)] vm_okD(4) [OF okR [OF r(1)] q] p(3) by (intro frame_of_inj) simp_all
      then have "p \<noteq> [] \<and> \<not> user_index (hd p)"
        using spaces_okD(2) [OF R r(1) r(2) [symmetric] pp q(1) p(2)] by blast
      moreover from this p(1) have "hd p = pml4_i v" by (cases p) (auto simp: ix_def)
      ultimately show False using A v by simp
    qed
    then show "frame_of a \<notin> free_frames s \<union> (\<Union>v \<in> A. touched (mem s) root v)"
      using vm_okD(6) [OF okR [OF r(1)] q] a by auto
  qed
  then show "vm_ok r s'" "path q \<Longrightarrow> walk (mem s') r q = walk (mem s) r q" "entry_of (mem s') r = entry_of (mem s) r"
    using space_frame [OF okR [OF r(1)] vm_okD(1) [OF gD(1)] gD(2,3)] by blast+
qed

lemma grows_isolated:
  assumes R: "spaces_ok R s" "root \<in> R" and g: "grows root (\<Union>v \<in> A. touched (mem s) root v) s s'"
    and A: "\<forall>v \<in> A. user_index (pml4_i v)"
  shows "spaces_ok R s'"
proof -
  note okR = spaces_okD(1) [OF R(1)] and gD = growsD [OF g] and others = grows_keeps_others [OF R g A]
  have meet: "q = q' \<and> q \<noteq> [] \<and> \<not> user_index (hd q)"
    if r: "r \<in> R" "r \<noteq> root" and q: "path q" "path q'" "walk (mem s') root q = walk (mem s) r q'" "walk (mem s) r q' \<noteq> 0" for r q q'
  proof -
    have "frame_of (walk (mem s') root q) \<notin> free_frames s" using vm_okD(6) [OF okR [OF r(1)] q(2,4)] q(3) by simp
    then have "walk (mem s) root q = walk (mem s) r q'" using gD(5) [OF q(1)] q(3) by metis
    then show ?thesis using spaces_okD(2) [OF R r(1) r(2) [symmetric] q(1,2)] q(4) by metis
  qed
  have "q = q' \<and> q \<noteq> [] \<and> \<not> user_index (hd q)"
    if "r \<in> R" "r' \<in> R" "r \<noteq> r'" and q: "path q" "path q'" "walk (mem s') r q \<noteq> 0" "walk (mem s') r q = walk (mem s') r' q'" for r r' q q'
  proof -
    consider "r = root" "r' \<noteq> root" | "r \<noteq> root" "r' = root" | "r \<noteq> root" "r' \<noteq> root" using \<open>r \<noteq> r'\<close> by blast
    then show ?thesis
    proof cases
      case 1
      have "walk (mem s') r' q' = walk (mem s) r' q'" by (rule others(2) [OF that(2) 1(2) q(2)])
      with 1 that show ?thesis by (intro meet [of r' q q']) simp_all
    next
      case 2
      have "walk (mem s') r q = walk (mem s) r q" by (rule others(2) [OF that(1) 2(1) q(1)])
      with 2 that meet [of r q' q] show ?thesis by auto
    next
      case 3
      have "walk (mem s') r q = walk (mem s) r q" "walk (mem s') r' q' = walk (mem s) r' q'"
        by (rule others(2) [OF that(1) 3(1) q(1)], rule others(2) [OF that(2) 3(2) q(2)])
      with that show ?thesis by (intro spaces_okD(2) [OF R(1), of r r' q q']) simp_all
    qed
  qed
  moreover have "vm_ok r s'" if "r \<in> R" for r
    using others(1) [OF that] gD(1) by (cases "r = root") simp_all
  ultimately show ?thesis unfolding spaces_ok_def apart_def by blast
qed

lemma user_pages_index:
  assumes "user_pages virt sz" "v \<in> set (page_addrs (align_down virt PAGE_SIZE) (align_up (virt + sz) PAGE_SIZE))"
  shows "user_index (pml4_i v)"
proof -
  let ?st = "align_down virt PAGE_SIZE" and ?lim = "align_up (virt + sz) PAGE_SIZE"
  have r: "2 ^ 39 \<le> unat virt" "unat virt + unat sz \<le> 2 ^ 47" using assms(1) by (simp_all add: user_pages_def)
  then have r48: "unat virt + unat sz \<le> 2 ^ 48" by simp
  note b = page_range_bounds [OF r48]
  obtain k where k: "k < length (page_addrs ?st ?lim)" "v = page_addrs ?st ?lim ! k"
    using assms(2) by (auto simp: in_set_conv_nth)
  note u = unat_nth_page(1,2) [OF b(1,3,2) k(1)]
  have "2 ^ 39 \<le> unat ?st"
  proof -
    have "(2 ^ 39) div 4096 \<le> unat virt div 4096" using r(1) by (rule div_le_mono)
    then have "2 ^ 27 * 4096 \<le> unat virt div 4096 * 4096" by (intro mult_le_mono1) simp
    then show ?thesis by (simp add: unat_align_down)
  qed
  moreover have "unat ?lim \<le> 2 ^ 47"
  proof -
    have "unat (virt + sz) = unat virt + unat sz" using r by (intro unat_add_exact) simp
    then have "unat ?lim = (unat virt + unat sz + 4095) div 4096 * 4096" using r by (subst unat_align_up) simp_all
    moreover have "(unat virt + unat sz + 4095) div 4096 \<le> (2 ^ 47 + 4095) div 4096" using r by (intro div_le_mono) simp
    then have "(unat virt + unat sz + 4095) div 4096 * 4096 \<le> 2 ^ 35 * 4096" by (intro mult_le_mono1) simp
    ultimately show ?thesis by simp
  qed
  ultimately have v: "2 ^ 39 \<le> unat v" "unat v < 2 ^ 47" using u k(2) by simp_all
  then have "1 \<le> unat v div 2 ^ 39" "unat v div 2 ^ 39 < 256"
    by (simp_all add: less_eq_div_iff_mult_less_eq div_less_iff_less_mult)
  then have "1 \<le> unat (pml4_i v)" "unat (pml4_i v) < 256"
    unfolding pml4_i_def unat_table_index by simp_all
  then show ?thesis by (simp add: user_index_def word_le_nat_alt word_less_nat_alt)
qed

lemma unmap_in_root_refines:
  assumes "vm_ok root s" "unat virt + unat sz \<le> 2 ^ 48"
  obtains s' where "unmap_in_root root virt sz s = Inr s'"
    "grows root (\<Union>v \<in> set (page_addrs (align_down virt PAGE_SIZE) (align_up (virt + sz) PAGE_SIZE)). touched (mem s) root v) s s'"
    "\<And>w. unat w < 2 ^ 48 \<Longrightarrow> entry_of (mem s') root w = (if in_pages virt sz w then None else entry_of (mem s) root w)"
proof -
  let ?as = "page_addrs (align_down virt PAGE_SIZE) (align_up (virt + sz) PAGE_SIZE)"
  note rng = page_addrs_range [OF page_range_bounds(1) [OF assms(2)] page_range_bounds(3,2) [OF assms(2)]]
  obtain s' where u: "unmap_pages root ?as s = Inr s'" and g: "grows root (\<Union>v \<in> set ?as. touched (mem s) root v) s s'"
    and e: "entry_of (mem s') root = clear_pages ?as (entry_of (mem s) root)"
    by (rule unmap_pages_refines [OF assms(1)])
  have "entry_of (mem s') root w = (if in_pages virt sz w then None else entry_of (mem s) root w)" if "unat w < 2 ^ 48" for w
    unfolding e clear_pages_eq in_pages_def rng [OF that] by (rule refl)
  with u g show thesis using that unfolding unmap_in_root_def by blast
qed

lemma takeWhile_all: "\<forall>x \<in> set xs. P x \<Longrightarrow> takeWhile P xs = xs"
  by simp

lemma protect_in_root_refines:
  assumes "vm_ok root s" "unat virt + unat sz \<le> 2 ^ 48"
  obtains r s' where "protect_in_root root virt sz flags s = Inr (r, s')"
    "grows root (\<Union>v \<in> set (page_addrs (align_down virt PAGE_SIZE) (align_up (virt + sz) PAGE_SIZE)). touched (mem s) root v) s s'"
    "r = (if \<forall>w. unat w < 2 ^ 48 \<longrightarrow> in_pages virt sz w \<longrightarrow> entry_of (mem s) root w \<noteq> None then 0 else -1)"
    "\<And>w. unat w < 2 ^ 48 \<Longrightarrow> r = 0 \<Longrightarrow> entry_of (mem s') root w =
       (if in_pages virt sz w then map_option (\<lambda>e. leaf_entry e flags) (entry_of (mem s) root w) else entry_of (mem s) root w)"
    "\<And>w. entry_of (mem s') root w \<in> {entry_of (mem s) root w, map_option (\<lambda>e. leaf_entry e flags) (entry_of (mem s) root w)}"
proof -
  let ?as = "page_addrs (align_down virt PAGE_SIZE) (align_up (virt + sz) PAGE_SIZE)" and ?E = "entry_of (mem s) root"
  note b = page_range_bounds [OF assms(2)]
  note rng = page_addrs_range [OF b(1,3,2)]
  have d: "distinct (map page_no ?as)" by (rule page_addrs_pages_distinct [OF b(1,3,2)])
  obtain r s' where p: "protect_pages root flags ?as s = Inr (r, s')"
    "grows root (\<Union>v \<in> set ?as. touched (mem s) root v) s s'" "reflag_pages flags ?as ?E = (r, entry_of (mem s') root)"
    using protect_pages_refines [OF assms(1)] by blast
  have eq: "r = (if \<forall>a \<in> set ?as. ?E a \<noteq> None then 0 else -1)"
    "entry_of (mem s') root = (\<lambda>w. if \<exists>a \<in> set (takeWhile (\<lambda>a. ?E a \<noteq> None) ?as). same_page a w
       then map_option (\<lambda>e. leaf_entry e flags) (?E w) else ?E w)"
    using p(3) by (simp_all add: reflag_pages_eq [OF d entry_of_same_page])
  have all: "(\<forall>a \<in> set ?as. ?E a \<noteq> None) \<longleftrightarrow> (\<forall>w. unat w < 2 ^ 48 \<longrightarrow> in_pages virt sz w \<longrightarrow> ?E w \<noteq> None)"
  proof
    assume h: "\<forall>a \<in> set ?as. ?E a \<noteq> None"
    show "\<forall>w. unat w < 2 ^ 48 \<longrightarrow> in_pages virt sz w \<longrightarrow> ?E w \<noteq> None"
    proof (intro allI impI)
      fix w assume "unat w < 2 ^ 48" "in_pages virt sz w"
      then obtain a where "a \<in> set ?as" "same_page a w" using rng unfolding in_pages_def by blast
      then show "?E w \<noteq> None" using h entry_of_same_page [of a w] by metis
    qed
  next
    assume h: "\<forall>w. unat w < 2 ^ 48 \<longrightarrow> in_pages virt sz w \<longrightarrow> ?E w \<noteq> None"
    show "\<forall>a \<in> set ?as. ?E a \<noteq> None"
    proof
      fix a assume a: "a \<in> set ?as"
      then obtain k where k: "k < length ?as" "a = ?as ! k" by (auto simp: in_set_conv_nth)
      then have "unat a < 2 ^ 48" using unat_nth_page(1,2) [OF b(1,3,2) k(1)] b(3) by simp
      moreover from this have "in_pages virt sz a" using rng [of a] a unfolding in_pages_def same_page_iff by blast
      ultimately show "?E a \<noteq> None" using h by blast
    qed
  qed
  show ?thesis
  proof (rule that [of r s'])
    show "r = (if \<forall>w. unat w < 2 ^ 48 \<longrightarrow> in_pages virt sz w \<longrightarrow> ?E w \<noteq> None then 0 else -1)"
      using eq(1) unfolding all .
    show "entry_of (mem s') root w \<in> {?E w, map_option (\<lambda>e. leaf_entry e flags) (?E w)}" for w
      unfolding eq(2) by simp
    show "entry_of (mem s') root w = (if in_pages virt sz w then map_option (\<lambda>e. leaf_entry e flags) (?E w) else ?E w)"
      if w: "unat w < 2 ^ 48" "r = 0" for w
    proof -
      have "\<forall>a \<in> set ?as. ?E a \<noteq> None" using w(2) eq(1) by (simp split: if_splits)
      then have tw: "takeWhile (\<lambda>a. ?E a \<noteq> None) ?as = ?as" by (rule takeWhile_all)
      show ?thesis unfolding eq(2) in_pages_def tw rng [OF w(1)] by (rule refl)
    qed
  qed (use p in \<open>simp_all add: protect_in_root_def\<close>)
qed

lemma user_pages_48: "user_pages virt sz \<Longrightarrow> unat virt + unat sz \<le> 2 ^ 48"
  by (simp add: user_pages_def)

lemma user_op_grows:
  assumes "vm_ok root s" "user_pages virt sz"
  shows "vmm_map_in root virt phys sz flags s = Inr (r, s') \<Longrightarrow> grows root (pages_touched (mem s) root virt sz) s s'"
    and "vmm_unmap_in root virt sz s = Inr s' \<Longrightarrow> grows root (pages_touched (mem s) root virt sz) s s'"
    and "vmm_protect_in root virt sz flags s = Inr (r, s') \<Longrightarrow> grows root (pages_touched (mem s) root virt sz) s s'"
proof -
  note b = user_pages_48 [OF assms(2)]
  show "grows root (pages_touched (mem s) root virt sz) s s'" if "vmm_map_in root virt phys sz flags s = Inr (r, s')"
    using map_in_root_refines [OF assms(1) b, of phys flags] that by (simp add: vmm_map_in_def pages_touched_def)
  show "grows root (pages_touched (mem s) root virt sz) s s'" if h: "vmm_unmap_in root virt sz s = Inr s'"
  proof -
    obtain s0 where "unmap_in_root root virt sz s = Inr s0" "grows root (pages_touched (mem s) root virt sz) s s0"
      unfolding pages_touched_def by (rule unmap_in_root_refines [OF assms(1) b])
    with h show ?thesis by (simp add: vmm_unmap_in_def)
  qed
  show "grows root (pages_touched (mem s) root virt sz) s s'" if h: "vmm_protect_in root virt sz flags s = Inr (r, s')"
  proof -
    obtain r0 s0 where "protect_in_root root virt sz flags s = Inr (r0, s0)" "grows root (pages_touched (mem s) root virt sz) s s0"
      unfolding pages_touched_def by (rule protect_in_root_refines [OF assms(1) b])
    with h show ?thesis by (simp add: vmm_protect_in_def)
  qed
qed

lemma user_op_isolated:
  assumes "spaces_ok R s" "root \<in> R" "user_pages virt sz" "grows root (pages_touched (mem s) root virt sz) s s'"
  shows "spaces_ok R s' \<and> kernel_pml4 s' = kernel_pml4 s \<and> (\<forall>r \<in> R - {root}. entry_of (mem s') r = entry_of (mem s) r)"
proof -
  have A: "\<forall>v \<in> set (page_addrs (align_down virt PAGE_SIZE) (align_up (virt + sz) PAGE_SIZE)). user_index (pml4_i v)"
    using user_pages_index [OF assms(3)] by blast
  note g = assms(4) [unfolded pages_touched_def]
  show ?thesis
    using grows_isolated [OF assms(1,2) g A] grows_keeps_others(3) [OF assms(1,2) g A] only_pmm_fields(2) [OF growsD(2) [OF g]]
    by auto
qed

lemma isolated_trans:
  assumes "spaces_ok R1 s1 \<and> R \<subseteq> R1 \<and> kernel_pml4 s1 = kernel_pml4 s \<and> (\<forall>r \<in> R - T. entry_of (mem s1) r = entry_of (mem s) r)"
    "spaces_ok R1 s2 \<and> kernel_pml4 s2 = kernel_pml4 s1 \<and> (\<forall>r \<in> R1 - {root}. entry_of (mem s2) r = entry_of (mem s1) r)"
  shows "spaces_ok R1 s2 \<and> R \<subseteq> R1 \<and> kernel_pml4 s2 = kernel_pml4 s
    \<and> (\<forall>r \<in> R - insert root T. entry_of (mem s2) r = entry_of (mem s) r)"
proof (intro conjI ballI)
  fix r assume "r \<in> R - insert root T"
  then have "r \<in> R1 - {root}" "r \<in> R - T" using assms(1) by auto
  then show "entry_of (mem s2) r = entry_of (mem s) r" using assms by metis
qed (use assms in simp_all)

lemma space_run_isolates:
  assumes "space_run T R s R' s'" "spaces_ok R s" "kernel_pml4 s \<in> R"
  shows "spaces_ok R' s' \<and> R \<subseteq> R' \<and> kernel_pml4 s' = kernel_pml4 s
    \<and> (\<forall>r \<in> R - T. entry_of (mem s') r = entry_of (mem s) r)"
  using assms
proof induction
  case (create T R s R1 s1 root s2)
  from create.IH [OF create.prems] have IH: "spaces_ok R1 s1" "R \<subseteq> R1" "kernel_pml4 s1 = kernel_pml4 s"
    "\<forall>r \<in> R - T. entry_of (mem s1) r = entry_of (mem s) r" by blast+
  have K: "kernel_pml4 s1 \<in> R1" "vm_ok (kernel_pml4 s1) s1" using IH create.prems spaces_okD(1) [OF IH(1)] by auto
  have add: "adds_space (kernel_pml4 s1) root s1 s2"
    using create_user_pml4_adds [OF K(2)] create.hyps(2) by simp
  have "kernel_pml4 s2 = kernel_pml4 s1" using add by (intro only_pmm_fields) (simp add: adds_space_def)
  moreover have "entry_of (mem s2) r = entry_of (mem s1) r" if "r \<in> R1" for r
    by (rule adds_space_others(3) [OF add spaces_okD(1) [OF IH(1) that]])
  ultimately show ?case
    using adds_space_spaces(2) [OF add IH(1) K(1)] IH by auto
next
  case (map T R s R1 s1 root virt sz phys flags r s2)
  note IH = map.IH [OF map.prems]
  then have ok: "spaces_ok R1 s1" by (rule conjunct1)
  show ?case by (rule isolated_trans [OF IH user_op_isolated [OF ok map.hyps(2,3) user_op_grows(1) [OF spaces_okD(1) [OF ok map.hyps(2)] map.hyps(3,4)]]])
next
  case (unmap T R s R1 s1 root virt sz s2)
  note IH = unmap.IH [OF unmap.prems]
  then have ok: "spaces_ok R1 s1" by (rule conjunct1)
  show ?case by (rule isolated_trans [OF IH user_op_isolated [OF ok unmap.hyps(2,3) user_op_grows(2) [OF spaces_okD(1) [OF ok unmap.hyps(2)] unmap.hyps(3,4)]]])
next
  case (protect T R s R1 s1 root virt sz flags r s2)
  note IH = protect.IH [OF protect.prems]
  then have ok: "spaces_ok R1 s1" by (rule conjunct1)
  show ?case by (rule isolated_trans [OF IH user_op_isolated [OF ok protect.hyps(2,3) user_op_grows(3) [OF spaces_okD(1) [OF ok protect.hyps(2)] protect.hyps(3,4)]]])
qed simp

lemma fits_one: "fits s q (Suc 0) \<longleftrightarrow> q \<in> free_frames s \<inter> {256..}"
  by (auto simp: fits_iff free_frames_def)

lemma new_table_supply:
  assumes "pmm_ok s" "0 < table_supply s"
  obtains c s1 where "new_table s = Inr (c, s1)" "pmm_ok s1" "table_supply s1 = table_supply s - 1"
proof -
  obtain c s1 where a: "pmm_alloc_pages 1 s = (c, s1)" by fastforce
  from a pmm_ok_total [OF assms(1)] show thesis
  proof (cases rule: pmm_alloc_pages_cases)
    case none
    then have "free_frames s \<inter> {256..} = {}" by (auto simp: fits_one)
    with assms(2) show thesis by (simp add: table_supply_def)
  next
    case (run st)
    have fr: "frames_of c 1 = {st}" using run(4) by (auto simp: frames_of_def)
    have st: "st \<in> free_frames s \<inter> {256..}" using run(5) by (simp add: fits_one)
    let ?s2 = "s1\<lparr>mem := mem_zero (mem s1) c PAGE_SIZE\<rparr>"
    have "free_frames s1 \<inter> {256..} = free_frames s \<inter> {256..} - {st}"
      using alloc_takes_frames [OF assms(1) a run(3)] fr by auto
    then have "table_supply ?s2 = table_supply s - 1"
      using st by (simp add: table_supply_def card_Diff_singleton)
    moreover have "pmm_ok ?s2" using pmm_alloc_pages_ok [OF assms(1) a] by (simp add: pmm_ok_def)
    moreover have "new_table s = Inr (c, ?s2)" using a run(3) by (simp add: new_table_def pmm_alloc_page_def)
    ultimately show thesis using that by blast
  qed
qed

lemma table_supply_mem [simp]: "table_supply (s\<lparr>mem := m\<rparr>) = table_supply s" "pmm_ok (s\<lparr>mem := m\<rparr>) = pmm_ok s"
  by (simp_all add: table_supply_def pmm_ok_def)

lemma next_table_affordable:
  assumes ok: "vm_ok root s" and p: "path (p @ [i])" "walk (mem s) root p \<noteq> 0" and fl: "fl AND PTE_ADDR_MASK = 0"
    and D: "affordable D root s" "p @ [i] \<in> D"
  shows "\<exists>c s'. next_table (walk (mem s) root p) i True fl s = Inr (c, s') \<and> affordable D root s'"
proof (cases "read64 (mem s) (table_slot (walk (mem s) root p) i) AND VMM_PRESENT = 0")
  case False
  then show ?thesis using next_table_present [OF ok p] D(1) by auto
next
  case absent: True
  then have none: "walk (mem s) root (p @ [i]) = 0" using vm_okD(3) [OF ok] by (simp add: walk_snoc find_table_def)
  have fin: "finite D" "\<And>q. q \<in> D \<Longrightarrow> path q" using D(1) by (simp_all add: affordable_def)
  have "0 < card {q \<in> D. walk (mem s) root q = 0}" using D(2) none fin by (auto simp: card_gt_0_iff)
  then have pos: "0 < table_supply s" using D(1) by (simp add: affordable_def)
  obtain c s1 where n: "new_table s = Inr (c, s1)" "table_supply s1 = table_supply s - 1"
    by (rule new_table_supply [OF vm_okD(1) [OF ok] pos])
  obtain e m where nt: "next_table (walk (mem s) root p) i True fl s = Inr (c, s1\<lparr>mem := m\<rparr>)"
    and add: "adds_child root p i c e s (s1\<lparr>mem := m\<rparr>)"
    by (rule next_table_adds [OF ok p fl absent n(1)])
  have "c \<noteq> 0" using add by (simp add: adds_child_def)
  then have "{q \<in> D. walk m root q = 0} = {q \<in> D. walk (mem s) root q = 0} - {p @ [i]}"
    using adds_child_walk [OF add fin(2)] by (auto split: if_splits)
  then have "card {q \<in> D. walk m root q = 0} = card {q \<in> D. walk (mem s) root q = 0} - 1"
    using D(2) none fin by (simp add: card_Diff_singleton)
  then show ?thesis using nt n(2) D(1) by (auto simp: affordable_def)
qed

lemma reached_affordable:
  assumes r: "reached root v s q (t, s1)" and q: "prefix (q @ [i]) (ix v)" and fl: "fl AND PTE_ADDR_MASK = 0"
    and D: "affordable D root s1" "q @ [i] \<in> D"
  obtains c s2 where "next_table t i True fl s1 = Inr (c, s2)" "reached root v s (q @ [i]) (c, s2)" "affordable D root s2"
proof -
  have p: "path (q @ [i])" "prefix q (ix v)" using q path_prefix append_prefixD by blast+
  have t: "t = walk (mem s1) root q" "walk (mem s1) root q \<noteq> 0" and ok: "vm_ok root s1"
    using r growsD(1) by (auto simp: reached_def)
  obtain c s2 where n: "next_table t i True fl s1 = Inr (c, s2)" "affordable D root s2"
    using next_table_affordable [OF ok p(1) t(2) fl D] t(1) by blast
  moreover have "reached root v s (q @ [i]) (c, s2)"
    using reached_next [OF r p(2,1) fl] n(1) by simp
  ultimately show thesis using that by blast
qed

lemma pte_for_root_affordable:
  assumes ok: "vm_ok root s" and fl: "fl AND PTE_ADDR_MASK = 0" and D: "affordable D root s" "wanted [v] \<subseteq> D"
  obtains pte s1 where "pte_for_root root v True fl s = Inr (pte, s1)" "affordable D root s1"
proof -
  let ?a = "[pml4_i v]" and ?b = "[pml4_i v, pdpt_i v]"
  have D': "[] @ [pml4_i v] \<in> D" "?a @ [pdpt_i v] \<in> D" "?b @ [pd_i v] \<in> D"
    using D(2) by (auto simp: wanted_def ix_def)
  obtain a s1 where 1: "next_table root (pml4_i v) True fl s = Inr (a, s1)" "reached root v s ([] @ [pml4_i v]) (a, s1)" "affordable D root s1"
    by (rule reached_affordable [OF reached_root [OF ok] _ fl D(1) D'(1)]) (simp_all add: ix_def)
  obtain b s2 where 2: "next_table a (pdpt_i v) True fl s1 = Inr (b, s2)" "reached root v s (?a @ [pdpt_i v]) (b, s2)" "affordable D root s2"
    by (rule reached_affordable [OF _ _ fl 1(3) D'(2)]) (use 1(2) in \<open>simp_all add: ix_def\<close>)
  obtain c s3 where 3: "next_table b (pd_i v) True fl s2 = Inr (c, s3)" "reached root v s (?b @ [pd_i v]) (c, s3)" "affordable D root s3"
    by (rule reached_affordable [OF _ _ fl 2(3) D'(3)]) (use 2(2) in \<open>simp_all add: ix_def\<close>)
  have "a \<noteq> 0" "b \<noteq> 0" "c \<noteq> 0" using 1(2) 2(2) 3(2) by (simp_all add: reached_def)
  then show thesis using that [of "table_slot c (pt_i v)" s3] 1 2 3 by (simp add: pte_for_root_def)
qed

lemma map_pages_affordable:
  assumes "vm_ok root s" "affordable D root s" "wanted addrs \<subseteq> D"
  obtains s' where "map_pages root flags addrs phys s = Inr (0, s')" "vm_ok root s'" "affordable D root s'"
  using assms
proof (induction addrs arbitrary: phys s thesis)
  case (Cons v addrs)
  have D: "wanted [v] \<subseteq> D" "wanted addrs \<subseteq> D" using Cons.prems(4) by (auto simp: wanted_def)
  obtain pte s1 where p: "pte_for_root root v True (flags AND VMM_USER) s = Inr (pte, s1)" and a1: "affordable D root s1"
    by (rule pte_for_root_affordable [OF Cons.prems(2) user_flag_mask Cons.prems(3) D(1)])
  from pte_for_root_grows [OF Cons.prems(2) user_flag_mask, of v flags] p
  have pt: "pte = table_slot (walk (mem s1) root (ix v)) (pt_i v)" "walk (mem s1) root (ix v) \<noteq> 0" and ok1: "vm_ok root s1"
    using growsD(1) by auto
  let ?s2 = "s1\<lparr>mem := write64 (mem s1) pte (leaf_entry phys flags)\<rparr>"
  note g = leaf_write(1) [OF ok1 pt(2), of "leaf_entry phys flags", folded pt(1)]
  have "walk (mem ?s2) root q = walk (mem s1) root q" if "path q" for q
    using leaf_walk [OF ok1 pt(2) that] pt(1) by simp
  then have a2: "affordable D root ?s2" using a1 by (auto simp: affordable_def cong: conj_cong)
  have nz: "pte \<noteq> 0" using vm_okD(4) [OF ok1 path_ix pt(2)] pt by (simp add: slot_nonzero)
  obtain s' where s': "map_pages root flags addrs (phys + PAGE_SIZE) ?s2 = Inr (0, s')" "vm_ok root s'" "affordable D root s'"
    by (rule Cons.IH [OF _ growsD(1) [OF g] a2 D(2)])
  show ?case
    by (rule Cons.prems(1) [OF _ s'(2,3)]) (use p nz s'(1) in simp)
qed simp

lemma wanted_path: "q \<in> wanted addrs \<Longrightarrow> path q"
  using path_prefix by (auto simp: wanted_def)

lemma finite_wanted: "finite (wanted addrs)"
proof -
  have "wanted addrs \<subseteq> (\<Union>v \<in> set addrs. set (prefixes (ix v)))" by (auto simp: wanted_def)
  then show ?thesis by (rule finite_subset) simp
qed

lemma affordable_fields [simp]:
  "affordable D root (s\<lparr>kernel_pml4 := a, kernel_pml4_phys := b\<rparr>) = affordable D root s"
  by (simp add: affordable_def table_supply_def free_frames_def bitmap_test_def)

lemma map_in_root_affordable:
  assumes "vm_ok root s" "affordable D root s" "wanted (pages_of virt sz) \<subseteq> D"
  obtains s' where "map_in_root root virt phys sz flags s = Inr (0, s')" "vm_ok root s'" "affordable D root s'"
    "kernel_pml4 s' = kernel_pml4 s"
proof -
  obtain s' where s': "map_pages root flags (pages_of virt sz) (align_down phys PAGE_SIZE) s = Inr (0, s')" "vm_ok root s'" "affordable D root s'"
    by (rule map_pages_affordable [OF assms])
  from map_pages_grows [OF assms(1), where flags = flags and addrs = "pages_of virt sz" and phys = "align_down phys PAGE_SIZE"] s'(1)
  have "kernel_pml4 s' = kernel_pml4 s" by (auto dest!: growsD(2) only_pmm_fields(2))
  with s' show thesis using that by (simp add: map_in_root_def pages_of_def)
qed

lemma kernel_map_affordable:
  assumes "vm_ok root s" "affordable D root s" "kernel_pml4 s = root" "c \<longrightarrow> wanted (pages_of virt sz) \<subseteq> D"
  shows "\<exists>s'. (if c then vmm_map virt virt sz fl s else Inr (0, s)) = Inr (0, s')
    \<and> vm_ok root s' \<and> affordable D root s' \<and> kernel_pml4 s' = root"
proof (cases c)
  case True
  then obtain s' where "map_in_root root virt virt sz fl s = Inr (0, s')" "vm_ok root s'" "affordable D root s'" "kernel_pml4 s' = kernel_pml4 s"
    using map_in_root_affordable [OF assms(1,2)] assms(4) by blast
  then show ?thesis using True assms(3) by (simp add: vmm_map_def)
qed (use assms in simp)

lemma vmm_init_affordable:
  assumes "pmm_ok s" "card (kernel_tables bi lapic_base s) < table_supply s"
  shows "\<exists>s'. vmm_init bi lapic_base s = Inr s'"
proof -
  let ?D = "kernel_tables bi lapic_base s" and ?b = "framebuffer bi"
  have D: "finite ?D" "\<And>q. q \<in> ?D \<Longrightarrow> path q"
    by (auto simp: kernel_tables_def Let_def finite_wanted wanted_path split: if_splits)
  obtain root s0 where n: "new_table s = Inr (root, s0)" "pmm_ok s0" "table_supply s0 = table_supply s - 1"
    by (rule new_table_supply [OF assms(1)]) (use assms(2) in simp)
  have ok: "vm_ok root s0" and tot: "pmm_total_pages s0 = pmm_total_pages s"
    using new_table_empty [OF assms(1)] n(1) by (auto simp: pmm_total_pages_def only_pmm_fields)
  have "card {q \<in> ?D. walk (mem s0) root q = 0} \<le> card ?D" using D(1) by (intro card_mono) auto
  then have aff: "affordable ?D root s0" using D n(3) assms(2) by (simp add: affordable_def)
  let ?s1 = "s0\<lparr>kernel_pml4 := root, kernel_pml4_phys := root\<rparr>"
  have ok1: "vm_ok root ?s1" "affordable ?D root ?s1" "kernel_pml4 ?s1 = root" using ok aff by simp_all
  let ?fb = "fb_base ?b \<noteq> 0 \<and> fb_width ?b \<noteq> 0 \<and> fb_height ?b \<noteq> 0"
  let ?fbsz = "ucast (pixels_per_scanline ?b) * ucast (fb_height ?b) * 4 :: u64" and ?lim = "pmm_total_pages s * PAGE_SIZE"
  have W: "True \<longrightarrow> wanted (pages_of 0 ?lim) \<subseteq> ?D" "?fb \<longrightarrow> wanted (pages_of (fb_base ?b) ?fbsz) \<subseteq> ?D"
    "lapic_base \<noteq> 0 \<longrightarrow> wanted (pages_of lapic_base PAGE_SIZE) \<subseteq> ?D"
    by (auto simp: kernel_tables_def Let_def)
  obtain s2 where 2: "vmm_map 0 0 ?lim VMM_WRITE ?s1 = Inr (0, s2)" and ok2: "vm_ok root s2" "affordable ?D root s2" "kernel_pml4 s2 = root"
    using kernel_map_affordable [OF ok1 W(1)] by auto
  obtain s3 where 3: "(if ?fb then vmm_map (fb_base ?b) (fb_base ?b) ?fbsz (VMM_WRITE OR VMM_NX) s2 else Inr (0, s2)) = Inr (0, s3)"
    and ok3: "vm_ok root s3" "affordable ?D root s3" "kernel_pml4 s3 = root"
    using kernel_map_affordable [OF ok2 W(2)] by blast
  obtain s4 where 4: "(if lapic_base \<noteq> 0 then vmm_map lapic_base lapic_base PAGE_SIZE (VMM_WRITE OR VMM_NX) s3 else Inr (0, s3)) = Inr (0, s4)"
    using kernel_map_affordable [OF ok3 W(3)] by blast
  have "pmm_total_pages ?s1 = pmm_total_pages s" using tot by (simp add: pmm_total_pages_def)
  with n(1) 2 3 4 show ?thesis by (simp add: vmm_init_def Let_def)
qed

subsection \<open>The example machine\<close>

lemma demo_vmm_fields [simp]:
  "mem demo_vmm = (\<lambda>_. 0)" "total_page_count demo_vmm = 272" "free_page_count demo_vmm = 271"
  "used_page_count demo_vmm = 1" "reserved_page_count demo_vmm = 0" "kernel_pml4 demo_vmm = 0x100000"
  by (simp_all add: demo_vmm_def bitmap_set_def)

lemma demo_vmm_free: "free_frames demo_vmm = {..<272} - {256}"
proof -
  have "bitmap_test demo_vmm p \<longleftrightarrow> p = 256" for p
    unfolding demo_vmm_def by (subst bitmap_test_set) (simp add: bitmap_test_def)
  moreover have "(word_of_nat p :: u64) = 256 \<longleftrightarrow> p = 256" if "p < 272" for p
    using word_of_nat_inj64 [of p 256] that by simp
  ultimately show ?thesis by (auto simp: free_frames_def)
qed

lemma demo_vmm_pmm_ok: "pmm_ok demo_vmm"
  by (simp add: pmm_ok_def demo_vmm_free)

lemma demo_vmm_ok: "vm_ok 0x100000 demo_vmm"
proof -
  have z: "read64 (\<lambda>_. 0) a = 0" for a by (simp add: read64_def read_bytes_def numeral_eq_Suc)
  have w: "walk (\<lambda>_. 0) r q = (if q = [] then r else 0)" for r q
    by (cases q) (simp_all add: find_table_def z)
  show ?thesis
    unfolding vm_ok_def tree_ok_def
    by (auto simp: demo_vmm_pmm_ok w z demo_vmm_free frame_of_def split: if_splits)
qed

lemma demo_vmm_supply: "table_supply demo_vmm = 15"
proof -
  have "({..<272} - {256}) \<inter> {256..} = {257..<272::nat}" by auto
  then show ?thesis by (simp add: table_supply_def demo_vmm_free)
qed

lemma demo_pages: "wanted (pages_of 0x8000000000 0x2000) = {[1], [1, 0], [1, 0, 0]}"
proof -
  have p: "pages_of 0x8000000000 0x2000 = [0x8000000000, 0x8000001000]"
    by (simp add: pages_of_def page_addrs_def align_down_def align_up_def upt_conv_Cons)
  have i: "ix 0x8000000000 = [1, 0, 0]" "ix 0x8000001000 = [1, 0, 0]"
    by (simp_all add: ix_def pml4_i_def pdpt_i_def pd_i_def drop_bit_eq_div)
  show ?thesis
    unfolding wanted_def p using i by (auto simp: prefix_Cons)
qed

lemma demo_vmm_affordable: "3 \<le> table_supply s \<Longrightarrow> affordable (wanted (pages_of 0x8000000000 0x2000)) root s"
proof -
  assume a: "3 \<le> table_supply s"
  have "card {q \<in> wanted (pages_of 0x8000000000 0x2000). walk (mem s) root q = 0} \<le> card (wanted (pages_of 0x8000000000 0x2000))"
    by (intro card_mono finite_wanted) auto
  also have "\<dots> = 3" by (simp add: demo_pages)
  finally show ?thesis using a by (auto simp: affordable_def finite_wanted wanted_path)
qed

lemma create_user_supply:
  assumes "pmm_ok s" "0 < table_supply s"
  shows "\<exists>root s'. vmm_create_user_pml4 s = Inr (root, s') \<and> table_supply s' = table_supply s - 1"
proof -
  obtain c s1 where "new_table s = Inr (c, s1)" "table_supply s1 = table_supply s - 1"
    by (rule new_table_supply [OF assms])
  then show ?thesis by (simp add: vmm_create_user_pml4_def Let_def del: upt_rec_numeral)
qed

lemma headless_tables: "card (kernel_tables headless_boot 0 demo_vmm) < table_supply demo_vmm"
proof -
  have "ix v = [0, 0, 0]" if v: "v \<in> set (pages_of 0 (272 * PAGE_SIZE))" for v
  proof -
    have "unat v < 2 ^ 21" using v by (auto simp: pages_of_def page_addrs_def align_down_def align_up_def unat_page_offset)
    then have "unat (pml4_i v) = 0" "unat (pdpt_i v) = 0" "unat (pd_i v) = 0"
      unfolding pml4_i_def pdpt_i_def pd_i_def unat_table_index by simp_all
    then show ?thesis by (simp add: ix_def unat_eq_zero)
  qed
  then have "wanted (pages_of 0 (272 * PAGE_SIZE)) \<subseteq> {[0], [0, 0], [0, 0, 0]}"
    by (auto simp: wanted_def prefix_Cons)
  then have "card (wanted (pages_of 0 (272 * PAGE_SIZE))) \<le> card {[0], [0, 0], [0, 0, 0 :: u64]}"
    by (intro card_mono) simp_all
  then show ?thesis
    by (simp add: kernel_tables_def headless_boot_def pmm_total_pages_def demo_vmm_supply)
qed

subsection \<open>Properties\<close>

text \<open>
  C17. \<open>vmm_map_in\<close> refines the update of a map from pages to entries. It stops the machine only for
  want of frames for tables, and not when there is a free frame for every missing table. Otherwise it returns 0; every
  address in the pages of the range is mapped to the corresponding physical page with the given
  flags; every other address below $2^{48}$ keeps its entry; the tree stays well formed; and no byte
  outside the space's own tables and the free frames changes.
\<close>

theorem vmm_map_in_refines:
  assumes "vm_ok root s" "unat virt + unat sz \<le> 2 ^ 48"
  shows "unless_full (\<lambda>(r, s'). r = 0 \<and> vm_ok root s'
      \<and> (\<forall>w. unat w < 2 ^ 48 \<longrightarrow> entry_of (mem s') root w =
            (if in_pages virt sz w
             then Some (leaf_entry (align_down phys PAGE_SIZE + (align_down w PAGE_SIZE - align_down virt PAGE_SIZE)) flags)
             else entry_of (mem s) root w))
      \<and> (\<forall>a. frame_of a \<notin> free_frames s \<union> table_frames (mem s) root \<longrightarrow> mem s' a = mem s a))
    (vmm_map_in root virt phys sz flags s)
    \<and> (affordable (wanted (pages_of virt sz)) root s \<longrightarrow>
        (\<exists>s'. vmm_map_in root virt phys sz flags s = Inr (0, s')))"
proof -
  note m = map_in_root_refines [OF assms, of phys flags]
  have "\<exists>s'. map_in_root root virt phys sz flags s = Inr (0, s')" if "affordable (wanted (pages_of virt sz)) root s"
    using map_in_root_affordable [OF assms(1) that order_refl, of phys flags] by blast
  with m show ?thesis
    unfolding vmm_map_in_def by (auto dest: growsD(1) grows_tables elim!: unless_full_mono)
qed

theorem vmm_map_in_refines_witness:
  "\<exists>s'. vmm_map_in 0x100000 0x8000000000 0x200000 0x2000 3 demo_vmm = Inr (0, s')
     \<and> entry_of (mem s') 0x100000 0x8000001234 = Some (leaf_entry 0x201000 3)
     \<and> entry_of (mem s') 0x100000 0x8000002000 = None"
proof -
  let ?r = "vmm_map_in 0x100000 0x8000000000 0x200000 0x2000 3 demo_vmm"
  have "unat (0x8000000000::u64) + unat (0x2000::u64) \<le> 2 ^ 48" by simp
  note t = vmm_map_in_refines [OF demo_vmm_ok this, of "0x200000" 3]
  have "affordable (wanted (pages_of 0x8000000000 0x2000)) 0x100000 demo_vmm"
    by (rule demo_vmm_affordable) (simp add: demo_vmm_supply)
  with t obtain s' where s': "?r = Inr (0, s')" by blast
  have in1: "in_pages 0x8000000000 0x2000 0x8000001234" "\<not> in_pages 0x8000000000 0x2000 0x8000002000"
    by (simp_all add: in_pages_def align_down_def align_up_def)
  have none: "entry_of (mem demo_vmm) 0x100000 0x8000002000 = None"
    by (simp add: entry_of_def find_pte_def find_table_def read64_def read_bytes_def numeral_eq_Suc)
  from t s' have "entry_of (mem s') 0x100000 w =
      (if in_pages 0x8000000000 0x2000 w
       then Some (leaf_entry (align_down 0x200000 PAGE_SIZE + (align_down w PAGE_SIZE - align_down 0x8000000000 PAGE_SIZE)) 3)
       else entry_of (mem demo_vmm) 0x100000 w)" if "unat w < 2 ^ 48" for w
    using that by simp
  from this [of "0x8000001234"] this [of "0x8000002000"] in1 none s' show ?thesis
    by (simp add: align_down_def)
qed

text \<open>
  C18. \<open>vmm_unmap_in\<close> removes exactly the entries of its range. \<open>vmm_protect_in\<close> returns 0 exactly when
  every page of its range is mapped, and then gives each of them the new flags and leaves every other
  entry alone; it returns -1 otherwise. Neither can stop the machine, and no change of flags changes a
  translation.
\<close>

theorem vmm_unmap_protect_spec:
  assumes "vm_ok root s" "unat virt + unat sz \<le> 2 ^ 48" "flags AND PTE_ADDR_MASK = 0"
  shows "(\<exists>s'. vmm_unmap_in root virt sz s = Inr s' \<and> vm_ok root s'
      \<and> (\<forall>w. unat w < 2 ^ 48 \<longrightarrow>
            entry_of (mem s') root w = (if in_pages virt sz w then None else entry_of (mem s) root w)))
    \<and> (\<exists>r s'. vmm_protect_in root virt sz flags s = Inr (r, s') \<and> vm_ok root s'
      \<and> r = (if \<forall>w. unat w < 2 ^ 48 \<longrightarrow> in_pages virt sz w \<longrightarrow> entry_of (mem s) root w \<noteq> None then 0 else -1)
      \<and> (\<forall>w. r = 0 \<longrightarrow> unat w < 2 ^ 48 \<longrightarrow> entry_of (mem s') root w =
            (if in_pages virt sz w then map_option (\<lambda>e. leaf_entry e flags) (entry_of (mem s) root w)
             else entry_of (mem s) root w))
      \<and> (\<forall>w. virt_to_phys (mem s') root w = virt_to_phys (mem s) root w))"
proof (intro conjI)
  obtain s' where u: "unmap_in_root root virt sz s = Inr s'" "grows root (pages_touched (mem s) root virt sz) s s'"
    "\<And>w. unat w < 2 ^ 48 \<Longrightarrow> entry_of (mem s') root w = (if in_pages virt sz w then None else entry_of (mem s) root w)"
    unfolding pages_touched_def by (rule unmap_in_root_refines [OF assms(1,2)]) blast
  then show "\<exists>s'. vmm_unmap_in root virt sz s = Inr s' \<and> vm_ok root s'
      \<and> (\<forall>w. unat w < 2 ^ 48 \<longrightarrow>
            entry_of (mem s') root w = (if in_pages virt sz w then None else entry_of (mem s) root w))"
    using growsD(1) unfolding vmm_unmap_in_def by blast
next
  obtain r s' where p: "protect_in_root root virt sz flags s = Inr (r, s')" "grows root (pages_touched (mem s) root virt sz) s s'"
    "r = (if \<forall>w. unat w < 2 ^ 48 \<longrightarrow> in_pages virt sz w \<longrightarrow> entry_of (mem s) root w \<noteq> None then 0 else -1)"
    "\<And>w. unat w < 2 ^ 48 \<Longrightarrow> r = 0 \<Longrightarrow> entry_of (mem s') root w =
       (if in_pages virt sz w then map_option (\<lambda>e. leaf_entry e flags) (entry_of (mem s) root w) else entry_of (mem s) root w)"
    "\<And>w. entry_of (mem s') root w \<in> {entry_of (mem s) root w, map_option (\<lambda>e. leaf_entry e flags) (entry_of (mem s) root w)}"
    unfolding pages_touched_def by (rule protect_in_root_refines [OF assms(1,2), of flags]) blast
  have "virt_to_phys (mem s') root w = virt_to_phys (mem s) root w" for w
    using p(5) [of w] leaf_entry_addr [OF assms(3)]
    by (cases "entry_of (mem s) root w") (auto simp: virt_to_phys_entry)
  with p(1,3,4) growsD(1) [OF p(2)]
  show "\<exists>r s'. vmm_protect_in root virt sz flags s = Inr (r, s') \<and> vm_ok root s'
      \<and> r = (if \<forall>w. unat w < 2 ^ 48 \<longrightarrow> in_pages virt sz w \<longrightarrow> entry_of (mem s) root w \<noteq> None then 0 else -1)
      \<and> (\<forall>w. r = 0 \<longrightarrow> unat w < 2 ^ 48 \<longrightarrow> entry_of (mem s') root w =
            (if in_pages virt sz w then map_option (\<lambda>e. leaf_entry e flags) (entry_of (mem s) root w)
             else entry_of (mem s) root w))
      \<and> (\<forall>w. virt_to_phys (mem s') root w = virt_to_phys (mem s) root w)"
    unfolding vmm_protect_in_def by blast
qed

theorem vmm_unmap_protect_spec_witness:
  "\<exists>s'. vmm_protect_in 0x100000 0x8000000000 0x2000 VMM_WRITE demo_vmm = Inr (-1, s')"
proof -
  have z: "entry_of (mem demo_vmm) 0x100000 w = None" for w
    by (simp add: entry_of_def find_pte_def find_table_def read64_def read_bytes_def numeral_eq_Suc)
  have "in_pages 0x8000000000 0x2000 0x8000000000" by (simp add: in_pages_def align_down_def align_up_def)
  moreover have bound: "unat (0x8000000000::u64) < 2 ^ 48" by simp
  ultimately have "\<not> (\<forall>w. unat w < 2 ^ 48 \<longrightarrow> in_pages 0x8000000000 0x2000 w \<longrightarrow> entry_of (mem demo_vmm) 0x100000 w \<noteq> None)"
    using z [of "0x8000000000"] by (metis (mono_tags, lifting) bound)
  moreover have "unat (0x8000000000::u64) + unat (0x2000::u64) \<le> 2 ^ 48" "VMM_WRITE AND PTE_ADDR_MASK = 0"
    by (simp_all add: VMM_WRITE_def PTE_ADDR_MASK_def)
  note vmm_unmap_protect_spec [OF demo_vmm_ok this]
  ultimately show ?thesis by auto
qed

text \<open>
  C19. \<open>vmm_init\<close> builds the kernel's address space: unless the frames run out, it ends with the new
  top-level table in \<open>cr3\<close>, and below $2^{48}$ exactly the pages of physical memory, of the framebuffer and
  of the LAPIC are mapped, each to itself, so that every physical address translates to itself. With one
  frame more than the tables needed it does not stop the machine.
\<close>

theorem vmm_init_identity:
  assumes "pmm_ok s" "unat (total_page_count s) \<le> 2 ^ 36" "unat lapic_base + 4096 \<le> 2 ^ 48"
    "unat (fb_base (framebuffer bi)) +
      unat (pixels_per_scanline (framebuffer bi)) * unat (fb_height (framebuffer bi)) * 4 \<le> 2 ^ 48"
  shows "unless_full (\<lambda>s'. vm_ok (cr3 s') s' \<and> kernel_pml4 s' = cr3 s' \<and> kernel_pml4_phys s' = cr3 s'
      \<and> (\<forall>w. unat w < 2 ^ 48 \<longrightarrow> vmm_virt_to_phys w s' = (if kernel_regions bi lapic_base s w then w else 0))
      \<and> (\<forall>w. unat w < unat (total_page_count s) * 4096 \<longrightarrow> vmm_virt_to_phys w s' = w))
    (vmm_init bi lapic_base s)
    \<and> (card (kernel_tables bi lapic_base s) < table_supply s \<longrightarrow> (\<exists>s'. vmm_init bi lapic_base s = Inr s'))"
proof (intro conjI impI vmm_init_affordable [OF assms(1)])
  have tr: "virt_to_phys m root w = (if region w then w else 0)"
    if "identity_entries region (entry_of m root)" "unat w < 2 ^ 48" for m root w region
  proof (cases "region w")
    case True
    with that obtain fl where fl: "fl \<in> {VMM_WRITE, VMM_WRITE OR VMM_NX}" "entry_of m root w = Some (leaf_entry (align_down w PAGE_SIZE) fl)"
      unfolding identity_entries_def by (auto split: if_splits)
    have "fl AND PTE_ADDR_MASK = 0" using fl(1) by (auto simp: VMM_WRITE_def VMM_NX_def PTE_ADDR_MASK_def push_bit_eq_mult)
    moreover have "unat (align_down w PAGE_SIZE) < 2 ^ 52" using that(2) by (simp add: unat_align_down)
    ultimately have "virt_to_phys m root w = align_down w PAGE_SIZE + (w AND (PAGE_SIZE - 1))"
      using fl(2) by (intro translate_leaf) (simp_all add: unat_align_down)
    then show ?thesis using True align_down_plus [of w] by simp
  next
    case False
    with that show ?thesis by (auto simp: identity_entries_def virt_to_phys_entry)
  qed
  have ram: "kernel_regions bi lapic_base s w" if "unat w < unat (total_page_count s) * 4096" for w
  proof -
    have u: "unat (total_page_count s * PAGE_SIZE) = unat (total_page_count s) * 4096"
      using assms(2) by (subst unat_mult_exact) simp_all
    then have "unat (align_up (total_page_count s * PAGE_SIZE) PAGE_SIZE) = unat (total_page_count s) * 4096"
      using assms(2) by (subst unat_align_up) simp_all
    then have "in_pages 0 (pmm_total_pages s * PAGE_SIZE) w"
      using that by (simp add: in_pages_def pmm_total_pages_def word_less_nat_alt align_down_def)
    then show ?thesis by (simp add: kernel_regions_def Let_def)
  qed
  have small: "unat w < 2 ^ 48" if "unat w < unat (total_page_count s) * 4096" for w :: u64
    using that assms(2) by simp
  show "unless_full (\<lambda>s'. vm_ok (cr3 s') s' \<and> kernel_pml4 s' = cr3 s' \<and> kernel_pml4_phys s' = cr3 s'
      \<and> (\<forall>w. unat w < 2 ^ 48 \<longrightarrow> vmm_virt_to_phys w s' = (if kernel_regions bi lapic_base s w then w else 0))
      \<and> (\<forall>w. unat w < unat (total_page_count s) * 4096 \<longrightarrow> vmm_virt_to_phys w s' = w))
    (vmm_init bi lapic_base s)"
    by (rule unless_full_mono [OF vmm_init_maps [OF assms]])
      (use tr ram small in \<open>auto simp: vmm_virt_to_phys_def vmm_virt_to_phys_in_def read_cr3_def\<close>)
qed

theorem vmm_init_identity_witness:
  "\<exists>s'. vmm_init headless_boot 0 demo_vmm = Inr s' \<and> vmm_virt_to_phys 0x1234 s' = 0x1234
     \<and> vmm_virt_to_phys 0x8000000000 s' = 0"
proof -
  have "\<not> kernel_regions headless_boot 0 demo_vmm 0x8000000000"
    by (simp add: kernel_regions_def headless_boot_def in_pages_def pmm_total_pages_def align_up_def)
  moreover have "unat (0x1234::u64) < unat (total_page_count demo_vmm) * 4096" "unat (0x8000000000::u64) < 2 ^ 48" by simp_all
  moreover have "unat (total_page_count demo_vmm) \<le> 2 ^ 36" "unat (0::u64) + 4096 \<le> 2 ^ 48"
    "unat (fb_base (framebuffer headless_boot)) +
      unat (pixels_per_scanline (framebuffer headless_boot)) * unat (fb_height (framebuffer headless_boot)) * 4 \<le> 2 ^ 48"
    by (simp_all add: headless_boot_def)
  note init = vmm_init_identity [OF demo_vmm_pmm_ok this]
  obtain s' where s': "vmm_init headless_boot 0 demo_vmm = Inr s'" using init headless_tables by blast
  have "\<forall>w. unat w < unat (total_page_count demo_vmm) * 4096 \<longrightarrow> vmm_virt_to_phys w s' = w"
    and "\<forall>w. unat w < 2 ^ 48 \<longrightarrow> vmm_virt_to_phys w s' = (if kernel_regions headless_boot 0 demo_vmm w then w else 0)"
    using init unfolding s' unless_full_simps by blast+
  from this(1) [rule_format, of "0x1234"] this(2) [rule_format, of "0x8000000000"]
  have "vmm_virt_to_phys 0x1234 s' = 0x1234"
    "vmm_virt_to_phys 0x8000000000 s' = (if kernel_regions headless_boot 0 demo_vmm 0x8000000000 then 0x8000000000 else 0)"
    by simp_all
  ultimately show ?thesis using s' by simp
qed

text \<open>
  C20. \<open>vmm_create_user_pml4\<close> makes an address space whose user half is empty and whose kernel half is the
  kernel's, and changes the mappings of no existing address space; it needs one free frame.
\<close>

theorem create_user_pml4_spec:
  assumes "vm_ok (kernel_pml4 s) s"
  shows "unless_full (\<lambda>(root, s'). vm_ok root s'
      \<and> (\<forall>v. entry_of (mem s') root v = (if user_index (pml4_i v) then None else entry_of (mem s) (kernel_pml4 s) v))
      \<and> (\<forall>r. vm_ok r s \<longrightarrow> vm_ok r s' \<and> entry_of (mem s') r = entry_of (mem s) r))
    (vmm_create_user_pml4 s)
    \<and> (0 < table_supply s \<longrightarrow> (\<exists>root s'. vmm_create_user_pml4 s = Inr (root, s')))"
proof (intro conjI impI)
  show "unless_full (\<lambda>(root, s'). vm_ok root s'
      \<and> (\<forall>v. entry_of (mem s') root v = (if user_index (pml4_i v) then None else entry_of (mem s) (kernel_pml4 s) v))
      \<and> (\<forall>r. vm_ok r s \<longrightarrow> vm_ok r s' \<and> entry_of (mem s') r = entry_of (mem s) r)) (vmm_create_user_pml4 s)"
    by (rule unless_full_mono [OF create_user_pml4_adds [OF assms]])
      (auto simp: adds_space_entries intro: adds_space_ok adds_space_others)
  show "\<exists>root s'. vmm_create_user_pml4 s = Inr (root, s')" if "0 < table_supply s"
    using create_user_supply [OF vm_okD(1) [OF assms] that] by blast
qed

theorem create_user_pml4_spec_witness:
  "\<exists>root s'. vmm_create_user_pml4 demo_vmm = Inr (root, s') \<and> vm_ok root s'
     \<and> entry_of (mem s') root 0x8000000000 = None"
proof -
  have "user_index (pml4_i 0x8000000000)" by (simp add: user_index_def pml4_i_def drop_bit_eq_div)
  moreover have "vm_ok (kernel_pml4 demo_vmm) demo_vmm" using demo_vmm_ok by simp
  note create_user_pml4_spec [OF this]
  ultimately show ?thesis using demo_vmm_supply by auto
qed

text \<open>
  C16. Isolation of address spaces. From any well-formed family of address spaces, every sequence of
  creating spaces and mapping, unmapping and protecting pages in user halves keeps the family well
  formed, and leaves every entry of every space alone that the sequence does not work on.
\<close>

theorem address_space_isolation:
  assumes "space_run T R s R' s'" "spaces_ok R s" "kernel_pml4 s \<in> R"
  shows "spaces_ok R' s' \<and> R \<subseteq> R' \<and> (\<forall>r \<in> R - T. \<forall>w. entry_of (mem s') r w = entry_of (mem s) r w)"
  using space_run_isolates [OF assms] by simp

theorem address_space_isolation_witness:
  "\<exists>root s'. space_run {root} {0x100000} demo_vmm {root, 0x100000} s'
     \<and> root \<noteq> 0x100000 \<and> entry_of (mem s') 0x100000 0x8000000000 = None
     \<and> entry_of (mem s') root 0x8000000000 \<noteq> None"
proof -
  have ok: "spaces_ok {0x100000} demo_vmm" using demo_vmm_ok by (simp add: spaces_ok_def)
  have K: "vm_ok (kernel_pml4 demo_vmm) demo_vmm" using demo_vmm_ok by simp
  obtain root s1 where c: "vmm_create_user_pml4 demo_vmm = Inr (root, s1)" and sup: "table_supply s1 = 14"
    using create_user_supply [OF demo_vmm_pmm_ok] demo_vmm_supply by auto
  have add: "adds_space 0x100000 root demo_vmm s1" using create_user_pml4_adds [OF K] c by simp
  have root: "root \<noteq> 0x100000" using adds_space_spaces(1) [OF add ok] by simp
  have up: "user_pages 0x8000000000 0x2000" by (simp add: user_pages_def)
  obtain s2 where m: "vmm_map_in root 0x8000000000 0x200000 0x2000 7 s1 = Inr (0, s2)"
    unfolding vmm_map_in_def
    by (rule map_in_root_affordable [OF adds_space_ok [OF add] demo_vmm_affordable order_refl]) (use sup in simp)
  have run: "space_run {root} {0x100000} demo_vmm {root, 0x100000} s2"
    using space_run.map [OF space_run.create [OF space_run.start c] _ up m] by simp
  have "entry_of (mem demo_vmm) 0x100000 0x8000000000 = None"
    by (simp add: entry_of_def find_pte_def find_table_def read64_def read_bytes_def numeral_eq_Suc)
  then have "entry_of (mem s2) 0x100000 0x8000000000 = None"
    using address_space_isolation [OF run ok] root by simp
  moreover have "entry_of (mem s2) root 0x8000000000 \<noteq> None"
    using map_in_root_refines [OF adds_space_ok [OF add] user_pages_48 [OF up], of "0x200000" 7] m
    by (auto simp: vmm_map_in_def in_pages_def align_down_def align_up_def)
  ultimately show ?thesis using run root by blast
qed

end
