(* ===== verification/Ports.thy ===== *)
theory Ports
  imports Vmm "HOL-Library.State_Monad"
begin

text \<open>
  Port input and output (\<open>outb\<close>, \<open>outw\<close>, \<open>inb\<close>, \<open>inw\<close> of \<open>include/kernel.h\<close>). The devices behind
  the ports are not part of the kernel: \<open>device\<close> is an arbitrary function that answers a read from
  the whole history of accesses (newest first, the read itself included), and \<open>io_log\<close> is that
  history. Driver code is written in the state monad of the library.
\<close>

subsection \<open>The model\<close>

datatype io_event = Out8 u16 u8 | Out16 u16 u16 | In8 u16 | In16 u16

record ports = vmm +
  device :: "io_event list \<Rightarrow> u16"
  io_log :: "io_event list"

definition io_event :: "io_event \<Rightarrow> 'a ports_scheme \<Rightarrow> 'a ports_scheme" where
  "io_event e s = s\<lparr>io_log := e # io_log s\<rparr>"

definition io_answer :: "'a ports_scheme \<Rightarrow> u16" where
  "io_answer s = device s (io_log s)"

definition outb :: "u16 \<Rightarrow> u8 \<Rightarrow> ('a ports_scheme, unit) state" where
  "outb port value = State (\<lambda>s. ((), io_event (Out8 port value) s))"

definition outw :: "u16 \<Rightarrow> u16 \<Rightarrow> ('a ports_scheme, unit) state" where
  "outw port value = State (\<lambda>s. ((), io_event (Out16 port value) s))"

definition inb :: "u16 \<Rightarrow> ('a ports_scheme, u8) state" where
  "inb port = State (\<lambda>s. let s1 = io_event (In8 port) s in (ucast (io_answer s1), s1))"

definition inw :: "u16 \<Rightarrow> ('a ports_scheme, u16) state" where
  "inw port = State (\<lambda>s. let s1 = io_event (In16 port) s in (io_answer s1, s1))"

text \<open>\<open>for (i = 0; i < n; ++i) out[i] = action\<close>, the values in order.\<close>

fun collect :: "nat \<Rightarrow> ('s, 'v) state \<Rightarrow> ('s, 'v list) state" where
  "collect 0 act = State_Monad.return []"
| "collect (Suc n) act = do { x \<leftarrow> act; xs \<leftarrow> collect n act; State_Monad.return (x # xs) }"

subsection \<open>Facts\<close>

lemma run_out [simp]:
  "run_state (outb port v) s = ((), io_event (Out8 port v) s)"
  "run_state (outw port w) s = ((), io_event (Out16 port w) s)"
  by (simp_all add: outb_def outw_def)

lemma run_in [simp]:
  "run_state (inb port) s = (ucast (io_answer (io_event (In8 port) s)), io_event (In8 port) s)"
  "run_state (inw port) s = (io_answer (io_event (In16 port) s), io_event (In16 port) s)"
  by (simp_all add: inb_def inw_def Let_def)

lemma io_event_fields [simp]:
  "io_log (io_event e s) = e # io_log s" "device (io_event e s) = device s"
  by (simp_all add: io_event_def)

text \<open>
  Driver code changes the history and the driver's own variables only. \<open>only_io\<close> says so for the
  drivers that have no variables of their own; it is closed under the combinators of the monad.
\<close>

definition only_io :: "('a ports_scheme, 'v) state \<Rightarrow> bool" where
  "only_io act \<longleftrightarrow> (\<forall>s. \<exists>log. snd (run_state act s) = s\<lparr>io_log := log\<rparr>)"

lemma only_ioI: "(\<And>s. \<exists>log. snd (run_state act s) = s\<lparr>io_log := log\<rparr>) \<Longrightarrow> only_io act"
  by (simp add: only_io_def)

lemma only_ioE:
  assumes "only_io act" "run_state act s = (x, s')"
  obtains log where "s' = s\<lparr>io_log := log\<rparr>"
  using assms unfolding only_io_def by (metis snd_conv)

lemma only_io_basic [intro]:
  "only_io (outb port v)" "only_io (outw port w)" "only_io (inb port)" "only_io (inw port)"
  by (rule only_ioI, force simp: io_event_def)+

lemma only_io_return [intro]: "only_io (State_Monad.return x)"
proof (rule only_ioI)
  fix s :: "'a ports_scheme"
  show "\<exists>log. snd (run_state (State_Monad.return x) s) = s\<lparr>io_log := log\<rparr>"
    by (intro exI [of _ "io_log s"]) simp
qed

lemma only_io_bind [intro]:
  assumes "only_io act" "\<And>x. only_io (f x)"
  shows "only_io (State_Monad.bind act f)"
proof (rule only_ioI)
  fix s
  obtain x s1 where r: "run_state act s = (x, s1)" by force
  obtain y s2 where r2: "run_state (f x) s1 = (y, s2)" by force
  obtain log where l: "s1 = s\<lparr>io_log := log\<rparr>" by (rule only_ioE [OF assms(1) r])
  obtain log2 where l2: "s2 = s1\<lparr>io_log := log2\<rparr>" by (rule only_ioE [OF assms(2) r2])
  show "\<exists>log. snd (run_state (State_Monad.bind act f) s) = s\<lparr>io_log := log\<rparr>"
    using r r2 l l2 by (intro exI [of _ log2]) simp
qed

lemma only_io_if [intro]: "(c \<Longrightarrow> only_io a) \<Longrightarrow> (\<not> c \<Longrightarrow> only_io b) \<Longrightarrow> only_io (if c then a else b)"
  by simp

lemma only_io_collect [intro]: "only_io act \<Longrightarrow> only_io (collect n act)"
  by (induction n) auto

end
