(* ===== verification/Cstring.thy ===== *)
theory Cstring
  imports Machine
begin

text \<open>
  C strings and the byte helpers that the kernel files carry as private copies. A string value is
  the list of its characters before the terminating zero byte (\<open>cstr\<close>); a \<open>char\<close> array of fixed
  size is the list of all its bytes (\<open>char_array\<close>), and the string it holds is \<open>cstr_of\<close>. Reading
  a character at or after the end of a string value gives the terminator.
\<close>

subsection \<open>The model\<close>

type_synonym cstr = "u8 list"
type_synonym char_array = "u8 list"

definition lit :: "string \<Rightarrow> cstr" where
  "lit s = map of_char s"

definition chr :: "char \<Rightarrow> u8" where
  "chr c = of_char c"

definition cget :: "cstr \<Rightarrow> nat \<Rightarrow> u8" where
  "cget s i = (if i < length s then s ! i else 0)"

definition cstr_of :: "u8 list \<Rightarrow> cstr" where
  "cstr_of bs = takeWhile (\<lambda>b. b \<noteq> 0) bs"

text \<open>
  The string at an address runs to the first zero byte. In a memory without any zero byte a C loop
  over it would not end; the definition then stops after the whole address space.
\<close>

function cstr_from :: "memory \<Rightarrow> u64 \<Rightarrow> nat \<Rightarrow> cstr" where
  "cstr_from m p i =
     (if i < 2 ^ 64 \<and> m (p + word_of_nat i) \<noteq> 0
      then m (p + word_of_nat i) # cstr_from m p (Suc i) else [])"
  by pat_completeness auto
termination
  by (relation "measure (\<lambda>(m, p, i). 2 ^ 64 - i)") auto

declare cstr_from.simps [simp del]

definition cstr_at :: "memory \<Rightarrow> u64 \<Rightarrow> cstr" where
  "cstr_at m p = cstr_from m p 0"

text \<open>\<open>str_eq\<close> of \<open>initramfs.c\<close> and its copies in \<open>vfs.c\<close>, \<open>block.c\<close> and \<open>okmod.c\<close>.\<close>

fun str_eq :: "cstr \<Rightarrow> cstr \<Rightarrow> bool" where
  "str_eq (a # as) (b # bs) = (if a = b then str_eq as bs else False)"
| "str_eq as bs = (cget as 0 = cget bs 0)"

definition str_len :: "cstr \<Rightarrow> u64" where
  "str_len s = word_of_nat (length s)"

definition str_prefix_eq :: "cstr \<Rightarrow> cstr \<Rightarrow> nat \<Rightarrow> bool" where
  "str_prefix_eq a b n \<longleftrightarrow> list_all (\<lambda>i. cget a i = cget b i) [0..<n]"

text \<open>
  \<open>copy_string dst src max\<close> of \<open>syscall.c\<close>: at most \<open>max - 1\<close> characters and a terminator; the
  rest of the array keeps its bytes.
\<close>

fun copy_chars :: "nat \<Rightarrow> cstr \<Rightarrow> cstr" where
  "copy_chars 0 src = []"
| "copy_chars (Suc n) [] = []"
| "copy_chars (Suc n) (c # cs) = c # copy_chars n cs"

definition copy_string :: "char_array \<Rightarrow> cstr \<Rightarrow> nat \<Rightarrow> char_array" where
  "copy_string dst src n =
     (let text = copy_chars (n - 1) src in text @ 0 # drop (Suc (length text)) dst)"

subsection \<open>Facts\<close>

lemma copy_chars_take [simp]: "copy_chars n src = take n src"
  by (induction n src rule: copy_chars.induct) auto

lemma cstr_of_nonzero: "0 \<notin> set (cstr_of bs)"
  unfolding cstr_of_def using set_takeWhileD by fastforce

lemma cstr_from_nonzero: "0 \<notin> set (cstr_from m p i)"
proof (induction m p i rule: cstr_from.induct)
  case (1 m p i)
  show ?case
  proof (cases "i < 2 ^ 64 \<and> m (p + word_of_nat i) \<noteq> 0")
    case True
    with 1 have "0 \<notin> set (cstr_from m p (Suc i))" by blast
    with True show ?thesis by (subst cstr_from.simps) simp
  next
    case False
    then show ?thesis by (subst cstr_from.simps) auto
  qed
qed

lemma cstr_at_nonzero: "0 \<notin> set (cstr_at m p)"
  by (simp add: cstr_at_def cstr_from_nonzero)

lemma cget_0_eq_0: "0 \<notin> set a \<Longrightarrow> cget a 0 = 0 \<longleftrightarrow> a = []"
  by (cases a) (auto simp: cget_def)

lemma cget_Nil [simp]: "cget [] i = 0"
  by (simp add: cget_def)

lemma str_eq_iff: "0 \<notin> set a \<Longrightarrow> 0 \<notin> set b \<Longrightarrow> str_eq a b \<longleftrightarrow> a = b"
  by (induction a b rule: str_eq.induct) (auto simp: cget_0_eq_0 dest: sym)

lemma str_eq_refl [simp]: "str_eq a a"
  by (induction a) auto

lemma cstr_of_copy_string:
  assumes "0 \<notin> set src"
  shows "cstr_of (copy_string dst src n) = take (n - 1) src"
proof -
  have "x \<in> set (take (n - 1) src) \<Longrightarrow> x \<noteq> 0" for x using assms in_set_takeD by force
  then show ?thesis by (simp add: cstr_of_def copy_string_def Let_def takeWhile_append2)
qed

lemma length_copy_string: "n \<noteq> 0 \<Longrightarrow> n \<le> length dst \<Longrightarrow> length (copy_string dst src n) = length dst"
  by (simp add: copy_string_def Let_def min_def)

end
