(* ===== verification/Serial.thy ===== *)
theory Serial
  imports Ports Cstring
begin

text \<open>
  The serial port, \<open>kernel/serial.c\<close>: polling input and output on \<open>COM1\<close>, and the formatter of
  \<open>kprintf\<close>. \<open>kprintf_text\<close> gives the characters that a call prints; the other theories leave
  calls of \<open>kprintf\<close> out, because nothing in the kernel reads what was printed.
\<close>

subsection \<open>The model\<close>

definition COM1 :: u16 where
  "COM1 = 0x3f8"

definition serial_init :: "('a ports_scheme, unit) state" where
  "serial_init = do {
     outb (COM1 + 1) 0x00;
     outb (COM1 + 3) 0x80;
     outb (COM1 + 0) 0x03;
     outb (COM1 + 1) 0x00;
     outb (COM1 + 3) 0x03;
     outb (COM1 + 2) 0xc7;
     outb (COM1 + 4) 0x0b }"

definition serial_ready :: "('a ports_scheme, bool) state" where
  "serial_ready = do { status \<leftarrow> inb (COM1 + 5); State_Monad.return (status AND 0x20 \<noteq> 0) }"

text \<open>\<open>None\<close> is the result \<open>-1\<close>.\<close>

definition serial_read_byte :: "('a ports_scheme, u8 option) state" where
  "serial_read_byte = do {
     status \<leftarrow> inb (COM1 + 5);
     if status AND 0x01 = 0 then State_Monad.return None
     else do { b \<leftarrow> inb COM1; State_Monad.return (Some b) } }"

partial_function (option) serial_wait :: "'a ports_scheme \<Rightarrow> 'a ports_scheme option" where
  "serial_wait s =
     (let (ready, s1) = run_state serial_ready s in if ready then Some s1 else serial_wait s1)"

definition serial_put_raw :: "u8 \<Rightarrow> 'a ports_scheme \<Rightarrow> 'a ports_scheme or_panic" where
  "serial_put_raw c s = kbind (of_loop (serial_wait s)) (\<lambda>s1. Inr (snd (run_state (outb COM1 c) s1)))"

definition serial_putc :: "u8 \<Rightarrow> 'a ports_scheme \<Rightarrow> 'a ports_scheme or_panic" where
  "serial_putc c s =
     kbind (if c = 10 then serial_put_raw 13 s else Inr s) (\<lambda>s1. serial_put_raw c s1)"

fun serial_write :: "cstr \<Rightarrow> 'a ports_scheme \<Rightarrow> 'a ports_scheme or_panic" where
  "serial_write [] s = Inr s"
| "serial_write (c # cs) s = kbind (serial_putc c s) (\<lambda>s1. serial_write cs s1)"

subsection \<open>Formatting\<close>

definition digit_char :: "u64 \<Rightarrow> u8" where
  "digit_char d = lit ''0123456789abcdef'' ! unat d"

text \<open>
  The digit loop of \<open>print_uint\<close> fills at most 32 characters, least significant digit first;
  \<open>n\<close> counts the room left in the buffer.
\<close>

fun uint_digits :: "nat \<Rightarrow> u64 \<Rightarrow> u64 \<Rightarrow> u8 list" where
  "uint_digits 0 v b = []"
| "uint_digits (Suc n) v b = (if v = 0 then [] else digit_char (v mod b) # uint_digits n (v div b) b)"

definition print_uint :: "u64 \<Rightarrow> u64 \<Rightarrow> u8 list" where
  "print_uint v b = (if v = 0 then lit ''0'' else rev (uint_digits 32 v b))"

text \<open>The arguments of a call: an unsigned \<open>int\<close>, a 64-bit value or pointer, a string or null.\<close>

datatype karg = KUnsigned u32 | KLong u64 | KStr "cstr option"

definition karg_str :: "karg list \<Rightarrow> cstr option" where
  "karg_str args = (case args of KStr s # _ \<Rightarrow> s | _ \<Rightarrow> None)"

definition karg_uint :: "karg list \<Rightarrow> u64" where
  "karg_uint args = (case args of KUnsigned v # _ \<Rightarrow> ucast v | KLong v # _ \<Rightarrow> v | _ \<Rightarrow> 0)"

text \<open>
  A \<open>%\<close> that ends the format makes the code print the terminator and read on behind the string; no
  format of the kernel does, and the model stops there.
\<close>

fun kprintf_text :: "cstr \<Rightarrow> karg list \<Rightarrow> u8 list" where
  "kprintf_text [] args = []"
| "kprintf_text [c] args = (if c = chr CHR ''%'' then [0] else [c])"
| "kprintf_text (c # d # cs) args =
     (if c \<noteq> chr CHR ''%'' then c # kprintf_text (d # cs) args
      else if d = chr CHR ''s'' then
        (case karg_str args of Some t \<Rightarrow> t | None \<Rightarrow> lit ''(null)'') @ kprintf_text cs (tl args)
      else if d = chr CHR ''u'' then print_uint (karg_uint args) 10 @ kprintf_text cs (tl args)
      else if d = chr CHR ''x'' then print_uint (karg_uint args) 16 @ kprintf_text cs (tl args)
      else if d = chr CHR ''l'' \<and> cget cs 0 = chr CHR ''x''
      then print_uint (karg_uint args) 16 @ kprintf_text (tl cs) (tl args)
      else if d = chr CHR ''p''
      then lit ''0x'' @ print_uint (karg_uint args) 16 @ kprintf_text cs (tl args)
      else d # kprintf_text cs args)"

definition kprintf :: "cstr \<Rightarrow> karg list \<Rightarrow> 'a ports_scheme \<Rightarrow> 'a ports_scheme or_panic" where
  "kprintf fmt args s = serial_write (kprintf_text fmt args) s"

end
