(* ===== verification/Abi.thy ===== *)
theory Abi
  imports Cstring
begin

text \<open>
  The structures and numbers that the kernel shares with user programs and modules,
  \<open>include/ore_abi.h\<close>. A structure is a record; \<open>char\<close> arrays are lists of all their bytes. Where
  the kernel copies a whole structure to user memory, the function \<open>bytes_of_\<dots>\<close> gives its bytes in
  the x86-64 layout, padding included.
\<close>

subsection \<open>Numbers\<close>

abbreviation (input) ORE_ENOENT :: int where "ORE_ENOENT \<equiv> 2"
abbreviation (input) ORE_EINVAL :: int where "ORE_EINVAL \<equiv> 22"
abbreviation (input) ORE_EBADF :: int where "ORE_EBADF \<equiv> 9"
abbreviation (input) ORE_EFAULT :: int where "ORE_EFAULT \<equiv> 14"
abbreviation (input) ORE_ENOSYS :: int where "ORE_ENOSYS \<equiv> 38"
abbreviation (input) ORE_ENOMEM :: int where "ORE_ENOMEM \<equiv> 12"

datatype ore_syscall =
    ORE_SYS_WRITE | ORE_SYS_READ | ORE_SYS_EXIT
  | ORE_SYS_YIELD | ORE_SYS_OPEN | ORE_SYS_READDIR
  | ORE_SYS_STAT | ORE_SYS_CLOSE | ORE_SYS_FILE_READ
  | ORE_SYS_INFO | ORE_SYS_SPAWN | ORE_SYS_WAIT
  | ORE_SYS_GETPID | ORE_SYS_SLEEP | ORE_SYS_PROC_INFO
  | ORE_SYS_ARGS | ORE_SYS_EXEC_IMAGE | ORE_SYS_MOD_INFO
  | ORE_SYS_KCMD | ORE_SYS_GFX_INFO | ORE_SYS_GFX_PRESENT
  | ORE_SYS_INPUT_STATE | ORE_SYS_USER_ALLOC_PAGES | ORE_SYS_USER_FREE_PAGES
  | ORE_SYS_TERRAIN_RENDER | ORE_SYS_NET_INFO | ORE_SYS_NET_RECV
  | ORE_SYS_NET_SEND

text \<open>\<open>sysno\<close> is the call that a number means, \<open>None\<close> for a number without one.\<close>

definition ore_syscalls :: "(u64 \<times> ore_syscall) list" where
  "ore_syscalls = [
     (1, ORE_SYS_WRITE), (2, ORE_SYS_READ), (3, ORE_SYS_EXIT),
     (4, ORE_SYS_YIELD), (5, ORE_SYS_OPEN), (6, ORE_SYS_READDIR),
     (7, ORE_SYS_STAT), (8, ORE_SYS_CLOSE), (9, ORE_SYS_FILE_READ),
     (10, ORE_SYS_INFO), (11, ORE_SYS_SPAWN), (12, ORE_SYS_WAIT),
     (13, ORE_SYS_GETPID), (14, ORE_SYS_SLEEP), (15, ORE_SYS_PROC_INFO),
     (16, ORE_SYS_ARGS), (17, ORE_SYS_EXEC_IMAGE), (18, ORE_SYS_MOD_INFO),
     (19, ORE_SYS_KCMD), (20, ORE_SYS_GFX_INFO), (21, ORE_SYS_GFX_PRESENT),
     (22, ORE_SYS_INPUT_STATE), (23, ORE_SYS_USER_ALLOC_PAGES), (24, ORE_SYS_USER_FREE_PAGES),
     (25, ORE_SYS_TERRAIN_RENDER), (26, ORE_SYS_NET_INFO), (27, ORE_SYS_NET_RECV),
     (28, ORE_SYS_NET_SEND)]"

definition sysno :: "u64 \<Rightarrow> ore_syscall option" where
  "sysno number = map_of ore_syscalls number"

abbreviation (input) ORE_VFS_FILE :: u32 where "ORE_VFS_FILE \<equiv> 1"
abbreviation (input) ORE_VFS_DIR :: u32 where "ORE_VFS_DIR \<equiv> 2"

abbreviation (input) ORE_PROC_UNUSED :: u32 where "ORE_PROC_UNUSED \<equiv> 0"
abbreviation (input) ORE_PROC_READY :: u32 where "ORE_PROC_READY \<equiv> 1"
abbreviation (input) ORE_PROC_RUNNING :: u32 where "ORE_PROC_RUNNING \<equiv> 2"
abbreviation (input) ORE_PROC_EXITED :: u32 where "ORE_PROC_EXITED \<equiv> 3"
abbreviation (input) ORE_PROC_BLOCKED :: u32 where "ORE_PROC_BLOCKED \<equiv> 4"

abbreviation (input) ORE_GFX_FORMAT_INDEXED16 :: u32 where "ORE_GFX_FORMAT_INDEXED16 \<equiv> 1"
abbreviation (input) ORE_GFX_LOGICAL_WIDTH :: u32 where "ORE_GFX_LOGICAL_WIDTH \<equiv> 640"
abbreviation (input) ORE_GFX_LOGICAL_HEIGHT :: u32 where "ORE_GFX_LOGICAL_HEIGHT \<equiv> 480"

abbreviation (input) ORE_INPUT_LEFT :: u32 where "ORE_INPUT_LEFT \<equiv> push_bit 0 1"
abbreviation (input) ORE_INPUT_RIGHT :: u32 where "ORE_INPUT_RIGHT \<equiv> push_bit 1 1"
abbreviation (input) ORE_INPUT_UP :: u32 where "ORE_INPUT_UP \<equiv> push_bit 2 1"
abbreviation (input) ORE_INPUT_DOWN :: u32 where "ORE_INPUT_DOWN \<equiv> push_bit 3 1"
abbreviation (input) ORE_INPUT_FIRE :: u32 where "ORE_INPUT_FIRE \<equiv> push_bit 4 1"
abbreviation (input) ORE_INPUT_QUIT :: u32 where "ORE_INPUT_QUIT \<equiv> push_bit 5 1"

abbreviation (input) ORE_NET_MAX_FRAME :: u64 where "ORE_NET_MAX_FRAME \<equiv> 1518"

abbreviation (input) ORE_IMAGE_MAGIC :: u64 where "ORE_IMAGE_MAGIC \<equiv> 0x31474d4945524f"
abbreviation (input) ORE_IMAGE_VERSION :: u32 where "ORE_IMAGE_VERSION \<equiv> 1"
abbreviation (input) ORE_IMAGE_RELOC_ABS64 :: u32 where "ORE_IMAGE_RELOC_ABS64 \<equiv> 1"
abbreviation (input) ORE_IMAGE_RELOC_PC32 :: u32 where "ORE_IMAGE_RELOC_PC32 \<equiv> 2"
abbreviation (input) ORE_KMOD_MAGIC :: u64 where "ORE_KMOD_MAGIC \<equiv> 0x31444f4d4b45524f"
abbreviation (input) ORE_KMOD_VERSION :: u32 where "ORE_KMOD_VERSION \<equiv> 1"
abbreviation (input) ORE_KERNEL_ABI_VERSION :: u32 where "ORE_KERNEL_ABI_VERSION \<equiv> 1"

subsection \<open>Structures\<close>

record OreVfsStat =
  vs_name :: char_array
  vs_type :: u32
  vs_reserved :: u32
  vs_size :: u64

record OreSysInfo =
  si_total_pages :: u64
  si_free_pages :: u64
  si_used_pages :: u64
  si_reserved_pages :: u64
  si_uptime_ticks :: u64
  si_cpu_count :: u32
  si_pid :: u32

record OreProcessInfo =
  pi_pid :: u32
  pi_ppid :: u32
  pi_state :: u32
  pi_exit_code :: u32
  pi_segment_count :: u32
  pi_padding :: u32
  pi_syscall_count :: u64
  pi_entry :: u64
  pi_stack :: u64
  pi_name :: char_array

record OreModuleInfo =
  mi_name :: char_array
  mi_path :: char_array
  mi_state :: u32
  mi_abi_version :: u32
  mi_init_rc :: u32
  mi_reserved :: u32
  mi_text_base :: u64
  mi_text_size :: u64
  mi_data_size :: u64
  mi_has_command :: u32
  mi_reserved2 :: u32

record OreGfxInfo =
  gi_width :: u32
  gi_height :: u32
  gi_logical_width :: u32
  gi_logical_height :: u32
  gi_format :: u32
  gi_pitch :: u32
  gi_palette_count :: u32
  gi_reserved :: u32

record OreInputState =
  is_keys :: u32
  is_ascii :: u32
  is_mouse_x :: u32
  is_mouse_y :: u32
  is_buttons :: u32
  is_frame :: u32

record OreTerrainJob =
  tj_seed :: u64
  tj_frame :: u64
  tj_camera_x :: u32
  tj_camera_y :: u32
  tj_camera_z :: u32
  tj_yaw :: u32
  tj_pitch :: u32
  tj_speed :: u32
  tj_flags :: u32
  tj_reserved :: u32

record OreTerrainResult =
  tr_workers_used :: u32
  tr_objects_rendered :: u32
  tr_collision_flags :: u32
  tr_reserved :: u32
  tr_checksum :: u64
  tr_render_ticks :: u64

record OreNetInfo =
  ni_ready :: u32
  ni_mtu :: u32
  ni_mac :: "u8 list"
  ni_reserved :: "u8 list"
  ni_ip_be :: u32
  ni_gateway_be :: u32
  ni_dns_be :: u32

record OreImageHeader =
  ih_magic :: u64
  ih_version :: u32
  ih_header_size :: u32
  ih_entry :: u64
  ih_text_size :: u64
  ih_data_size :: u64
  ih_bss_size :: u64
  ih_reloc_count :: u64

record OreImageReloc =
  ir_offset :: u64
  ir_symbol_offset :: u64
  ir_type :: u32
  ir_segment :: u32

record OreKModHeader =
  kh_magic :: u64
  kh_version :: u32
  kh_header_size :: u32
  kh_kernel_abi_version :: u32
  kh_flags :: u32
  kh_entry :: u64
  kh_text_size :: u64
  kh_data_size :: u64
  kh_bss_size :: u64
  kh_reloc_count :: u64
  kh_import_count :: u64
  kh_export_count :: u64
  kh_command_entry :: u64
  kh_name :: char_array

subsection \<open>Layout\<close>

definition le32 :: "u32 \<Rightarrow> u8 list" where
  "le32 v = nat_to_le 4 (unat v)"

definition le64 :: "u64 \<Rightarrow> u8 list" where
  "le64 v = nat_to_le 8 (unat v)"

definition bytes_of_stat :: "OreVfsStat \<Rightarrow> u8 list" where
  "bytes_of_stat st = vs_name st @ le32 (vs_type st) @ le32 (vs_reserved st) @ le64 (vs_size st)"

definition bytes_of_sysinfo :: "OreSysInfo \<Rightarrow> u8 list" where
  "bytes_of_sysinfo i =
     le64 (si_total_pages i) @ le64 (si_free_pages i) @ le64 (si_used_pages i)
     @ le64 (si_reserved_pages i) @ le64 (si_uptime_ticks i) @ le32 (si_cpu_count i) @ le32 (si_pid i)"

definition bytes_of_procinfo :: "OreProcessInfo \<Rightarrow> u8 list" where
  "bytes_of_procinfo i =
     le32 (pi_pid i) @ le32 (pi_ppid i) @ le32 (pi_state i) @ le32 (pi_exit_code i)
     @ le32 (pi_segment_count i) @ le32 (pi_padding i) @ le64 (pi_syscall_count i)
     @ le64 (pi_entry i) @ le64 (pi_stack i) @ pi_name i"

definition bytes_of_modinfo :: "OreModuleInfo \<Rightarrow> u8 list" where
  "bytes_of_modinfo i =
     mi_name i @ mi_path i @ le32 (mi_state i) @ le32 (mi_abi_version i) @ le32 (mi_init_rc i)
     @ le32 (mi_reserved i) @ le64 (mi_text_base i) @ le64 (mi_text_size i) @ le64 (mi_data_size i)
     @ le32 (mi_has_command i) @ le32 (mi_reserved2 i)"

definition bytes_of_gfxinfo :: "OreGfxInfo \<Rightarrow> u8 list" where
  "bytes_of_gfxinfo i =
     le32 (gi_width i) @ le32 (gi_height i) @ le32 (gi_logical_width i) @ le32 (gi_logical_height i)
     @ le32 (gi_format i) @ le32 (gi_pitch i) @ le32 (gi_palette_count i) @ le32 (gi_reserved i)"

definition bytes_of_input :: "OreInputState \<Rightarrow> u8 list" where
  "bytes_of_input i =
     le32 (is_keys i) @ le32 (is_ascii i) @ le32 (is_mouse_x i) @ le32 (is_mouse_y i)
     @ le32 (is_buttons i) @ le32 (is_frame i)"

definition bytes_of_terrain_result :: "OreTerrainResult \<Rightarrow> u8 list" where
  "bytes_of_terrain_result r =
     le32 (tr_workers_used r) @ le32 (tr_objects_rendered r) @ le32 (tr_collision_flags r)
     @ le32 (tr_reserved r) @ le64 (tr_checksum r) @ le64 (tr_render_ticks r)"

definition bytes_of_netinfo :: "OreNetInfo \<Rightarrow> u8 list" where
  "bytes_of_netinfo i =
     le32 (ni_ready i) @ le32 (ni_mtu i) @ ni_mac i @ ni_reserved i @ le32 (ni_ip_be i)
     @ le32 (ni_gateway_be i) @ le32 (ni_dns_be i)"

text \<open>Loads of the headers that the kernel reads from an image in memory.\<close>

definition image_header_at :: "memory \<Rightarrow> u64 \<Rightarrow> OreImageHeader" where
  "image_header_at m p =
     \<lparr>ih_magic = read64 m p, ih_version = read32 m (p + 8), ih_header_size = read32 m (p + 12),
      ih_entry = read64 m (p + 16), ih_text_size = read64 m (p + 24), ih_data_size = read64 m (p + 32),
      ih_bss_size = read64 m (p + 40), ih_reloc_count = read64 m (p + 48)\<rparr>"

definition image_reloc_at :: "memory \<Rightarrow> u64 \<Rightarrow> OreImageReloc" where
  "image_reloc_at m p =
     \<lparr>ir_offset = read64 m p, ir_symbol_offset = read64 m (p + 8), ir_type = read32 m (p + 16),
      ir_segment = read32 m (p + 20)\<rparr>"

definition kmod_header_at :: "memory \<Rightarrow> u64 \<Rightarrow> OreKModHeader" where
  "kmod_header_at m p =
     \<lparr>kh_magic = read64 m p, kh_version = read32 m (p + 8), kh_header_size = read32 m (p + 12),
      kh_kernel_abi_version = read32 m (p + 16), kh_flags = read32 m (p + 20), kh_entry = read64 m (p + 24),
      kh_text_size = read64 m (p + 32), kh_data_size = read64 m (p + 40), kh_bss_size = read64 m (p + 48),
      kh_reloc_count = read64 m (p + 56), kh_import_count = read64 m (p + 64),
      kh_export_count = read64 m (p + 72), kh_command_entry = read64 m (p + 80),
      kh_name = read_bytes m (p + 88) 32\<rparr>"

definition terrain_job_of :: "u8 list \<Rightarrow> OreTerrainJob" where
  "terrain_job_of bs =
     (let w64 = (\<lambda>k. word_of_nat (le_to_nat (take 8 (drop k bs))) :: u64);
          w32 = (\<lambda>k. word_of_nat (le_to_nat (take 4 (drop k bs))) :: u32)
      in \<lparr>tj_seed = w64 0, tj_frame = w64 8, tj_camera_x = w32 16, tj_camera_y = w32 20,
          tj_camera_z = w32 24, tj_yaw = w32 28, tj_pitch = w32 32, tj_speed = w32 36,
          tj_flags = w32 40, tj_reserved = w32 44\<rparr>)"

lemma layout_lengths [simp]: "length (le32 v) = 4" "length (le64 w) = 8"
  by (simp_all add: le32_def le64_def)

end
