(* ===== verification/Console.thy ===== *)
theory Console
  imports Serial Abi Bootinfo
begin

text \<open>
  The framebuffer console and keyboard input, \<open>kernel/console.c\<close>. The framebuffer is memory: a pixel
  is a 32-bit cell at \<open>fb_base\<close>, indexed with 32-bit arithmetic as in the code. The console lock is
  the spinlock of the component \<open>Spinlock\<close>, and interrupts are off while it is held, so a call is one
  step here.
\<close>

subsection \<open>State and constants\<close>

record console = ports +
  fb :: OreFramebuffer
  cursor_x :: u32
  cursor_y :: u32
  cols :: u32
  rows :: u32
  text_origin_y :: u32
  text_origin_x :: u32
  esc_state :: u32
  esc_param :: u32
  esc_params :: "u32 list"
  esc_param_count :: u32
  current_fg :: u32
  current_bg :: u32
  inverse_video :: bool
  ps2_shift :: bool
  ps2_e0 :: bool
  input_keys :: u32
  input_ascii :: u32
  input_frame :: u32
  gfx_mode_active :: bool

abbreviation (input) CELL_W :: u32 where "CELL_W \<equiv> 12"
abbreviation (input) CELL_H :: u32 where "CELL_H \<equiv> 18"
abbreviation (input) TOP_BAR_H :: u32 where "TOP_BAR_H \<equiv> 32"
abbreviation (input) LEFT_PAD :: u32 where "LEFT_PAD \<equiv> 16"
abbreviation (input) BG :: u32 where "BG \<equiv> 0x000b1014"
abbreviation (input) PANEL_BG :: u32 where "PANEL_BG \<equiv> 0x00101920"
abbreviation (input) BAR_BG :: u32 where "BAR_BG \<equiv> 0x00182026"
abbreviation (input) FG :: u32 where "FG \<equiv> 0x00e6edf3"
abbreviation (input) DIM :: u32 where "DIM \<equiv> 0x008aa0ad"
abbreviation (input) ACCENT :: u32 where "ACCENT \<equiv> 0x004ed7b7"
abbreviation (input) BLUE :: u32 where "BLUE \<equiv> 0x0064b5f6"
abbreviation (input) YELLOW :: u32 where "YELLOW \<equiv> 0x00f3cc60"
abbreviation (input) RED :: u32 where "RED \<equiv> 0x00ff6b6b"
abbreviation (input) GREEN :: u32 where "GREEN \<equiv> 0x0068d391"
abbreviation (input) MAGENTA :: u32 where "MAGENTA \<equiv> 0x00c792ea"
abbreviation (input) CYAN :: u32 where "CYAN \<equiv> 0x005fd7e5"

definition game_palette :: "u32 list" where
  "game_palette = [
     0x00000000, 0x0011233d, 0x00236fc2, 0x004cc9f0,
     0x002f7d32, 0x006fc45a, 0x007a4a28, 0x007f8a93,
     0x00e8eef2, 0x00f5d76e, 0x00e89242, 0x00d64646,
     0x00ef4fc3, 0x008746d6, 0x002073a8, 0x00fff6a8]"

subsection \<open>Drawing\<close>

definition pixel_addr :: "OreFramebuffer \<Rightarrow> u32 \<Rightarrow> u32 \<Rightarrow> u64" where
  "pixel_addr f x y = fb_base f + 4 * ucast (y * pixels_per_scanline f + x)"

definition put_pixel :: "u32 \<Rightarrow> u32 \<Rightarrow> u32 \<Rightarrow> 'a console_scheme \<Rightarrow> 'a console_scheme" where
  "put_pixel x y color s =
     (if fb_base (fb s) = 0 \<or> fb_width (fb s) \<le> x \<or> fb_height (fb s) \<le> y then s
      else s\<lparr>mem := write32 (mem s) (pixel_addr (fb s) x y) color\<rparr>)"

text \<open>The values of \<open>for (i = a; i < b; ++i)\<close> over unsigned 32-bit integers.\<close>

definition u32_range :: "u32 \<Rightarrow> u32 \<Rightarrow> u32 list" where
  "u32_range a b = map word_of_nat [unat a..<unat b]"

definition fill_rect :: "u32 \<Rightarrow> u32 \<Rightarrow> u32 \<Rightarrow> u32 \<Rightarrow> u32 \<Rightarrow> 'a console_scheme \<Rightarrow> 'a console_scheme" where
  "fill_rect x0 y0 w h color s =
     fold (\<lambda>y. fold (\<lambda>x. put_pixel x y color) (u32_range x0 (min (x0 + w) (fb_width (fb s)))))
       (u32_range y0 (min (y0 + h) (fb_height (fb s)))) s"

definition letter_glyphs :: "u8 list list" where
  "letter_glyphs = [
     [14, 17, 17, 31, 17, 17, 17],
     [30, 17, 17, 30, 17, 17, 30],
     [14, 17, 16, 16, 16, 17, 14],
     [30, 17, 17, 17, 17, 17, 30],
     [31, 16, 16, 30, 16, 16, 31],
     [31, 16, 16, 30, 16, 16, 16],
     [14, 17, 16, 23, 17, 17, 15],
     [17, 17, 17, 31, 17, 17, 17],
     [14, 4, 4, 4, 4, 4, 14],
     [7, 2, 2, 2, 18, 18, 12],
     [17, 18, 20, 24, 20, 18, 17],
     [16, 16, 16, 16, 16, 16, 31],
     [17, 27, 21, 21, 17, 17, 17],
     [17, 25, 21, 19, 17, 17, 17],
     [14, 17, 17, 17, 17, 17, 14],
     [30, 17, 17, 30, 16, 16, 16],
     [14, 17, 17, 17, 21, 18, 13],
     [30, 17, 17, 30, 20, 18, 17],
     [15, 16, 16, 14, 1, 1, 30],
     [31, 4, 4, 4, 4, 4, 4],
     [17, 17, 17, 17, 17, 17, 14],
     [17, 17, 17, 17, 17, 10, 4],
     [17, 17, 17, 21, 21, 21, 10],
     [17, 17, 10, 4, 10, 17, 17],
     [17, 17, 10, 4, 4, 4, 4],
     [31, 1, 2, 4, 8, 16, 31]]"

definition glyph_rows :: "u8 \<Rightarrow> u8 list" where
  "glyph_rows c0 =
     (let c = (if chr CHR ''a'' \<le> c0 \<and> c0 \<le> chr CHR ''z'' then c0 - chr CHR ''a'' + chr CHR ''A'' else c0)
      in if chr CHR ''A'' \<le> c \<and> c \<le> chr CHR ''Z'' then letter_glyphs ! unat (c - chr CHR ''A'')
      else if c = chr CHR ''0'' then [14, 17, 19, 21, 25, 17, 14]
      else if c = chr CHR ''1'' then [4, 12, 4, 4, 4, 4, 14]
      else if c = chr CHR ''2'' then [14, 17, 1, 2, 4, 8, 31]
      else if c = chr CHR ''3'' then [30, 1, 1, 14, 1, 1, 30]
      else if c = chr CHR ''4'' then [2, 6, 10, 18, 31, 2, 2]
      else if c = chr CHR ''5'' then [31, 16, 30, 1, 1, 17, 14]
      else if c = chr CHR ''6'' then [6, 8, 16, 30, 17, 17, 14]
      else if c = chr CHR ''7'' then [31, 1, 2, 4, 8, 8, 8]
      else if c = chr CHR ''8'' then [14, 17, 17, 14, 17, 17, 14]
      else if c = chr CHR ''9'' then [14, 17, 17, 15, 1, 2, 12]
      else if c = chr CHR '' '' then [0, 0, 0, 0, 0, 0, 0]
      else if c = chr CHR ''!'' then [4, 4, 4, 4, 4, 0, 4]
      else if c = chr CHR '':'' then [0, 4, 4, 0, 4, 4, 0]
      else if c = chr CHR ''.'' then [0, 0, 0, 0, 0, 12, 12]
      else if c = chr CHR '','' then [0, 0, 0, 0, 0, 4, 8]
      else if c = chr CHR ''/'' then [1, 1, 2, 4, 8, 16, 16]
      else if c = chr CHR ''-'' then [0, 0, 0, 31, 0, 0, 0]
      else if c = chr CHR ''_'' then [0, 0, 0, 0, 0, 0, 31]
      else if c = chr CHR ''>'' then [16, 8, 4, 2, 4, 8, 16]
      else if c = chr CHR ''<'' then [1, 2, 4, 8, 4, 2, 1]
      else if c = chr CHR ''='' then [0, 0, 31, 0, 31, 0, 0]
      else if c = chr CHR ''+'' then [0, 4, 4, 31, 4, 4, 0]
      else if c = 34 then [10, 10, 0, 0, 0, 0, 0]
      else if c = 39 then [4, 4, 0, 0, 0, 0, 0]
      else if c = chr CHR ''('' then [2, 4, 8, 8, 8, 4, 2]
      else if c = chr CHR '')'' then [8, 4, 2, 2, 2, 4, 8]
      else if c = chr CHR ''*'' then [0, 21, 14, 31, 14, 21, 0]
      else if c = chr CHR ''#'' then [10, 31, 10, 10, 31, 10, 0]
      else [14, 17, 1, 2, 4, 0, 4])"

definition normal_keys :: "u8 list" where
  "normal_keys = [
     0, 27, 49, 50, 51, 52, 53, 54, 55, 56, 57, 48, 45, 61, 8, 9,
     113, 119, 101, 114, 116, 121, 117, 105, 111, 112, 91, 93, 10, 0, 97, 115,
     100, 102, 103, 104, 106, 107, 108, 59, 39, 96, 0, 92, 122, 120, 99, 118,
     98, 110, 109, 44, 46, 47, 0, 0, 0, 32] @ replicate 70 0"

definition shifted_keys :: "u8 list" where
  "shifted_keys = [
     0, 27, 33, 64, 35, 36, 37, 94, 38, 42, 40, 41, 95, 43, 8, 9,
     81, 87, 69, 82, 84, 89, 85, 73, 79, 80, 123, 125, 10, 0, 65, 83,
     68, 70, 71, 72, 74, 75, 76, 58, 34, 126, 0, 124, 90, 88, 67, 86,
     66, 78, 77, 60, 62, 63, 0, 0, 0, 32] @ replicate 70 0"

definition draw_dot :: "u32 \<Rightarrow> u32 \<Rightarrow> u32 \<Rightarrow> 'a console_scheme \<Rightarrow> 'a console_scheme" where
  "draw_dot gx gy color s =
     put_pixel (gx + 1) (gy + 1) color (put_pixel gx (gy + 1) color (put_pixel (gx + 1) gy color (put_pixel gx gy color s)))"

definition draw_glyph :: "u32 \<Rightarrow> u32 \<Rightarrow> u8 \<Rightarrow> u32 \<Rightarrow> 'a console_scheme \<Rightarrow> 'a console_scheme" where
  "draw_glyph px py c color s =
     fold (\<lambda>y. fold (\<lambda>x t.
         if bit (glyph_rows c ! y) (4 - x)
         then draw_dot (px + 1 + word_of_nat x * 2) (py + 2 + word_of_nat y * 2) color t else t)
       [0..<5]) [0..<7] s"

fun draw_text_px :: "u32 \<Rightarrow> u32 \<Rightarrow> cstr \<Rightarrow> u32 \<Rightarrow> 'a console_scheme \<Rightarrow> 'a console_scheme" where
  "draw_text_px x y [] color s = s"
| "draw_text_px x y (c # cs) color s = draw_text_px (x + CELL_W) y cs color (draw_glyph x y c color s)"

definition draw_status_bar :: "'a console_scheme \<Rightarrow> 'a console_scheme" where
  "draw_status_bar s =
     (if fb_base (fb s) = 0 then s
      else
        let w = fb_width (fb s);
            s1 = fill_rect 0 0 w TOP_BAR_H BAR_BG s;
            s2 = fill_rect 0 (TOP_BAR_H - 3) w 1 BLUE s1;
            s3 = fill_rect 0 (TOP_BAR_H - 2) w 2 ACCENT s2;
            s4 = fill_rect 8 7 24 18 ACCENT s3;
            s5 = draw_text_px 40 9 (lit ''ORE'') FG s4;
            s6 = draw_text_px 80 9 (lit ''interactive system'') ACCENT s5
        in draw_text_px (if 224 < w then w - 224 else 8) 9 (lit ''disk / smp / ring3'') DIM s6)"

definition clear_screen :: "'a console_scheme \<Rightarrow> 'a console_scheme" where
  "clear_screen s =
     (if fb_base (fb s) = 0 then s
      else
        let w = fb_width (fb s); h = fb_height (fb s);
            s1 = fill_rect 0 0 w h BG s;
            s2 = draw_status_bar s1;
            s3 = fill_rect 8 (text_origin_y s - 8) (if 16 < w then w - 16 else w) (h - text_origin_y s) PANEL_BG s2
        in s3\<lparr>cursor_x := 0, cursor_y := 0\<rparr>)"

definition clear_cell :: "u32 \<Rightarrow> u32 \<Rightarrow> 'a console_scheme \<Rightarrow> 'a console_scheme" where
  "clear_cell cx cy s =
     fill_rect (text_origin_x s + cx * CELL_W) (text_origin_y s + cy * CELL_H) CELL_W CELL_H (current_bg s) s"

definition copy_pixel :: "u32 \<Rightarrow> u32 \<Rightarrow> u32 \<Rightarrow> 'a console_scheme \<Rightarrow> 'a console_scheme" where
  "copy_pixel x dst_y src_y s =
     s\<lparr>mem := write32 (mem s) (pixel_addr (fb s) x dst_y) (read32 (mem s) (pixel_addr (fb s) x src_y))\<rparr>"

definition scroll_up :: "'a console_scheme \<Rightarrow> 'a console_scheme" where
  "scroll_up s =
     (if fb_base (fb s) = 0 \<or> rows s = 0 then s
      else
        let src_y = text_origin_y s + CELL_H;
            dst_y = text_origin_y s;
            copy_h = (if 1 < rows s then (rows s - 1) * CELL_H else 0);
            w = fb_width (fb s);
            s1 = fold (\<lambda>y. fold (\<lambda>x. copy_pixel x (dst_y + y) (src_y + y)) (u32_range 0 w)) (u32_range 0 copy_h) s
        in fill_rect 8 (text_origin_y s + (rows s - 1) * CELL_H) (if 16 < w then w - 16 else w) CELL_H PANEL_BG s1)"

definition newline :: "'a console_scheme \<Rightarrow> 'a console_scheme" where
  "newline s =
     (let s1 = s\<lparr>cursor_x := 0, cursor_y := cursor_y s + 1\<rparr>
      in if rows s1 \<le> cursor_y s1 then (scroll_up s1)\<lparr>cursor_y := rows s1 - 1\<rparr> else s1)"

subsection \<open>Escape sequences\<close>

definition ansi_color :: "u32 \<Rightarrow> u32 \<Rightarrow> u32" where
  "ansi_color code fallback =
     (if code = 30 then 0x001b232b else if code = 31 then RED else if code = 32 then GREEN
      else if code = 33 then YELLOW else if code = 34 then BLUE else if code = 35 then MAGENTA
      else if code = 36 then CYAN else if code = 37 then FG else if code = 90 then DIM
      else if code = 91 then RED else if code = 92 then GREEN else if code = 93 then YELLOW
      else if code = 94 then BLUE else if code = 95 then MAGENTA else if code = 96 then CYAN
      else if code = 97 then 0x00ffffff else fallback)"

definition ansi_bg :: "u32 \<Rightarrow> u32 \<Rightarrow> u32" where
  "ansi_bg code fallback =
     (if 40 \<le> code \<and> code \<le> 47 then ansi_color (code - 10) fallback
      else if 100 \<le> code \<and> code \<le> 107 then ansi_color (code - 60) fallback
      else fallback)"

definition sgr_reset :: "'a console_scheme \<Rightarrow> 'a console_scheme" where
  "sgr_reset s = s\<lparr>current_fg := FG, current_bg := PANEL_BG, inverse_video := False\<rparr>"

definition sgr_param :: "u32 \<Rightarrow> 'a console_scheme \<Rightarrow> 'a console_scheme" where
  "sgr_param p s =
     (if p = 0 then sgr_reset s
      else if p = 1 then s\<lparr>current_fg := 0x00ffffff\<rparr>
      else if p = 2 then s\<lparr>current_fg := DIM\<rparr>
      else if p = 7 then s\<lparr>inverse_video := True\<rparr>
      else if p = 22 \<or> p = 27 then s\<lparr>inverse_video := False\<rparr>
      else if (30 \<le> p \<and> p \<le> 37) \<or> (90 \<le> p \<and> p \<le> 97) then s\<lparr>current_fg := ansi_color p (current_fg s)\<rparr>
      else if (40 \<le> p \<and> p \<le> 47) \<or> (100 \<le> p \<and> p \<le> 107) then s\<lparr>current_bg := ansi_bg p (current_bg s)\<rparr>
      else s)"

definition sgr_apply :: "'a console_scheme \<Rightarrow> 'a console_scheme" where
  "sgr_apply s =
     (if esc_param_count s = 0 then sgr_reset s
      else fold sgr_param (take (unat (esc_param_count s)) (esc_params s)) s)"

definition esc_reset :: "'a console_scheme \<Rightarrow> 'a console_scheme" where
  "esc_reset s = s\<lparr>esc_state := 0, esc_param := 0, esc_param_count := 0\<rparr>"

definition esc_push_param :: "'a console_scheme \<Rightarrow> 'a console_scheme" where
  "esc_push_param s =
     (if esc_param_count s < 4
      then s\<lparr>esc_params := (esc_params s)[unat (esc_param_count s) := esc_param s],
             esc_param_count := esc_param_count s + 1, esc_param := 0\<rparr>
      else s\<lparr>esc_param := 0\<rparr>)"

text \<open>\<open>Some\<close> is the result 1 (the character was part of a sequence), \<open>None\<close> the result 0.\<close>

definition handle_escape :: "u8 \<Rightarrow> 'a console_scheme \<Rightarrow> 'a console_scheme option" where
  "handle_escape c s =
     (if esc_state s = 0 then None
      else if esc_state s = 1 then
        (if c = chr CHR ''['' then Some (s\<lparr>esc_state := 2, esc_param := 0, esc_param_count := 0\<rparr>)
         else Some (esc_reset s))
      else if chr CHR ''0'' \<le> c \<and> c \<le> chr CHR ''9''
      then Some (s\<lparr>esc_param := esc_param s * 10 + ucast (c - chr CHR ''0'')\<rparr>)
      else if c = chr CHR '';'' then Some (esc_push_param s)
      else if c = chr CHR ''J'' then Some (esc_reset (clear_screen s))
      else if c = chr CHR ''H'' then Some (esc_reset (s\<lparr>cursor_x := 0, cursor_y := 0\<rparr>))
      else if c = chr CHR ''m'' then Some (esc_reset (sgr_apply (esc_push_param s)))
      else Some (esc_reset s))"

subsection \<open>Characters\<close>

definition put_char :: "u8 \<Rightarrow> 'a console_scheme \<Rightarrow> 'a console_scheme" where
  "put_char c s =
     (if fb_base (fb s) = 0 \<or> cols s = 0 \<or> rows s = 0 then s
      else case handle_escape c s of
        Some s1 \<Rightarrow> s1
      | None \<Rightarrow>
          if c = 27 then s\<lparr>esc_state := 1\<rparr>
          else if c = 13 then s
          else if c = 10 then newline s
          else if c = 8 then
            let s1 = (if cursor_x s \<noteq> 0 then s\<lparr>cursor_x := cursor_x s - 1\<rparr> else s)
            in clear_cell (cursor_x s1) (cursor_y s1) s1
          else
            let fg = (if inverse_video s then current_bg s else current_fg s);
                bg = (if inverse_video s then current_fg s else current_bg s);
                px = text_origin_x s + cursor_x s * CELL_W;
                py = text_origin_y s + cursor_y s * CELL_H;
                s1 = fill_rect px py CELL_W CELL_H bg s;
                s2 = draw_glyph px py c fg s1;
                s3 = s2\<lparr>cursor_x := cursor_x s2 + 1\<rparr>
            in if cols s3 \<le> cursor_x s3 then newline s3 else s3)"

definition console_write :: "cstr \<Rightarrow> 'a console_scheme \<Rightarrow> 'a console_scheme" where
  "console_write str s =
     (let s1 = (if gfx_mode_active s then clear_screen (s\<lparr>gfx_mode_active := False\<rparr>) else s)
      in fold put_char str s1)"

definition console_putc :: "u8 \<Rightarrow> 'a console_scheme \<Rightarrow> 'a console_scheme" where
  "console_putc c s = console_write (cstr_of [c, 0]) s"

definition console_init :: "BootInfo \<Rightarrow> 'a console_scheme \<Rightarrow> 'a console_scheme" where
  "console_init bi s =
     (let f = framebuffer bi;
          oy = TOP_BAR_H + 16;
          s1 = s\<lparr>fb := f, cursor_x := 0, cursor_y := 0, text_origin_x := LEFT_PAD, text_origin_y := oy,
                 current_fg := FG, current_bg := PANEL_BG, inverse_video := False,
                 cols := (if LEFT_PAD * 2 < fb_width f then (fb_width f - LEFT_PAD * 2) div CELL_W else 0),
                 rows := (if oy < fb_height f then (fb_height f - oy) div CELL_H else 0)\<rparr>
      in if fb_base f \<noteq> 0
         then console_write (lit ''Ore framebuffer console online'' @ [10]) (clear_screen s1) else s1)"

subsection \<open>Keyboard\<close>

definition input_set_ascii :: "u32 \<Rightarrow> 'a console_scheme \<Rightarrow> 'a console_scheme" where
  "input_set_ascii ascii s = s\<lparr>input_ascii := ascii, input_frame := input_frame s + 1\<rparr>"

definition input_bit_for_ascii :: "u32 \<Rightarrow> u32" where
  "input_bit_for_ascii c =
     (if c = 97 \<or> c = 65 then ORE_INPUT_LEFT
      else if c = 100 \<or> c = 68 then ORE_INPUT_RIGHT
      else if c = 119 \<or> c = 87 then ORE_INPUT_UP
      else if c = 115 \<or> c = 83 then ORE_INPUT_DOWN
      else if c = 32 then ORE_INPUT_FIRE
      else if c = 113 \<or> c = 81 \<or> c = 27 then ORE_INPUT_QUIT
      else 0)"

definition input_set_key :: "u32 \<Rightarrow> bool \<Rightarrow> 'a console_scheme \<Rightarrow> 'a console_scheme" where
  "input_set_key b down s =
     (if b = 0 then s
      else s\<lparr>input_keys := (if down then input_keys s OR b else input_keys s AND NOT b),
             input_frame := input_frame s + 1\<rparr>)"

definition input_bit_for_scancode :: "u8 \<Rightarrow> bool \<Rightarrow> u32" where
  "input_bit_for_scancode sc e0 =
     (if e0 then
        (if sc = 0x4b then ORE_INPUT_LEFT else if sc = 0x4d then ORE_INPUT_RIGHT
         else if sc = 0x48 then ORE_INPUT_UP else if sc = 0x50 then ORE_INPUT_DOWN else 0)
      else if sc = 0x1e then ORE_INPUT_LEFT
      else if sc = 0x20 then ORE_INPUT_RIGHT
      else if sc = 0x11 then ORE_INPUT_UP
      else if sc = 0x1f then ORE_INPUT_DOWN
      else if sc = 0x39 then ORE_INPUT_FIRE
      else if sc = 0x10 \<or> sc = 0x01 then ORE_INPUT_QUIT
      else 0)"

text \<open>What a PS/2 scan code does; \<open>None\<close> is the result \<open>-1\<close>.\<close>

definition scancode_key :: "u8 \<Rightarrow> 'a console_scheme \<Rightarrow> u8 option \<times> 'a console_scheme" where
  "scancode_key sc0 s =
     (if sc0 = 0xE0 then (None, s\<lparr>ps2_e0 := True\<rparr>)
      else
        let released = (sc0 AND 0x80 \<noteq> 0);
            sc = sc0 AND 0x7F;
            was_e0 = ps2_e0 s
        in if sc = 0x2A \<or> sc = 0x36 then (None, s\<lparr>ps2_shift := \<not> released, ps2_e0 := False\<rparr>)
           else
             let s1 = input_set_key (input_bit_for_scancode sc was_e0) (\<not> released) s
             in if released \<or> ps2_e0 s1 then (None, s1\<lparr>ps2_e0 := False\<rparr>)
                else
                  let c = (if ps2_shift s1 then shifted_keys else normal_keys) ! unat sc
                  in if c \<noteq> 0 then (Some c, input_set_ascii (ucast c) s1) else (None, s1))"

definition console_read_key :: "'a console_scheme \<Rightarrow> u8 option \<times> 'a console_scheme" where
  "console_read_key s =
     (case run_state serial_read_byte s of
        (Some b, s1) \<Rightarrow> (Some b, input_set_ascii (ucast b) s1)
      | (None, s1) \<Rightarrow>
          (let (status, s2) = run_state (inb 0x64) s1
           in if status AND 1 = 0 then (None, s2)
              else let (sc, s3) = run_state (inb 0x60) s2 in scancode_key sc s3))"

subsection \<open>Graphics mode and polling\<close>

text \<open>\<open>None\<close> is the result \<open>-ORE_EINVAL\<close>.\<close>

definition console_gfx_info :: "'a console_scheme \<Rightarrow> OreGfxInfo option" where
  "console_gfx_info s =
     (if fb_base (fb s) = 0 then None
      else Some \<lparr>gi_width = fb_width (fb s), gi_height = fb_height (fb s),
                 gi_logical_width = ORE_GFX_LOGICAL_WIDTH, gi_logical_height = ORE_GFX_LOGICAL_HEIGHT,
                 gi_format = ORE_GFX_FORMAT_INDEXED16, gi_pitch = ORE_GFX_LOGICAL_WIDTH,
                 gi_palette_count = 16, gi_reserved = 0\<rparr>)"

text \<open>
  The buffer is a pointer into the address space of the running process: \<open>buffer\<close> is the function
  that reads a byte at an offset, in the memory at the time of the access.
\<close>

definition present_pixel ::
  "(memory \<Rightarrow> u64 \<Rightarrow> u8) \<Rightarrow> u32 \<Rightarrow> u32 \<Rightarrow> u32 \<Rightarrow> u32 \<Rightarrow> u32 \<Rightarrow> 'a console_scheme \<Rightarrow> 'a console_scheme" where
  "present_pixel buffer width x0 y0 y x s =
     s\<lparr>mem := write32 (mem s)
         (fb_base (fb s) + 4 * ucast ((y0 + y) * pixels_per_scanline (fb s)) + 4 * ucast x0 + 4 * ucast x)
         (game_palette ! unat (buffer (mem s) (ucast (y * width) + ucast x) AND 15))\<rparr>"

definition console_gfx_present_indexed16 ::
  "(memory \<Rightarrow> u64 \<Rightarrow> u8) \<Rightarrow> u32 \<Rightarrow> u32 \<Rightarrow> 'a console_scheme \<Rightarrow> cint \<times> 'a console_scheme" where
  "console_gfx_present_indexed16 buffer width height s =
     (if fb_base (fb s) = 0 then (- ORE_EINVAL, s)
      else if width \<noteq> ORE_GFX_LOGICAL_WIDTH \<or> height \<noteq> ORE_GFX_LOGICAL_HEIGHT then (- ORE_EINVAL, s)
      else if fb_width (fb s) < width \<or> fb_height (fb s) < height then (- ORE_EINVAL, s)
      else
        let x0 = (fb_width (fb s) - width) div 2;
            y0 = (fb_height (fb s) - height) div 2;
            s1 = (if \<not> gfx_mode_active s
                  then (fill_rect 0 0 (fb_width (fb s)) (fb_height (fb s)) 0 s)\<lparr>gfx_mode_active := True\<rparr> else s)
        in (0, fold (\<lambda>y. fold (\<lambda>x. present_pixel buffer width x0 y0 y x) (u32_range 0 width)) (u32_range 0 height) s1))"

definition input_state_poll :: "'a console_scheme \<Rightarrow> OreInputState \<times> 'a console_scheme" where
  "input_state_poll s =
     (let (key, s1) = console_read_key s;
          transient = (case key of Some k \<Rightarrow> input_bit_for_ascii (ucast k) | None \<Rightarrow> 0)
      in (\<lparr>is_keys = input_keys s1 OR transient, is_ascii = input_ascii s1, is_mouse_x = 0, is_mouse_y = 0,
           is_buttons = 0, is_frame = input_frame s1\<rparr>, s1\<lparr>input_ascii := 0\<rparr>))"

end
