(* ===== verification/Net.thy ===== *)
theory Net
  imports Console
begin

text \<open>
  The NE2000 network card, \<open>kernel/net.c\<close>, at the level of its port accesses. A frame is the list of
  its bytes; a receive returns the result together with the bytes stored at the start of the buffer.
\<close>

subsection \<open>State and registers\<close>

record net = console +
  net_ready :: bool
  net_mac :: "u8 list"

abbreviation (input) NE_BASE :: u16 where "NE_BASE \<equiv> 0x300"
abbreviation (input) NE_DATA :: u16 where "NE_DATA \<equiv> NE_BASE + 0x10"
abbreviation (input) NE_RESET :: u16 where "NE_RESET \<equiv> NE_BASE + 0x1f"
abbreviation (input) NE_CR :: u8 where "NE_CR \<equiv> 0x00"
abbreviation (input) NE_PSTART :: u8 where "NE_PSTART \<equiv> 0x01"
abbreviation (input) NE_PSTOP :: u8 where "NE_PSTOP \<equiv> 0x02"
abbreviation (input) NE_BNRY :: u8 where "NE_BNRY \<equiv> 0x03"
abbreviation (input) NE_TPSR :: u8 where "NE_TPSR \<equiv> 0x04"
abbreviation (input) NE_TBCR0 :: u8 where "NE_TBCR0 \<equiv> 0x05"
abbreviation (input) NE_TBCR1 :: u8 where "NE_TBCR1 \<equiv> 0x06"
abbreviation (input) NE_ISR :: u8 where "NE_ISR \<equiv> 0x07"
abbreviation (input) NE_RSAR0 :: u8 where "NE_RSAR0 \<equiv> 0x08"
abbreviation (input) NE_RSAR1 :: u8 where "NE_RSAR1 \<equiv> 0x09"
abbreviation (input) NE_RBCR0 :: u8 where "NE_RBCR0 \<equiv> 0x0a"
abbreviation (input) NE_RBCR1 :: u8 where "NE_RBCR1 \<equiv> 0x0b"
abbreviation (input) NE_RCR :: u8 where "NE_RCR \<equiv> 0x0c"
abbreviation (input) NE_TCR :: u8 where "NE_TCR \<equiv> 0x0d"
abbreviation (input) NE_DCR :: u8 where "NE_DCR \<equiv> 0x0e"
abbreviation (input) NE_IMR :: u8 where "NE_IMR \<equiv> 0x0f"
abbreviation (input) NE_PAR0 :: u8 where "NE_PAR0 \<equiv> 0x01"
abbreviation (input) NE_CURR :: u8 where "NE_CURR \<equiv> 0x07"
abbreviation (input) NE_MAR0 :: u8 where "NE_MAR0 \<equiv> 0x08"
abbreviation (input) NE_CMD_STOP :: u8 where "NE_CMD_STOP \<equiv> 0x21"
abbreviation (input) NE_CMD_START :: u8 where "NE_CMD_START \<equiv> 0x22"
abbreviation (input) NE_CMD_PAGE1 :: u8 where "NE_CMD_PAGE1 \<equiv> 0x62"
abbreviation (input) NE_CMD_RREAD :: u8 where "NE_CMD_RREAD \<equiv> 0x0a"
abbreviation (input) NE_CMD_RWRITE :: u8 where "NE_CMD_RWRITE \<equiv> 0x12"
abbreviation (input) NE_ISR_PRX :: u8 where "NE_ISR_PRX \<equiv> 0x01"
abbreviation (input) NE_ISR_PTX :: u8 where "NE_ISR_PTX \<equiv> 0x02"
abbreviation (input) NE_ISR_TXE :: u8 where "NE_ISR_TXE \<equiv> 0x08"
abbreviation (input) NE_ISR_RDC :: u8 where "NE_ISR_RDC \<equiv> 0x40"
abbreviation (input) NE_TX_PAGE :: u8 where "NE_TX_PAGE \<equiv> 0x40"
abbreviation (input) NE_RX_START :: u8 where "NE_RX_START \<equiv> 0x46"
abbreviation (input) NE_RX_STOP :: u8 where "NE_RX_STOP \<equiv> 0x80"

subsection \<open>The driver\<close>

definition ne_write :: "u8 \<Rightarrow> u8 \<Rightarrow> ('a ports_scheme, unit) state" where
  "ne_write reg value = outb (NE_BASE + ucast reg) value"

definition ne_read :: "u8 \<Rightarrow> ('a ports_scheme, u8) state" where
  "ne_read reg = inb (NE_BASE + ucast reg)"

definition ne_select_page0 :: "('a ports_scheme, unit) state" where
  "ne_select_page0 = ne_write NE_CR NE_CMD_START"

definition ne_select_page1 :: "('a ports_scheme, unit) state" where
  "ne_select_page1 = ne_write NE_CR NE_CMD_PAGE1"

text \<open>A bounded polling loop: at most \<open>n\<close> reads of a register until a test holds.\<close>

fun ne_poll :: "nat \<Rightarrow> u8 \<Rightarrow> (u8 \<Rightarrow> bool) \<Rightarrow> ('a ports_scheme, bool) state" where
  "ne_poll 0 reg ok = State_Monad.return False"
| "ne_poll (Suc n) reg ok = do {
     v \<leftarrow> ne_read reg;
     if ok v then State_Monad.return True else ne_poll n reg ok }"

definition ne_wait_rdc :: "('a ports_scheme, cint) state" where
  "ne_wait_rdc = do {
     found \<leftarrow> ne_poll 1000000 NE_ISR (\<lambda>v. v AND NE_ISR_RDC \<noteq> 0);
     State_Monad.return (if found then 0 else -1) }"

fun ne_write_all :: "(u8 \<times> u8) list \<Rightarrow> ('a ports_scheme, unit) state" where
  "ne_write_all [] = State_Monad.return ()"
| "ne_write_all ((reg, value) # ws) = do { ne_write reg value; ne_write_all ws }"

definition ne_remote_setup :: "u16 \<Rightarrow> u16 \<Rightarrow> u8 \<Rightarrow> ('a ports_scheme, unit) state" where
  "ne_remote_setup addr len command = do {
     ne_select_page0;
     ne_write_all [(NE_ISR, NE_ISR_RDC), (NE_RBCR0, ucast (len AND 0xff)), (NE_RBCR1, ucast (drop_bit 8 len)),
       (NE_RSAR0, ucast (addr AND 0xff)), (NE_RSAR1, ucast (drop_bit 8 addr)), (NE_CR, command)] }"

definition ne_remote_read :: "u16 \<Rightarrow> u16 \<Rightarrow> ('a ports_scheme, u8 list) state" where
  "ne_remote_read src len = do {
     ne_remote_setup src len NE_CMD_RREAD;
     ws \<leftarrow> collect ((unat len + 1) div 2) (inw NE_DATA);
     _ \<leftarrow> ne_wait_rdc;
     ne_select_page0;
     State_Monad.return (take (unat len) (concat (map (\<lambda>w. [ucast (w AND 0xff), ucast (drop_bit 8 w)]) ws))) }"

fun ne_out_words :: "u8 list \<Rightarrow> ('a ports_scheme, unit) state" where
  "ne_out_words [] = State_Monad.return ()"
| "ne_out_words [b] = outw NE_DATA (ucast b)"
| "ne_out_words (b # c # bs) = do { outw NE_DATA (ucast b OR push_bit 8 (ucast c)); ne_out_words bs }"

definition ne_remote_write :: "u16 \<Rightarrow> u8 list \<Rightarrow> ('a ports_scheme, unit) state" where
  "ne_remote_write dst data = do {
     ne_remote_setup dst (word_of_nat (length data)) NE_CMD_RWRITE;
     ne_out_words data;
     _ \<leftarrow> ne_wait_rdc;
     ne_select_page0 }"

definition net_init :: "('a net_scheme, unit) state" where
  "net_init = do {
     State_Monad.update (\<lambda>s. s\<lparr>net_ready := False\<rparr>);
     reset \<leftarrow> inb NE_RESET;
     outb NE_RESET reset;
     outb 0x80 0;
     _ \<leftarrow> ne_poll 100000 NE_ISR (\<lambda>v. v AND 0x80 \<noteq> 0);
     ne_write_all [(NE_CR, NE_CMD_STOP), (NE_DCR, 0x49), (NE_RBCR0, 0), (NE_RBCR1, 0), (NE_RCR, 0x20),
       (NE_TCR, 0x02), (NE_PSTART, NE_RX_START), (NE_PSTOP, NE_RX_STOP), (NE_BNRY, NE_RX_START),
       (NE_ISR, 0xff), (NE_IMR, 0x00)];
     prom \<leftarrow> ne_remote_read 0 32;
     let mac = map (\<lambda>i. prom ! (i * 2)) [0..<6];
     State_Monad.update (\<lambda>s. s\<lparr>net_mac := mac\<rparr>);
     if take 3 mac = [0, 0, 0] \<or> take 3 mac = [0xff, 0xff, 0xff] then State_Monad.return ()
     else do {
       ne_select_page1;
       ne_write_all (map (\<lambda>i. (NE_PAR0 + word_of_nat i, mac ! i)) [0..<6]);
       ne_write_all (map (\<lambda>i. (NE_MAR0 + word_of_nat i, 0xff)) [0..<8]);
       ne_write NE_CURR (NE_RX_START + 1);
       ne_select_page0;
       ne_write_all [(NE_RCR, 0x04), (NE_TCR, 0x00), (NE_ISR, 0xff)];
       State_Monad.update (\<lambda>s. s\<lparr>net_ready := True\<rparr>) } }"

definition net_info :: "'a net_scheme \<Rightarrow> OreNetInfo" where
  "net_info s =
     \<lparr>ni_ready = (if net_ready s then 1 else 0), ni_mtu = 1500, ni_mac = net_mac s, ni_reserved = [0, 0],
      ni_ip_be = 0x0a00020f, ni_gateway_be = 0x0a000202, ni_dns_be = 0x0a000203\<rparr>"

fun net_send_wait :: "nat \<Rightarrow> cint \<Rightarrow> ('a ports_scheme, cint) state" where
  "net_send_wait 0 len = State_Monad.return len"
| "net_send_wait (Suc n) len = do {
     isr \<leftarrow> ne_read NE_ISR;
     if isr AND NE_ISR_PTX \<noteq> 0 then do { ne_write NE_ISR NE_ISR_PTX; State_Monad.return len }
     else if isr AND NE_ISR_TXE \<noteq> 0 then do { ne_write NE_ISR NE_ISR_TXE; State_Monad.return (- ORE_EINVAL) }
     else net_send_wait n len }"

definition pad_frame :: "u8 list \<Rightarrow> u8 list" where
  "pad_frame frame = frame @ replicate (60 - length frame) 0"

definition net_send_frame :: "u8 list \<Rightarrow> ('a net_scheme, cint) state" where
  "net_send_frame frame = do {
     s \<leftarrow> State_Monad.get;
     let len = length frame;
     if \<not> net_ready s \<or> len < 14 \<or> unat ORE_NET_MAX_FRAME < len then State_Monad.return (- ORE_EINVAL)
     else do {
       let tx = pad_frame frame;
       let tx_len = (word_of_nat (length tx) :: u16);
       _ \<leftarrow> ne_poll 1000000 NE_CR (\<lambda>v. v AND 0x04 = 0);
       ne_write NE_ISR (NE_ISR_PTX OR NE_ISR_TXE);
       ne_remote_write (ucast NE_TX_PAGE * 256) tx;
       ne_write_all [(NE_TPSR, NE_TX_PAGE), (NE_TBCR0, ucast (tx_len AND 0xff)),
         (NE_TBCR1, ucast (drop_bit 8 tx_len)), (NE_CR, NE_CMD_START OR 0x04)];
       net_send_wait 1000000 (int len) } }"

definition net_recv_body :: "u8 \<Rightarrow> u8 \<Rightarrow> u16 \<Rightarrow> u64 \<Rightarrow> ('a ports_scheme, cint \<times> u8 list) state" where
  "net_recv_body page nxt cnt cap = do {
     let frame_len0 = cnt - 4;
     let frame_len = (if cap < ucast frame_len0 then ucast cap else frame_len0);
     let src = ucast page * 256 + 4;
     let first = ucast NE_RX_STOP * 256 - src;
     data \<leftarrow> (if frame_len \<le> first then ne_remote_read src frame_len
             else do {
               a \<leftarrow> ne_remote_read src first;
               b \<leftarrow> ne_remote_read (ucast NE_RX_START * 256) (frame_len - first);
               State_Monad.return (a @ b) });
     let bnry = nxt - 1;
     ne_write NE_BNRY (if bnry < NE_RX_START then NE_RX_STOP - 1 else bnry);
     ne_write NE_ISR NE_ISR_PRX;
     State_Monad.return (uint frame_len, data) }"

definition net_recv_frame :: "u64 \<Rightarrow> ('a net_scheme, cint \<times> u8 list) state" where
  "net_recv_frame cap = do {
     s \<leftarrow> State_Monad.get;
     if \<not> net_ready s \<or> cap < 64 then State_Monad.return (- ORE_EINVAL, [])
     else do {
       ne_select_page1;
       curr \<leftarrow> ne_read NE_CURR;
       ne_select_page0;
       bnry \<leftarrow> ne_read NE_BNRY;
       let page = (if NE_RX_STOP \<le> bnry + 1 then NE_RX_START else bnry + 1);
       if page = curr then State_Monad.return (0, [])
       else do {
         hdr \<leftarrow> ne_remote_read (ucast page * 256) 4;
         let nxt = hdr ! 1;
         let cnt = (ucast (hdr ! 2) OR push_bit 8 (ucast (hdr ! 3)) :: u16);
         if nxt < NE_RX_START \<or> NE_RX_STOP \<le> nxt \<or> cnt < 4 \<or> 1600 < cnt
         then do { ne_write NE_BNRY NE_RX_START; State_Monad.return (- ORE_EINVAL, []) }
         else net_recv_body page nxt cnt cap } } }"

end
