(* ===== verification/Cpu.thy ===== *)
theory Cpu
  imports Net
begin

text \<open>
  The processors: the ACPI tables that list them (\<open>kernel/acpi.c\<close>), the table \<open>g_cpus\<close>
  (\<open>kernel/cpu.c\<close>) and the timer counters (\<open>kernel/lapic.c\<close>). The local APIC is a device at
  \<open>acpi_lapic_base\<close>: the value of its identification register depends on the CPU that reads it and is
  the field \<open>lapic_id_reg\<close>; writes to its other registers have no effect on the state.
\<close>

subsection \<open>The model\<close>

record CpuInfo =
  logical_id :: u32
  apic_id :: u8
  started :: u32
  online :: u32
  cpu_stack_base :: u64
  cpu_stack_top :: u64

record cpu = net +
  cpu_apic_ids :: "u8 list"
  lapic_base_value :: u64
  g_cpus :: "CpuInfo list"
  g_cpu_count :: u32
  g_timer_ticks :: "u64 list"
  lapic_id_reg :: u32
  msrs :: "u32 \<Rightarrow> u64"

definition ORE_MAX_CPUS :: u32 where
  "ORE_MAX_CPUS = 64"

definition MAX_CPUS :: nat where
  "MAX_CPUS = 64"

definition read_msr :: "u32 \<Rightarrow> 'a cpu_scheme \<Rightarrow> u64" where
  "read_msr msr s = msrs s msr"

definition write_msr :: "u32 \<Rightarrow> u64 \<Rightarrow> 'a cpu_scheme \<Rightarrow> 'a cpu_scheme" where
  "write_msr msr value s = s\<lparr>msrs := (msrs s)(msr := value)\<rparr>"

definition cpu_enable_nxe :: "'a cpu_scheme \<Rightarrow> 'a cpu_scheme" where
  "cpu_enable_nxe s = write_msr 0xc0000080 (read_msr 0xc0000080 s OR push_bit 11 1) s"

text \<open>
  ACPI tables are read where the firmware left them. \<open>Rsdp\<close>: signature and checksum up to byte 8,
  revision at 15, \<open>rsdt_address\<close> at 16, \<open>xsdt_address\<close> at 24. \<open>SdtHeader\<close>: 36 bytes, signature at 0,
  length at 4. \<open>Madt\<close>: 44 bytes, \<open>lapic_addr\<close> at 36.
\<close>

record Rsdp =
  rs_revision :: u8
  rsdt_address :: u32
  xsdt_address :: u64

definition rsdp_at :: "memory \<Rightarrow> u64 \<Rightarrow> Rsdp" where
  "rsdp_at m p = \<lparr>rs_revision = m (p + 15), rsdt_address = read32 m (p + 16), xsdt_address = read64 m (p + 24)\<rparr>"

definition sizeof_SdtHeader :: u32 where
  "sizeof_SdtHeader = 36"

definition sizeof_Madt :: u64 where
  "sizeof_Madt = 44"

definition sdt_length :: "memory \<Rightarrow> u64 \<Rightarrow> u32" where
  "sdt_length m p = read32 m (p + 4)"

definition sig_eq :: "memory \<Rightarrow> u64 \<Rightarrow> string \<Rightarrow> bool" where
  "sig_eq m p sig \<longleftrightarrow> list_all (\<lambda>i. m (p + word_of_nat i) = lit sig ! i) [0..<4]"

definition checksum :: "memory \<Rightarrow> u64 \<Rightarrow> u32 \<Rightarrow> u8" where
  "checksum m p len = sum_list (read_bytes m p (unat len))"

definition madt_entry :: "memory \<Rightarrow> u64 \<Rightarrow> 'a cpu_scheme \<Rightarrow> 'a cpu_scheme" where
  "madt_entry m p s =
     (let etype = m p; len = m (p + 1)
      in if etype = 0 \<and> 8 \<le> len then
           (let id = m (p + 3); flags = read32 m (p + 4)
            in if flags AND 1 \<noteq> 0 \<and> length (cpu_apic_ids s) < MAX_CPUS
               then s\<lparr>cpu_apic_ids := cpu_apic_ids s @ [id]\<rparr> else s)
         else if etype = 5 \<and> 12 \<le> len then s\<lparr>lapic_base_value := read64 m (p + 4)\<rparr>
         else s)"

text \<open>The entry loop advances by at least two bytes; it is total unless a pointer wraps around.\<close>

partial_function (option) madt_loop :: "u64 \<Rightarrow> u64 \<Rightarrow> 'a cpu_scheme \<Rightarrow> 'a cpu_scheme option" where
  "madt_loop p lim s =
     (if \<not> p + 2 \<le> lim then Some s
      else
        let len = mem s (p + 1)
        in if len < 2 \<or> lim < p + ucast len then Some s
           else madt_loop (p + ucast len) lim (madt_entry (mem s) p s))"

definition parse_madt :: "u64 \<Rightarrow> 'a cpu_scheme \<Rightarrow> 'a cpu_scheme or_panic" where
  "parse_madt madt s =
     (let len = sdt_length (mem s) madt
      in if checksum (mem s) madt len \<noteq> 0 then Inr s
         else of_loop (madt_loop (madt + sizeof_Madt) (madt + ucast len)
                (s\<lparr>lapic_base_value := ucast (read32 (mem s) (madt + 36))\<rparr>)))"

definition root_entry :: "memory \<Rightarrow> u64 \<Rightarrow> u32 \<Rightarrow> nat \<Rightarrow> u64" where
  "root_entry m entry_base entry_size i =
     (if entry_size = 8 then read64 m (entry_base + ucast (word_of_nat i * 8 :: u32))
      else ucast (read32 m (entry_base + ucast (word_of_nat i * 4 :: u32))))"

definition acpi_init :: "u64 \<Rightarrow> 'a cpu_scheme \<Rightarrow> 'a cpu_scheme or_panic" where
  "acpi_init rsdp_addr s0 =
     (let s = s0\<lparr>cpu_apic_ids := []\<rparr>
      in if rsdp_addr = 0 then Inr s
         else
           let m = mem s;
               r = rsdp_at m rsdp_addr;
               root = (if 2 \<le> rs_revision r \<and> xsdt_address r \<noteq> 0 then xsdt_address r else ucast (rsdt_address r))
           in if root = 0 \<or> checksum m root (sdt_length m root) \<noteq> 0 then Inr s
              else
                let entry_size = (if sig_eq m root ''XSDT'' then 8 else 4);
                    entries = (ucast ((ucast (sdt_length m root) - ucast sizeof_SdtHeader :: u64) div ucast entry_size) :: u32);
                    entry_base = root + ucast sizeof_SdtHeader
                in case find (\<lambda>i. sig_eq m (root_entry m entry_base entry_size i) ''APIC'') [0..<unat entries] of
                     None \<Rightarrow> Inr s
                   | Some i \<Rightarrow> parse_madt (root_entry m entry_base entry_size i) s)"

definition acpi_cpu_count :: "'a cpu_scheme \<Rightarrow> u32" where
  "acpi_cpu_count s = word_of_nat (length (cpu_apic_ids s))"

definition acpi_cpu_apic_id :: "u32 \<Rightarrow> 'a cpu_scheme \<Rightarrow> u8" where
  "acpi_cpu_apic_id index s = (if index < acpi_cpu_count s then cpu_apic_ids s ! unat index else 0xff)"

definition acpi_lapic_base :: "'a cpu_scheme \<Rightarrow> u64" where
  "acpi_lapic_base s = lapic_base_value s"

definition current_cpu_id :: "'a cpu_scheme \<Rightarrow> u32" where
  "current_cpu_id s =
     (let own = ucast (drop_bit 24 (lapic_id_reg s)) :: u8
      in case find (\<lambda>i. apic_id (g_cpus s ! i) = own) [0..<unat (g_cpu_count s)] of
           Some i \<Rightarrow> word_of_nat i
         | None \<Rightarrow> 0)"

definition pic_disable :: "('a ports_scheme, unit) state" where
  "pic_disable = do { outb 0x21 0xff; outb 0xa1 0xff }"

definition lapic_timer_init_current_cpu :: "'a cpu_scheme \<Rightarrow> 'a cpu_scheme" where
  "lapic_timer_init_current_cpu s =
     (let c = current_cpu_id s
      in if c < ORE_MAX_CPUS then s\<lparr>g_timer_ticks := (g_timer_ticks s)[unat c := 0]\<rparr> else s)"

definition timer_ticks :: "u32 \<Rightarrow> 'a cpu_scheme \<Rightarrow> u64" where
  "timer_ticks cpu_id s = (if ORE_MAX_CPUS \<le> cpu_id then 0 else g_timer_ticks s ! unat cpu_id)"

text \<open>The counter part of the timer interrupt in \<open>isr_dispatch\<close>.\<close>

definition timer_interrupt :: "'a cpu_scheme \<Rightarrow> 'a cpu_scheme" where
  "timer_interrupt s =
     (let c = current_cpu_id s
      in if c < ORE_MAX_CPUS
         then s\<lparr>g_timer_ticks := (g_timer_ticks s)[unat c := g_timer_ticks s ! unat c + 1]\<rparr> else s)"

end
