(* ===== verification/Terrain.thy ===== *)
theory Terrain
  imports Cpu "HOL-Library.Signed_Division"
begin

text \<open>
  The terrain renderer, \<open>kernel/terrain.c\<close>. The picture is a buffer of 640 times 480 bytes in memory.
  An \<open>int32_t\<close> is an integer that \<open>i32\<close> wraps to 32 bits after every addition and multiplication (the
  two's complement result; the C standard leaves a signed overflow undefined), \<open>sdiv\<close> is the division
  that rounds towards zero. Other CPUs render slices while CPU 0 waits: \<open>polls\<close> is the sequence of
  CPUs that run \<open>terrain_worker_poll\<close> during the wait, each poll being one step.
\<close>

subsection \<open>The model\<close>

record TerrainSharedJob =
  tjob_active :: bool
  tjob_generation :: u32
  tjob_worker_count :: u32
  tjob_started_mask :: u32
  tjob_done_mask :: u32
  tjob_job :: OreTerrainJob
  tjob_buffer :: u64
  tjob_objects :: u32

record terrain = cpu +
  terrain_job :: TerrainSharedJob

definition TERRAIN_W :: u32 where
  "TERRAIN_W = ORE_GFX_LOGICAL_WIDTH"

definition TERRAIN_H :: u32 where
  "TERRAIN_H = ORE_GFX_LOGICAL_HEIGHT"

definition TERRAIN_MAX_WORKERS :: u32 where
  "TERRAIN_MAX_WORKERS = 8"

definition i32 :: "int \<Rightarrow> int" where
  "i32 x = sint (word_of_int x :: u32)"

definition u32_of :: "int \<Rightarrow> u32" where
  "u32_of x = word_of_int x"

definition terrain_hash :: "u32 \<Rightarrow> u32" where
  "terrain_hash x =
     (let x1 = x XOR drop_bit 16 x;
          x2 = x1 * 0x7feb352d;
          x3 = x2 XOR drop_bit 15 x2;
          x4 = x3 * 0x846ca68b
      in x4 XOR drop_bit 16 x4)"

definition terrain_noise :: "int \<Rightarrow> int \<Rightarrow> u64 \<Rightarrow> int" where
  "terrain_noise x z seed =
     uint (terrain_hash (u32_of x * 73856093 XOR u32_of z * 19349663 XOR ucast seed) AND 255) - 128"

definition store_pixel :: "u64 \<Rightarrow> u32 \<Rightarrow> u8 \<Rightarrow> memory \<Rightarrow> memory" where
  "store_pixel buffer i c m = m(buffer + ucast i := c)"

definition draw_rect :: "u64 \<Rightarrow> int \<Rightarrow> int \<Rightarrow> int \<Rightarrow> int \<Rightarrow> u8 \<Rightarrow> memory \<Rightarrow> memory" where
  "draw_rect buffer x0 y0 w h color m =
     fold (\<lambda>y m1.
       let py = i32 (y0 + int y)
       in if py < 0 \<or> uint TERRAIN_H \<le> py then m1
          else fold (\<lambda>x m2.
            let px = i32 (x0 + int x)
            in if px < 0 \<or> uint TERRAIN_W \<le> px then m2
               else store_pixel buffer (u32_of py * TERRAIN_W + u32_of px) color m2)
          [0..<nat w] m1)
     [0..<nat h] m"

definition horizon_of :: "OreTerrainJob \<Rightarrow> int" where
  "horizon_of job = 154 + sint (tj_pitch job) sdiv 24"

definition sky_row :: "u64 \<Rightarrow> u32 \<Rightarrow> memory \<Rightarrow> memory" where
  "sky_row buffer y m =
     (let c = (if y < 58 then 1 else if y < 124 then 2 else 3)
      in fold (\<lambda>x. store_pixel buffer (y * TERRAIN_W + x) c) (u32_range 0 TERRAIN_W) m)"

definition mountain_pixel :: "u64 \<Rightarrow> OreTerrainJob \<Rightarrow> int \<Rightarrow> u32 \<Rightarrow> u32 \<Rightarrow> memory \<Rightarrow> memory" where
  "mountain_pixel buffer job horizon y x m =
     (let mx = i32 (uint x - 320 + sint (tj_yaw job) sdiv 7);
          peak = horizon - 12 - terrain_noise (mx sdiv 42) 11 (tj_seed job) sdiv 5
      in if peak \<le> uint y then store_pixel buffer (y * TERRAIN_W + x) 7 m else m)"

definition clear_sky :: "u64 \<Rightarrow> OreTerrainJob \<Rightarrow> u32 \<Rightarrow> u32 \<Rightarrow> memory \<Rightarrow> memory" where
  "clear_sky buffer job y0 y1 m =
     (let horizon = horizon_of job;
          m1 = fold (sky_row buffer) (u32_range y0 y1) m;
          h = u32_of horizon;
          h34 = u32_of (horizon - 34)
      in if y0 < h \<and> h34 < y1 then
           (let start = (if h34 < y0 then y0 else h34);
                stop = (if y1 < h then y1 else h)
            in fold (\<lambda>y. fold (\<lambda>x. mountain_pixel buffer job horizon y x) (u32_range 0 TERRAIN_W))
                 (u32_range start stop) m1)
         else m1)"

text \<open>The values that one turn of the row loop of \<open>render_voxel_slice\<close> computes before its columns.\<close>

record voxel_row =
  vr_step :: u32
  vr_dy :: int
  vr_shift :: int
  vr_half :: int
  vr_ground :: u8
  vr_shoulder :: u8
  vr_water :: u8
  vr_grid :: u8

definition voxel_row_of :: "OreTerrainJob \<Rightarrow> u32 \<Rightarrow> voxel_row" where
  "voxel_row_of job y =
     (let horizon = horizon_of job;
          dy = uint y - horizon + 1;
          depth = 36000 sdiv (dy + 10);
          wz = i32 (sint (tj_camera_z job) + depth * 12);
          curve = terrain_noise (wz sdiv 330) 17 (tj_seed job) * dy sdiv 150;
          center = i32 (320 + sint (tj_yaw job) sdiv 2 + curve);
          half0 = 10 + dy * dy sdiv 360;
          bank = sint (tj_yaw job) sdiv 12
      in \<lparr>vr_step = (if dy < 95 then 3 else if dy < 185 then 2 else 1),
          vr_dy = dy,
          vr_shift = i32 (center + bank),
          vr_half = (if half0 > 305 then 305 else half0),
          vr_ground = (if dy > 235 \<and> u32_of (wz sdiv 160) AND 1 = 0 then 5 else 4),
          vr_shoulder = (if dy > 170 then 9 else 6),
          vr_water = (if u32_of (wz sdiv 80 + uint (y div 7)) AND 1 = 0 then 14 else 3),
          vr_grid = (if u32_of (wz sdiv 96) AND 7 = 0 then 15 else 0)\<rparr>)"

definition voxel_color :: "voxel_row \<Rightarrow> u32 \<Rightarrow> u8" where
  "voxel_color r x =
     (let half = vr_half r;
          sx = i32 (uint x - vr_shift r);
          c0 = (if sx > - half \<and> sx < half then vr_water r
                else if sx > - half - 22 \<and> sx < half + 22 then vr_shoulder r
                else vr_ground r);
          c1 = (if vr_grid r \<noteq> 0 \<and> vr_dy r > 45 then (if sx > - half \<and> sx < half then 15 else 9) else c0);
          lane1 = (- half * 2) sdiv 3;
          lane2 = (half * 2) sdiv 3;
          c2 = (if (sx \<ge> lane1 - 1 \<and> sx \<le> lane1 + 1) \<or> (sx \<ge> lane2 - 1 \<and> sx \<le> lane2 + 1) then 8 else c1)
      in if (sx \<ge> -2 \<and> sx \<le> 2) \<or> (sx \<ge> - half - 2 \<and> sx \<le> - half + 2)
            \<or> (sx \<ge> half - 2 \<and> sx \<le> half + 2) then 15 else c2)"

definition voxel_pixel :: "u64 \<Rightarrow> voxel_row \<Rightarrow> u32 \<Rightarrow> u32 \<Rightarrow> memory \<Rightarrow> memory" where
  "voxel_pixel buffer r y x m =
     (let c = voxel_color r x;
          m1 = store_pixel buffer (y * TERRAIN_W + x) c m;
          m2 = (if vr_step r = 2 \<and> y + 1 < TERRAIN_H then store_pixel buffer ((y + 1) * TERRAIN_W + x) c m1 else m1);
          m3 = (if vr_step r = 3 \<and> y + 1 < TERRAIN_H then store_pixel buffer ((y + 1) * TERRAIN_W + x) c m2 else m2)
      in if vr_step r = 3 \<and> y + 2 < TERRAIN_H then store_pixel buffer ((y + 2) * TERRAIN_W + x) c m3 else m3)"

function voxel_rows :: "u64 \<Rightarrow> OreTerrainJob \<Rightarrow> u32 \<Rightarrow> u32 \<Rightarrow> u32 \<Rightarrow> memory \<Rightarrow> memory" where
  "voxel_rows buffer job x0 x1 y m =
     (if y < TERRAIN_H then
        (let r = voxel_row_of job y
         in voxel_rows buffer job x0 x1 (y + vr_step r) (fold (voxel_pixel buffer r y) (u32_range x0 x1) m))
      else m)"
  by pat_completeness auto
termination
proof (relation "measure (\<lambda>(buffer, job, x0, x1, y, m). 600 - unat y)", goal_cases)
  case (2 buffer job x0 x1 y m r)
  have step: "vr_step r = 1 \<or> vr_step r = 2 \<or> vr_step r = 3"
    unfolding 2(2) voxel_row_of_def Let_def by simp
  have y: "unat y < 480"
    using 2(1) by (simp add: TERRAIN_H_def word_less_nat_alt)
  have "unat (y + k) = unat y + unat k" if "unat k \<le> 3" for k :: u32
    using y that by (intro unat_add_exact) simp
  from this [of 1] this [of 2] this [of 3] step y show ?case by auto
qed simp

declare voxel_rows.simps [simp del]

definition render_voxel_slice :: "u64 \<Rightarrow> OreTerrainJob \<Rightarrow> u32 \<Rightarrow> u32 \<Rightarrow> memory \<Rightarrow> memory" where
  "render_voxel_slice buffer job x0 x1 m = voxel_rows buffer job x0 x1 (u32_of (horizon_of job)) m"

record terrain_object =
  ob_kind :: u32
  ob_x :: int
  ob_y :: int
  ob_size :: int

definition object_of :: "OreTerrainJob \<Rightarrow> u32 \<Rightarrow> terrain_object" where
  "object_of job i =
     (let horizon = 158 + sint (tj_pitch job) sdiv 24;
          h = terrain_hash (ucast (tj_seed job) XOR i * 977);
          base_z = uint (h AND 4095);
          dz0 = base_z - uint (tj_camera_z job AND 4095);
          dz = (if dz0 < 0 then dz0 + 4096 else dz0) + 90;
          wx0 = uint (drop_bit 11 h AND 2047) - 1024;
          wx = (if wx0 > -150 \<and> wx0 < 150 then wx0 + (if wx0 < 0 then -190 else 190) else wx0);
          sz0 = 3 + 1500 sdiv dz
      in \<lparr>ob_kind = drop_bit 24 h mod 4,
          ob_x = i32 (320 + sint (tj_yaw job) sdiv 3 + i32 ((wx - sint (tj_camera_x job) sdiv 3) * 280) sdiv dz),
          ob_y = horizon + 18 + 36000 sdiv dz,
          ob_size = (if sz0 > 28 then 28 else sz0)\<rparr>)"

definition object_visible :: "terrain_object \<Rightarrow> u32 \<Rightarrow> u32 \<Rightarrow> bool" where
  "object_visible ob y0 y1 \<longleftrightarrow>
     \<not> (u32_of (ob_y ob) + u32_of (ob_size ob * 3) < y0 \<or> y1 \<le> u32_of (ob_y ob))"

definition draw_object :: "u64 \<Rightarrow> terrain_object \<Rightarrow> memory \<Rightarrow> memory" where
  "draw_object buffer ob m =
     (let x = ob_x ob; y = ob_y ob; sz = ob_size ob
      in if ob_kind ob = 0 then
           draw_rect buffer (x - sz) (y - sz * 4) (sz * 2 + 2) (sz * 2) 5
             (draw_rect buffer x (y - sz * 3) (sz sdiv 2 + 1) (sz * 3) 6 m)
         else if ob_kind ob = 1 then
           draw_rect buffer (x + sz sdiv 2) (y - sz sdiv 2) (sz sdiv 2 + 1) (sz sdiv 2 + 1) 8
             (draw_rect buffer (x - sz) y (sz * 2 + 1) (sz sdiv 2 + 1) 15 m)
         else if ob_kind ob = 2 then
           draw_rect buffer (x + sz) (y - sz * 2) (sz + 5) (sz sdiv 2 + 1) 12
             (draw_rect buffer (x - sz sdiv 2) (y - sz * 2) sz sz 12
               (draw_rect buffer (x - sz) (y - sz) (sz * 2 + 2) sz 12 m))
         else draw_rect buffer (x - sz sdiv 2) (y - sz sdiv 2) (sz + 1) (sz + 1) 7 m)"

definition draw_objects_for_slice ::
  "u64 \<Rightarrow> OreTerrainJob \<Rightarrow> u32 \<Rightarrow> u32 \<Rightarrow> u32 \<Rightarrow> memory \<Rightarrow> u32 \<times> memory" where
  "draw_objects_for_slice buffer job y0 y1 objects m =
     fold (\<lambda>i (n, m1).
       let ob = object_of job i
       in if \<not> object_visible ob y0 y1 then (n, m1) else (n + 1, draw_object buffer ob m1))
     (u32_range 0 42) (objects, m)"

definition slice_from :: "u32 \<Rightarrow> u32 \<Rightarrow> u32" where
  "slice_from worker worker_count = (TERRAIN_W * worker) div worker_count"

definition render_slice :: "u32 \<Rightarrow> u32 \<Rightarrow> 'a terrain_scheme \<Rightarrow> 'a terrain_scheme" where
  "render_slice worker worker_count s =
     s\<lparr>mem := render_voxel_slice (tjob_buffer (terrain_job s)) (tjob_job (terrain_job s))
               (slice_from worker worker_count) (slice_from (worker + 1) worker_count) (mem s)\<rparr>"

definition update_job :: "(TerrainSharedJob \<Rightarrow> TerrainSharedJob) \<Rightarrow> 'a terrain_scheme \<Rightarrow> 'a terrain_scheme" where
  "update_job f s = s\<lparr>terrain_job := f (terrain_job s)\<rparr>"

definition run_worker :: "u32 \<Rightarrow> u32 \<Rightarrow> 'a terrain_scheme \<Rightarrow> 'a terrain_scheme" where
  "run_worker worker workers s =
     (let b = push_bit (unat worker) 1;
          s1 = update_job (\<lambda>j. j\<lparr>tjob_started_mask := tjob_started_mask j OR b\<rparr>) s;
          s2 = render_slice worker workers s1
      in update_job (\<lambda>j. j\<lparr>tjob_done_mask := tjob_done_mask j OR b\<rparr>) s2)"

definition terrain_worker_poll :: "u32 \<Rightarrow> 'a terrain_scheme \<Rightarrow> 'a terrain_scheme" where
  "terrain_worker_poll cpu_id s =
     (let j = terrain_job s; workers = tjob_worker_count j
      in if \<not> tjob_active j then s
         else if cpu_id = 0 \<or> workers \<le> cpu_id \<or> TERRAIN_MAX_WORKERS \<le> cpu_id then s
         else if tjob_done_mask j AND push_bit (unat cpu_id) 1 \<noteq> 0 then s
         else run_worker cpu_id workers s)"

definition finish_worker :: "u32 \<Rightarrow> u32 \<Rightarrow> 'a terrain_scheme \<Rightarrow> 'a terrain_scheme" where
  "finish_worker workers c s =
     (if tjob_done_mask (terrain_job s) AND push_bit (unat c) 1 = 0 then run_worker c workers s else s)"

definition fnv_step :: "u8 \<Rightarrow> u64 \<Rightarrow> u64" where
  "fnv_step b h = (h XOR ucast b) * 1099511628211"

definition terrain_checksum :: "memory \<Rightarrow> u64 \<Rightarrow> u64 \<Rightarrow> u64" where
  "terrain_checksum m buffer len =
     fold (\<lambda>k. fnv_step (m (buffer + word_of_nat (97 * k)))) [0..<(unat len + 96) div 97] 1469598103934665603"

definition terrain_workers :: "'a cpu_scheme \<Rightarrow> u32" where
  "terrain_workers s =
     (let w = (if g_cpu_count s = 0 then 1 else g_cpu_count s)
      in if TERRAIN_MAX_WORKERS < w then TERRAIN_MAX_WORKERS else w)"

definition terrain_setup :: "OreTerrainJob \<Rightarrow> u64 \<Rightarrow> 'a terrain_scheme \<Rightarrow> 'a terrain_scheme" where
  "terrain_setup job buffer s =
     (let s1 = update_job (\<lambda>j. j\<lparr>tjob_job := job, tjob_buffer := buffer, tjob_worker_count := terrain_workers s,
                                  tjob_started_mask := 1, tjob_done_mask := 0, tjob_objects := 0,
                                  tjob_generation := tjob_generation j + 1\<rparr>) s;
          s2 = s1\<lparr>mem := clear_sky buffer job 0 TERRAIN_H (mem s1)\<rparr>
      in update_job (\<lambda>j. j\<lparr>tjob_active := True\<rparr>) s2)"

text \<open>
  \<open>ticks\<close> is the number of timer interrupts CPU 0 takes during the call. The wait ends after four
  million turns, or when every worker is done; \<open>polls\<close> is what the other CPUs do up to then.
\<close>

definition terrain_render_user ::
  "u32 list \<Rightarrow> u64 \<Rightarrow> OreTerrainJob \<Rightarrow> u64 \<Rightarrow> u64 \<Rightarrow> 'a terrain_scheme \<Rightarrow> (OreTerrainResult option) \<times> 'a terrain_scheme" where
  "terrain_render_user polls ticks job buffer len s =
     (if buffer = 0 \<or> len \<noteq> ucast TERRAIN_W * ucast TERRAIN_H then (None, s)
      else
        let workers = terrain_workers s;
            s1 = terrain_setup job buffer s;
            s2 = update_job (\<lambda>j. j\<lparr>tjob_done_mask := tjob_done_mask j OR 1\<rparr>) (render_slice 0 workers s1);
            s3 = fold terrain_worker_poll polls s2;
            s4 = fold (finish_worker workers) (u32_range 1 workers) s3;
            (objects, m) = draw_objects_for_slice buffer job 0 TERRAIN_H 0 (mem s4);
            s5 = update_job (\<lambda>j. j\<lparr>tjob_objects := objects, tjob_active := False\<rparr>) (s4\<lparr>mem := m\<rparr>)
        in (Some \<lparr>tr_workers_used = workers, tr_objects_rendered = objects, tr_collision_flags = 0,
                  tr_reserved = 0, tr_checksum = terrain_checksum m buffer len, tr_render_ticks = ticks\<rparr>, s5))"

end
