(* ===== verification/Initramfs.thy ===== *)
theory Initramfs
  imports Terrain
begin

text \<open>
  The initial RAM file system, \<open>kernel/initramfs.c\<close>: the files of a tar archive that the loader
  left in memory. \<open>files\<close> is the list of the first \<open>file_count\<close> elements of the array of 64 entries
  (later elements are never read). Names and data stay where they are in the archive: an entry holds
  their addresses.
\<close>

subsection \<open>The model\<close>

record InitramfsFile =
  f_name :: u64
  f_data :: u64
  f_size :: u64
  f_type :: u32

record initramfs = terrain +
  archive_base :: u64
  archive_size :: u64
  files :: "InitramfsFile list"

definition TAR_BLOCK :: u64 where
  "TAR_BLOCK = 512"

definition file_count :: "'a initramfs_scheme \<Rightarrow> u32" where
  "file_count s = word_of_nat (length (files s))"

definition octal_digit :: "u8 \<Rightarrow> bool" where
  "octal_digit c \<longleftrightarrow> chr CHR ''0'' \<le> c \<and> c \<le> chr CHR ''7''"

fun parse_octal_from :: "u64 \<Rightarrow> u8 list \<Rightarrow> u64" where
  "parse_octal_from value [] = value"
| "parse_octal_from value (c # cs) =
     parse_octal_from
       (if octal_digit c then push_bit 3 value + ucast (c - chr CHR ''0'') else value) cs"

definition parse_octal :: "memory \<Rightarrow> u64 \<Rightarrow> nat \<Rightarrow> u64" where
  "parse_octal m s n = parse_octal_from 0 (read_bytes m s n)"

definition block_empty :: "memory \<Rightarrow> u64 \<Rightarrow> bool" where
  "block_empty m p \<longleftrightarrow> list_all (\<lambda>b. b = 0) (read_bytes m p (unat TAR_BLOCK))"

definition tar_padded :: "u64 \<Rightarrow> u64" where
  "tar_padded sz = ((sz + TAR_BLOCK - 1) div TAR_BLOCK) * TAR_BLOCK"

partial_function (option) initramfs_scan ::
  "memory \<Rightarrow> u64 \<Rightarrow> u64 \<Rightarrow> u64 \<Rightarrow> InitramfsFile list \<Rightarrow> InitramfsFile list option" where
  "initramfs_scan m base asize off fs =
     (if \<not> (off + TAR_BLOCK \<le> asize \<and> length fs < 64) then Some fs
      else
        let hdr = base + off
        in if block_empty m hdr then Some fs
           else
             let fsize = parse_octal m (hdr + 124) 12;
                 typeflag = m (hdr + 156);
                 off1 = off + TAR_BLOCK;
                 fs1 = (if m hdr \<noteq> 0 \<and> typeflag \<noteq> chr CHR ''5''
                        then fs @ [\<lparr>f_name = hdr, f_data = base + off1, f_size = fsize, f_type = 1\<rparr>]
                        else fs)
             in initramfs_scan m base asize (off1 + tar_padded fsize) fs1)"

definition initramfs_init :: "BootInfo \<Rightarrow> 'a initramfs_scheme \<Rightarrow> 'a initramfs_scheme or_panic" where
  "initramfs_init bi s =
     (let s1 = s\<lparr>archive_base := initramfs_base bi, archive_size := initramfs_size bi, files := []\<rparr>
      in if archive_base s1 = 0 \<or> archive_size s1 = 0 then Inr s1
         else kbind (of_loop (initramfs_scan (mem s1) (archive_base s1) (archive_size s1) 0 []))
                (\<lambda>fs. Inr (s1\<lparr>files := fs\<rparr>)))"

definition initramfs_count :: "'a initramfs_scheme \<Rightarrow> u32" where
  "initramfs_count s = file_count s"

definition initramfs_file :: "u32 \<Rightarrow> 'a initramfs_scheme \<Rightarrow> InitramfsFile option" where
  "initramfs_file index s = (if file_count s \<le> index then None else Some (files s ! unat index))"

definition skip_slash :: "cstr \<Rightarrow> cstr" where
  "skip_slash path = (if cget path 0 = chr CHR ''/'' then drop 1 path else path)"

definition file_name :: "'a initramfs_scheme \<Rightarrow> InitramfsFile \<Rightarrow> cstr" where
  "file_name s f = cstr_at (mem s) (f_name f)"

definition initramfs_lookup_raw :: "cstr \<Rightarrow> 'a initramfs_scheme \<Rightarrow> InitramfsFile option" where
  "initramfs_lookup_raw path s = find (\<lambda>f. str_eq (file_name s f) (skip_slash path)) (files s)"

end
