(* ===== verification/Block.thy ===== *)
theory Block
  imports Initramfs
begin

text \<open>
  Block devices, \<open>kernel/block.c\<close>: an ATA disk read by programmed input, or a disk image that the
  machine offers through the firmware configuration ports. A read returns its result code together
  with the bytes it stored in the buffer (every caller passes a buffer that is not null). The
  function pointer \<open>read\<close> of a device is the value of \<open>block_read\<close> that names the function.
\<close>

subsection \<open>The model\<close>

datatype block_read = FwcfgReadDisk | AtaReadSlave

record BlockDevice =
  bd_name :: cstr
  block_size :: u64
  block_count :: u64
  bd_read :: block_read

record block = initramfs +
  root_block :: "BlockDevice option"
  fwcfg_disk_selector :: u16

definition io_wait :: "('a ports_scheme, unit) state" where
  "io_wait = outb 0x80 0"

fun ata_wait_loop :: "nat \<Rightarrow> u8 \<Rightarrow> u8 \<Rightarrow> ('a ports_scheme, cint) state" where
  "ata_wait_loop 0 msk value = State_Monad.return (-1)"
| "ata_wait_loop (Suc n) msk value = do {
     status \<leftarrow> inb 0x1F7;
     if status AND 0x01 \<noteq> 0 then State_Monad.return (-1)
     else if status AND msk = value then State_Monad.return 0
     else ata_wait_loop n msk value }"

definition ata_wait :: "u8 \<Rightarrow> u8 \<Rightarrow> ('a ports_scheme, cint) state" where
  "ata_wait msk value = ata_wait_loop 1000000 msk value"

text \<open>The result is \<open>Some sectors\<close>, or \<open>None\<close> for \<open>-1\<close>.\<close>

definition ata_identify_slave :: "('a ports_scheme, u64 option) state" where
  "ata_identify_slave = do {
     outb 0x1F6 0xB0;
     io_wait;
     outb 0x1F2 0;
     outb 0x1F3 0;
     outb 0x1F4 0;
     outb 0x1F5 0;
     outb 0x1F7 0xEC;
     io_wait;
     status \<leftarrow> inb 0x1F7;
     if status = 0 then State_Monad.return None
     else do {
       r \<leftarrow> ata_wait 0x88 0x08;
       if r < 0 then State_Monad.return None
       else do {
         identify \<leftarrow> collect 256 (inw 0x1F0);
         let lba28 = (push_bit 16 (ucast (identify ! 61)) OR ucast (identify ! 60) :: u32);
         State_Monad.return (if lba28 \<noteq> 0 then Some (ucast lba28) else None) } } }"

definition word_bytes :: "u16 \<Rightarrow> u8 list" where
  "word_bytes w = [ucast (w AND 0xFF), ucast (drop_bit 8 w)]"

definition ata_read_sector :: "u32 \<Rightarrow> ('a ports_scheme, u8 list option) state" where
  "ata_read_sector cur = do {
     r \<leftarrow> ata_wait 0x80 0;
     if r < 0 then State_Monad.return None
     else do {
       outb 0x1F6 (ucast (0xE0 OR 0x10 OR (drop_bit 24 cur AND 0x0F)));
       outb 0x1F2 1;
       outb 0x1F3 (ucast (cur AND 0xFF));
       outb 0x1F4 (ucast (drop_bit 8 cur AND 0xFF));
       outb 0x1F5 (ucast (drop_bit 16 cur AND 0xFF));
       outb 0x1F7 0x20;
       r2 \<leftarrow> ata_wait 0x88 0x08;
       if r2 < 0 then State_Monad.return None
       else do {
         ws \<leftarrow> collect 256 (inw 0x1F0);
         State_Monad.return (Some (concat (map word_bytes ws))) } } }"

fun ata_read_sectors :: "u64 \<Rightarrow> nat list \<Rightarrow> ('a ports_scheme, cint \<times> u8 list) state" where
  "ata_read_sectors lba [] = State_Monad.return (0, [])"
| "ata_read_sectors lba (b # bs) = do {
     r \<leftarrow> ata_read_sector (ucast (lba + word_of_nat b));
     (case r of
        None \<Rightarrow> State_Monad.return (-1, [])
      | Some data \<Rightarrow> do {
          (rc, rest) \<leftarrow> ata_read_sectors lba bs;
          State_Monad.return (rc, data @ rest) }) }"

definition ata_read_slave :: "u64 \<Rightarrow> u32 \<Rightarrow> ('a ports_scheme, cint \<times> u8 list) state" where
  "ata_read_slave lba blocks =
     (if blocks = 0 \<or> 0x0FFFFFFF < lba + ucast blocks then State_Monad.return (-1, [])
      else ata_read_sectors lba [0..<unat blocks])"

definition fwcfg_read8 :: "('a ports_scheme, u8) state" where
  "fwcfg_read8 = inb 0x511"

definition fwcfg_read_be16 :: "('a ports_scheme, u16) state" where
  "fwcfg_read_be16 = do {
     a \<leftarrow> fwcfg_read8;
     b \<leftarrow> fwcfg_read8;
     State_Monad.return (push_bit 8 (ucast a) OR ucast b) }"

definition fwcfg_read_be32 :: "('a ports_scheme, u32) state" where
  "fwcfg_read_be32 = do {
     a \<leftarrow> fwcfg_read8;
     b \<leftarrow> fwcfg_read8;
     c \<leftarrow> fwcfg_read8;
     d \<leftarrow> fwcfg_read8;
     State_Monad.return (push_bit 24 (ucast a) OR push_bit 16 (ucast b) OR push_bit 8 (ucast c) OR ucast d) }"

definition fwcfg_select :: "u16 \<Rightarrow> ('a ports_scheme, unit) state" where
  "fwcfg_select selector = outw 0x510 selector"

text \<open>The directory loop runs at most 128 times; the result is \<open>Some (size, selector)\<close>.\<close>

fun fwcfg_find_entries :: "nat \<Rightarrow> ('a ports_scheme, (u32 \<times> u16) option) state" where
  "fwcfg_find_entries 0 = State_Monad.return None"
| "fwcfg_find_entries (Suc n) = do {
     file_size \<leftarrow> fwcfg_read_be32;
     file_selector \<leftarrow> fwcfg_read_be16;
     _ \<leftarrow> fwcfg_read_be16;
     name \<leftarrow> collect 56 fwcfg_read8;
     if str_eq (cstr_of (name[55 := 0])) (lit ''opt/ore/disk'')
     then State_Monad.return (Some (file_size, file_selector))
     else fwcfg_find_entries n }"

definition fwcfg_find_disk :: "('a ports_scheme, (u32 \<times> u16) option) state" where
  "fwcfg_find_disk = do {
     fwcfg_select 0x0019;
     count \<leftarrow> fwcfg_read_be32;
     fwcfg_find_entries (min (unat count) 128) }"

definition fwcfg_read_disk :: "u64 \<Rightarrow> u32 \<Rightarrow> ('a block_scheme, cint \<times> u8 list) state" where
  "fwcfg_read_disk lba blocks =
     (if blocks = 0 then State_Monad.return (-1, [])
      else do {
        s \<leftarrow> State_Monad.get;
        let offset = lba * 512;
        let bytes = (ucast blocks * 512 :: u64);
        fwcfg_select (fwcfg_disk_selector s);
        _ \<leftarrow> collect (unat offset) fwcfg_read8;
        out \<leftarrow> collect (unat bytes) fwcfg_read8;
        State_Monad.return (0, out) })"

definition block_init_ata :: "('a block_scheme, unit) state" where
  "block_init_ata = do {
     found \<leftarrow> ata_identify_slave;
     (case found of
        Some sectors \<Rightarrow>
          State_Monad.update (\<lambda>s. s\<lparr>root_block :=
            Some \<lparr>bd_name = lit ''ata1'', block_size = 512, block_count = sectors, bd_read = AtaReadSlave\<rparr>\<rparr>)
      | None \<Rightarrow> State_Monad.return ()) }"

definition block_init :: "('a block_scheme, unit) state" where
  "block_init = do {
     State_Monad.update (\<lambda>s. s\<lparr>root_block := None\<rparr>);
     found \<leftarrow> fwcfg_find_disk;
     (case found of
        Some (fw_size, fw_selector) \<Rightarrow>
          if 512 \<le> fw_size then
            State_Monad.update (\<lambda>s. s\<lparr>fwcfg_disk_selector := fw_selector,
              root_block := Some \<lparr>bd_name = lit ''fwcfg-ore-disk'', block_size = 512,
                                  block_count = ucast (fw_size div 512), bd_read = FwcfgReadDisk\<rparr>\<rparr>)
          else block_init_ata
      | None \<Rightarrow> block_init_ata) }"

definition block_root_read :: "u64 \<Rightarrow> u32 \<Rightarrow> ('a block_scheme, cint \<times> u8 list) state" where
  "block_root_read lba blocks = do {
     s \<leftarrow> State_Monad.get;
     (case root_block s of
        None \<Rightarrow> State_Monad.return (-1, [])
      | Some dev \<Rightarrow>
          if block_size dev \<noteq> 512 \<or> block_count dev < lba + ucast blocks then State_Monad.return (-1, [])
          else case bd_read dev of
                 FwcfgReadDisk \<Rightarrow> fwcfg_read_disk lba blocks
               | AtaReadSlave \<Rightarrow> ata_read_slave lba blocks) }"

definition block_root_count :: "'a block_scheme \<Rightarrow> u64" where
  "block_root_count s = (case root_block s of Some dev \<Rightarrow> block_count dev | None \<Rightarrow> 0)"

end
