(* ===== verification/Vfs.thy ===== *)
theory Vfs
  imports Block Abi
begin

text \<open>
  The virtual file system, \<open>kernel/vfs.c\<close>: the files of the initramfs at the root and the files of
  an OreFS disk under \<open>/disk\<close>. \<open>disk_entries\<close> holds the bytes of the static table of 128 entries of
  128 bytes each; a name is a C string that starts at its entry and ends at the first zero byte. A
  path is \<open>None\<close> for a null pointer. A read returns its result with the bytes it stored in the
  buffer, which is not null at any call in the kernel. \<open>stack_stat\<close> is what an uninitialised local
  \<open>VfsStat\<close> happens to hold.
\<close>

subsection \<open>The model\<close>

type_synonym VfsStat = OreVfsStat

record OreFsHeader =
  oh_magic :: "u8 list"
  oh_version :: u32
  oh_count :: u32

record OreFsEntry =
  oe_name :: cstr
  oe_offset :: u64
  oe_size :: u64
  oe_type :: u32

record vfs = block +
  mounted :: bool
  disk_mounted :: bool
  disk_entries :: "u8 list"
  disk_entry_count :: u32
  stack_stat :: VfsStat

definition OREFS_MAX_ENTRIES :: u32 where
  "OREFS_MAX_ENTRIES = 128"

definition sizeof_OreFsEntry :: u32 where
  "sizeof_OreFsEntry = 128"

definition u32_in :: "u8 list \<Rightarrow> nat \<Rightarrow> u32" where
  "u32_in bs o1 = word_of_nat (le_to_nat (take 4 (drop o1 bs)))"

definition u64_in :: "u8 list \<Rightarrow> nat \<Rightarrow> u64" where
  "u64_in bs o1 = word_of_nat (le_to_nat (take 8 (drop o1 bs)))"

definition orefs_header :: "u8 list \<Rightarrow> OreFsHeader" where
  "orefs_header sector = \<lparr>oh_magic = take 8 sector, oh_version = u32_in sector 8, oh_count = u32_in sector 12\<rparr>"

definition orefs_entry :: "u8 list \<Rightarrow> nat \<Rightarrow> OreFsEntry" where
  "orefs_entry table i =
     (let e = drop (128 * i) table
      in \<lparr>oe_name = cstr_of e, oe_offset = u64_in e 96, oe_size = u64_in e 104, oe_type = u32_in e 112\<rparr>)"

definition disk_table :: "'a vfs_scheme \<Rightarrow> OreFsEntry list" where
  "disk_table s = map (orefs_entry (disk_entries s)) [0..<unat (disk_entry_count s)]"

definition copy_name :: "char_array \<Rightarrow> cstr \<Rightarrow> char_array" where
  "copy_name dst src = copy_string dst src 128"

text \<open>\<open>copy_name_len\<close> fills a local array that is then only read as a string.\<close>

definition copy_name_len :: "cstr \<Rightarrow> nat \<Rightarrow> cstr" where
  "copy_name_len src len = copy_chars (min 127 len) src"

definition starts_with_dir :: "cstr \<Rightarrow> cstr \<Rightarrow> nat \<Rightarrow> bool" where
  "starts_with_dir name dir dir_len \<longleftrightarrow>
     dir_len = 0 \<or> (list_all (\<lambda>i. cget name i = cget dir i) [0..<dir_len] \<and> cget name dir_len = chr CHR ''/'')"

definition path_has_children :: "cstr \<Rightarrow> 'a vfs_scheme \<Rightarrow> bool" where
  "path_has_children path s \<longleftrightarrow>
     (let p = skip_slash path
      in list_ex (\<lambda>f. starts_with_dir (file_name s f) p (length p)) (files s))"

definition child_entry :: "cstr \<Rightarrow> u32 \<Rightarrow> u64 \<Rightarrow> (cstr \<times> u32 \<times> u64) option" where
  "child_entry rel ftype fsize =
     (if cget rel 0 = 0 then None
      else
        let child_len = length (takeWhile (\<lambda>c. c \<noteq> chr CHR ''/'') rel);
            name = copy_name_len rel child_len
        in if cget rel child_len = chr CHR ''/'' then Some (name, ORE_VFS_DIR, 0)
           else Some (name, ftype, fsize))"

definition direct_child :: "cstr \<Rightarrow> InitramfsFile \<Rightarrow> 'a vfs_scheme \<Rightarrow> (cstr \<times> u32 \<times> u64) option" where
  "direct_child dir f s =
     (let dir_len = length dir
      in if \<not> starts_with_dir (file_name s f) dir dir_len then None
         else
           let rel = drop dir_len (file_name s f)
           in child_entry (if dir_len \<noteq> 0 then drop 1 rel else rel) (f_type f) (f_size f))"

definition disk_path :: "cstr option \<Rightarrow> cstr option" where
  "disk_path path =
     (case path of
        None \<Rightarrow> None
      | Some p \<Rightarrow>
          if str_eq p (lit ''/disk'') then Some []
          else if cget p 0 = chr CHR ''/'' \<and> cget p 1 = chr CHR ''d'' \<and> cget p 2 = chr CHR ''i''
                  \<and> cget p 3 = chr CHR ''s'' \<and> cget p 4 = chr CHR ''k'' \<and> cget p 5 = chr CHR ''/''
               then Some (drop 6 p)
          else None)"

definition disk_lookup :: "cstr \<Rightarrow> 'a vfs_scheme \<Rightarrow> OreFsEntry option" where
  "disk_lookup path s =
     (let rel = (case disk_path (Some path) of Some r \<Rightarrow> r | None \<Rightarrow> path)
      in find (\<lambda>e. str_eq (oe_name e) (skip_slash rel)) (disk_table s))"

definition disk_has_children :: "cstr \<Rightarrow> 'a vfs_scheme \<Rightarrow> bool" where
  "disk_has_children rel s =
     (let len = length rel
      in if len = 0 then disk_entry_count s \<noteq> 0
         else list_ex (\<lambda>e. str_prefix_eq (oe_name e) rel len \<and> cget (oe_name e) len = chr CHR ''/'') (disk_table s))"

definition disk_direct_child :: "cstr \<Rightarrow> OreFsEntry \<Rightarrow> (cstr \<times> u32 \<times> u64) option" where
  "disk_direct_child dir e =
     (let dir_len = length dir
      in if dir_len \<noteq> 0 \<and> (\<not> str_prefix_eq (oe_name e) dir dir_len \<or> cget (oe_name e) dir_len \<noteq> chr CHR ''/'')
         then None
         else
           let rel = drop dir_len (oe_name e)
           in child_entry (if dir_len \<noteq> 0 then drop 1 rel else rel) (oe_type e) (oe_size e))"

definition orefs_magic_ok :: "OreFsHeader \<Rightarrow> bool" where
  "orefs_magic_ok hdr \<longleftrightarrow> take 6 (oh_magic hdr) = lit ''OREFS1''"

definition mount_disk :: "'a vfs_scheme \<Rightarrow> (cint \<times> 'a vfs_scheme) or_panic" where
  "mount_disk s =
     (let ((rc, sector), s1) = run_state (block_root_read 0 1) s
      in if rc < 0 then Inr (-1, s1)
         else
           let hdr = orefs_header sector
           in if \<not> orefs_magic_ok hdr then Inr (-1, s1)
              else if OREFS_MAX_ENTRIES < oh_count hdr then Inr (-1, s1)
              else
                let entry_bytes = oh_count hdr * sizeof_OreFsEntry;
                    entry_sectors = (entry_bytes + 511) div 512;
                    mount = (\<lambda>t. t\<lparr>disk_entry_count := oh_count hdr, disk_mounted := True\<rparr>)
                in if entry_sectors = 0 then Inr (0, mount s1)
                   else kbind (kmalloc (ucast (entry_sectors * 512)) s1) (\<lambda>(tmp, s2).
                     if tmp = 0 then Inr (-1, s2)
                     else
                       let ((rc2, data), s3) = run_state (block_root_read 1 entry_sectors) s2;
                           s4 = s3\<lparr>mem := write_bytes (mem s3) tmp data\<rparr>
                       in if rc2 < 0 then kbind (kfree tmp s4) (\<lambda>s5. Inr (-1, s5))
                          else
                            let n = unat entry_bytes;
                                s5 = s4\<lparr>disk_entries := read_bytes (mem s4) tmp n @ drop n (disk_entries s4)\<rparr>
                            in kbind (kfree tmp s5) (\<lambda>s6. Inr (0, mount s6))))"

definition vfs_init :: "'a vfs_scheme \<Rightarrow> 'a vfs_scheme" where
  "vfs_init s = s\<lparr>mounted := False\<rparr>"

definition vfs_mount_initramfs :: "'a vfs_scheme \<Rightarrow> (cint \<times> 'a vfs_scheme) or_panic" where
  "vfs_mount_initramfs s = kbind (mount_disk (s\<lparr>mounted := True\<rparr>)) (\<lambda>(rc, s1). Inr (0, s1))"

definition fill_stat :: "VfsStat \<Rightarrow> cstr \<Rightarrow> u32 \<Rightarrow> u64 \<Rightarrow> VfsStat" where
  "fill_stat st name ftype fsize = st\<lparr>vs_name := copy_name (vs_name st) name, vs_type := ftype, vs_size := fsize\<rparr>"

text \<open>\<open>None\<close> is the result \<open>-1\<close>, which leaves \<open>*stat\<close> as it was.\<close>

definition vfs_stat :: "cstr option \<Rightarrow> VfsStat \<Rightarrow> 'a vfs_scheme \<Rightarrow> VfsStat option" where
  "vfs_stat path st s =
     (if \<not> mounted s then None
      else case path of
        None \<Rightarrow> None
      | Some p \<Rightarrow>
          if cget p 0 = chr CHR ''/'' \<and> cget p 1 = 0 then Some (fill_stat st (lit ''/'') ORE_VFS_DIR 0)
          else case (if disk_mounted s then disk_path path else None) of
            Some rel \<Rightarrow>
              if cget rel 0 = 0 then Some (fill_stat st (lit ''disk'') ORE_VFS_DIR 0)
              else (case disk_lookup rel s of
                      Some e \<Rightarrow> Some (fill_stat st (oe_name e) (oe_type e) (oe_size e))
                    | None \<Rightarrow>
                        if disk_has_children rel s then Some (fill_stat st rel ORE_VFS_DIR 0) else None)
          | None \<Rightarrow>
              (case initramfs_lookup_raw p s of
                 None \<Rightarrow>
                   if \<not> path_has_children p s then None
                   else Some (fill_stat st (skip_slash p) ORE_VFS_DIR 0)
               | Some f \<Rightarrow> Some (fill_stat st (file_name s f) (f_type f) (f_size f))))"

definition disk_read_at :: "OreFsEntry \<Rightarrow> u64 \<Rightarrow> u64 \<Rightarrow> 'a vfs_scheme \<Rightarrow> ((cint \<times> u8 list) \<times> 'a vfs_scheme) or_panic" where
  "disk_read_at e offset buffer_size s =
     (let remaining = oe_size e - offset;
          n = (if remaining < buffer_size then remaining else buffer_size);
          disk_offset = oe_offset e + offset;
          first_lba = disk_offset div 512;
          lba_off = disk_offset mod 512;
          sectors = (lba_off + n + 511) div 512
      in kbind (kmalloc (sectors * 512) s) (\<lambda>(tmp, s1).
         if tmp = 0 then Inr ((-1, []), s1)
         else
           let ((rc, data), s2) = run_state (block_root_read first_lba (ucast sectors)) s1;
               s3 = s2\<lparr>mem := write_bytes (mem s2) tmp data\<rparr>
           in if rc < 0 then kbind (kfree tmp s3) (\<lambda>s4. Inr ((-1, []), s4))
              else
                let out = read_bytes (mem s3) (tmp + lba_off) (unat n)
                in kbind (kfree tmp s3) (\<lambda>s4. Inr ((sint n, out), s4))))"

definition vfs_read_file_at ::
  "cstr option \<Rightarrow> u64 \<Rightarrow> u64 \<Rightarrow> 'a vfs_scheme \<Rightarrow> ((cint \<times> u8 list) \<times> 'a vfs_scheme) or_panic" where
  "vfs_read_file_at path offset buffer_size s =
     (if \<not> mounted s then Inr ((-1, []), s)
      else case path of
        None \<Rightarrow> Inr ((-1, []), s)
      | Some p \<Rightarrow>
          (case (if disk_mounted s then disk_path path else None) of
             Some rel \<Rightarrow>
               (case disk_lookup rel s of
                  None \<Rightarrow> Inr ((-1, []), s)
                | Some e \<Rightarrow>
                    if oe_type e \<noteq> ORE_VFS_FILE then Inr ((-1, []), s)
                    else if oe_size e \<le> offset then Inr ((0, []), s)
                    else disk_read_at e offset buffer_size s)
           | None \<Rightarrow>
               (case initramfs_lookup_raw p s of
                  None \<Rightarrow> Inr ((-1, []), s)
                | Some f \<Rightarrow>
                    if f_size f \<le> offset then Inr ((0, []), s)
                    else
                      let remaining = f_size f - offset;
                          n = (if remaining < buffer_size then remaining else buffer_size)
                      in Inr ((sint n, read_bytes (mem s) (f_data f + offset) (unat n)), s))))"

definition vfs_read_file :: "cstr option \<Rightarrow> u64 \<Rightarrow> 'a vfs_scheme \<Rightarrow> ((cint \<times> u8 list) \<times> 'a vfs_scheme) or_panic" where
  "vfs_read_file path buffer_size s = vfs_read_file_at path 0 buffer_size s"

text \<open>
  The two directory loops share their shape: \<open>child\<close> gives the child an entry contributes, an
  entry whose child name appeared before is skipped, and the entry number \<open>index\<close> among the rest is
  the result (\<open>Inr\<close>); otherwise the count of entries emitted (\<open>Inl\<close>).
\<close>

definition duplicate_child :: "(nat \<Rightarrow> (cstr \<times> u32 \<times> u64) option) \<Rightarrow> nat \<Rightarrow> cstr \<Rightarrow> bool" where
  "duplicate_child child i name \<longleftrightarrow>
     list_ex (\<lambda>j. case child j of Some (prev, _, _) \<Rightarrow> str_eq name prev | None \<Rightarrow> False) [0..<i]"

fun readdir_loop ::
  "(nat \<Rightarrow> (cstr \<times> u32 \<times> u64) option) \<Rightarrow> nat list \<Rightarrow> u32 \<Rightarrow> u32 \<Rightarrow> u32 + (cstr \<times> u32 \<times> u64)" where
  "readdir_loop child [] emitted index = Inl emitted"
| "readdir_loop child (i # is) emitted index =
     (case child i of
        None \<Rightarrow> readdir_loop child is emitted index
      | Some (name, ftype, fsize) \<Rightarrow>
          if duplicate_child child i name then readdir_loop child is emitted index
          else if emitted = index then Inr (name, ftype, fsize)
          else readdir_loop child is (emitted + 1) index)"

definition vfs_readdir_path :: "cstr option \<Rightarrow> u32 \<Rightarrow> VfsStat \<Rightarrow> 'a vfs_scheme \<Rightarrow> VfsStat option" where
  "vfs_readdir_path path index st s =
     (if \<not> mounted s then None
      else
        let p = (case path of Some q \<Rightarrow> q | None \<Rightarrow> lit ''/'')
        in case (if disk_mounted s then disk_path (Some p) else None) of
             Some disk_rel \<Rightarrow>
               (case readdir_loop (\<lambda>i. disk_direct_child disk_rel (disk_table s ! i))
                       [0..<unat (disk_entry_count s)] 0 index of
                  Inr (name, ftype, fsize) \<Rightarrow> Some (fill_stat st name ftype fsize)
                | Inl emitted \<Rightarrow> None)
           | None \<Rightarrow>
               let dir = copy_chars 127 (skip_slash p)
               in case readdir_loop (\<lambda>i. direct_child dir (files s ! i) s) [0..<length (files s)] 0 index of
                    Inr (name, ftype, fsize) \<Rightarrow> Some (fill_stat st name ftype fsize)
                  | Inl emitted \<Rightarrow>
                      if cget dir 0 = 0 \<and> disk_mounted s \<and> index = emitted
                      then Some (fill_stat st (lit ''disk'') ORE_VFS_DIR 0)
                      else None)"

definition vfs_readdir :: "u32 \<Rightarrow> VfsStat \<Rightarrow> 'a vfs_scheme \<Rightarrow> VfsStat option" where
  "vfs_readdir index st s = vfs_readdir_path (Some (lit ''/'')) index st s"

definition vfs_self_test :: "'a vfs_scheme \<Rightarrow> 'a vfs_scheme or_panic" where
  "vfs_self_test s =
     (case vfs_stat (Some (lit ''/'')) (stack_stat s) s of
        None \<Rightarrow> panic ''vfs: root stat failed''
      | Some st \<Rightarrow>
          if initramfs_count s = 0 then Inr s
          else case initramfs_file 0 s of
                 None \<Rightarrow> panic ''vfs: missing first file''
               | Some f \<Rightarrow>
                   kbind (vfs_read_file (Some (file_name s f)) 32 s) (\<lambda>((n, buf), s1).
                     if n < 0 then panic ''vfs: read failed'' else Inr s1))"

end
