(* ===== verification/Elf.thy ===== *)
theory Elf
  imports Cstring
begin

text \<open>
  The ELF parser, \<open>kernel/elf.c\<close>. An image is the address of its first byte in memory; a header
  field is a little-endian load at the offset the C structure gives it. \<open>Elf64_Ehdr\<close> as declared
  ends after \<open>e_phnum\<close> and is padded to 64 bytes, \<open>Elf64_Phdr\<close> has 56.
\<close>

subsection \<open>The model\<close>

definition read16 :: "memory \<Rightarrow> u64 \<Rightarrow> u16" where
  "read16 m a = word_of_nat (le_to_nat (read_bytes m a 2))"

record Elf64_Ehdr =
  e_ident :: "u8 list"
  e_type :: u16
  e_machine :: u16
  e_version :: u32
  e_entry :: u64
  e_phoff :: u64
  e_shoff :: u64
  e_flags :: u32
  e_ehsize :: u16
  e_phentsize :: u16
  e_phnum :: u16

record Elf64_Phdr =
  p_type :: u32
  p_flags :: u32
  p_offset :: u64
  p_vaddr :: u64
  p_paddr :: u64
  p_filesz :: u64
  p_memsz :: u64
  p_align :: u64

record UserElfSegmentInfo =
  vaddr :: u64
  file_offset :: u64
  mem_size :: u64
  file_size :: u64
  seg_flags :: u64

text \<open>\<open>segments\<close> is the list of the first \<open>segment_count\<close> elements of the array of eight.\<close>

record UserElfInfo =
  entry :: u64
  image_size :: u64
  segments :: "UserElfSegmentInfo list"

definition segment_count :: "UserElfInfo \<Rightarrow> u32" where
  "segment_count info = word_of_nat (length (segments info))"

definition sizeof_Ehdr :: u64 where
  "sizeof_Ehdr = 64"

definition ehdr_at :: "memory \<Rightarrow> u64 \<Rightarrow> Elf64_Ehdr" where
  "ehdr_at m p =
     \<lparr>e_ident = read_bytes m p 16, e_type = read16 m (p + 16), e_machine = read16 m (p + 18),
      e_version = read32 m (p + 20), e_entry = read64 m (p + 24), e_phoff = read64 m (p + 32),
      e_shoff = read64 m (p + 40), e_flags = read32 m (p + 48), e_ehsize = read16 m (p + 52),
      e_phentsize = read16 m (p + 54), e_phnum = read16 m (p + 56)\<rparr>"

definition phdr_at :: "memory \<Rightarrow> u64 \<Rightarrow> Elf64_Phdr" where
  "phdr_at m p =
     \<lparr>p_type = read32 m p, p_flags = read32 m (p + 4), p_offset = read64 m (p + 8),
      p_vaddr = read64 m (p + 16), p_paddr = read64 m (p + 24), p_filesz = read64 m (p + 32),
      p_memsz = read64 m (p + 40), p_align = read64 m (p + 48)\<rparr>"

definition PT_LOAD :: u32 where
  "PT_LOAD = 1"

definition ET_EXEC :: u16 where
  "ET_EXEC = 2"

definition EM_X86_64 :: u16 where
  "EM_X86_64 = 62"

definition ident_ok :: "u8 list \<Rightarrow> bool" where
  "ident_ok d \<longleftrightarrow> d ! 0 = 0x7f \<and> d ! 1 = chr CHR ''E'' \<and> d ! 2 = chr CHR ''L'' \<and> d ! 3 = chr CHR ''F''"

text \<open>\<open>elf_header_ok\<close> is the part of \<open>elf_validate\<close> after the null and size tests.\<close>

definition elf_header_ok :: "Elf64_Ehdr \<Rightarrow> u64 \<Rightarrow> bool" where
  "elf_header_ok eh sz \<longleftrightarrow>
     ident_ok (e_ident eh) \<and> e_ident eh ! 4 = 2 \<and> e_ident eh ! 5 = 1
     \<and> e_type eh = ET_EXEC \<and> e_machine eh = EM_X86_64
     \<and> \<not> sz < e_phoff eh + ucast (e_phentsize eh) * ucast (e_phnum eh)"

definition elf_validate :: "memory \<Rightarrow> u64 \<Rightarrow> u64 \<Rightarrow> cint" where
  "elf_validate m img sz =
     (if img = 0 \<or> sz < sizeof_Ehdr then -1
      else if elf_header_ok (ehdr_at m img) sz then 0 else -1)"

definition phdr_addr :: "u64 \<Rightarrow> Elf64_Ehdr \<Rightarrow> nat \<Rightarrow> u64" where
  "phdr_addr img eh i = img + e_phoff eh + word_of_nat i * ucast (e_phentsize eh)"

text \<open>One turn of the program-header loop: skip, fail, or append a segment.\<close>

definition probe_segment :: "u64 \<Rightarrow> Elf64_Phdr \<Rightarrow> UserElfSegmentInfo list \<Rightarrow> UserElfSegmentInfo list option" where
  "probe_segment sz ph segs =
     (if p_type ph \<noteq> PT_LOAD \<or> p_memsz ph = 0 then Some segs
      else if sz < p_offset ph + p_filesz ph \<or> p_memsz ph < p_filesz ph then None
      else if 8 \<le> length segs then None
      else Some (segs @ [\<lparr>vaddr = p_vaddr ph, file_offset = p_offset ph, mem_size = p_memsz ph,
                          file_size = p_filesz ph, seg_flags = ucast (p_flags ph)\<rparr>]))"

fun probe_segments :: "u64 \<Rightarrow> Elf64_Phdr list \<Rightarrow> UserElfSegmentInfo list \<Rightarrow> UserElfSegmentInfo list option" where
  "probe_segments sz [] segs = Some segs"
| "probe_segments sz (ph # phs) segs =
     (case probe_segment sz ph segs of None \<Rightarrow> None | Some segs1 \<Rightarrow> probe_segments sz phs segs1)"

definition program_headers :: "memory \<Rightarrow> u64 \<Rightarrow> Elf64_Phdr list" where
  "program_headers m img =
     (let eh = ehdr_at m img
      in map (\<lambda>i. phdr_at m (phdr_addr img eh i)) [0..<unat (e_phnum eh)])"

text \<open>\<open>None\<close> is the result \<open>-1\<close>; the contents of \<open>info\<close> are then not used by any caller.\<close>

definition elf_probe_user_image :: "memory \<Rightarrow> u64 \<Rightarrow> u64 \<Rightarrow> UserElfInfo option" where
  "elf_probe_user_image m img sz =
     (if elf_validate m img sz < 0 then None
      else case probe_segments sz (program_headers m img) [] of
             None \<Rightarrow> None
           | Some segs \<Rightarrow>
               if segs = [] then None
               else Some \<lparr>entry = e_entry (ehdr_at m img), image_size = sz, segments = segs\<rparr>)"

definition self_test_ehdr :: Elf64_Ehdr where
  "self_test_ehdr =
     \<lparr>e_ident = [0x7f, chr CHR ''E'', chr CHR ''L'', chr CHR ''F'', 2, 1, 0, 0, 0, 0, 0, 0, 0, 0, 0, 0],
      e_type = ET_EXEC, e_machine = EM_X86_64, e_version = 0, e_entry = 0, e_phoff = sizeof_Ehdr,
      e_shoff = 0, e_flags = 0, e_ehsize = 0, e_phentsize = 56, e_phnum = 0\<rparr>"

definition elf_self_test :: "unit or_panic" where
  "elf_self_test =
     (let eh = self_test_ehdr;
          eh1 = eh\<lparr>e_ident := (e_ident eh)[1 := chr CHR ''X'']\<rparr>
      in if \<not> elf_header_ok eh sizeof_Ehdr then panic ''elf: valid self-test failed''
         else if elf_header_ok eh1 sizeof_Ehdr then panic ''elf: invalid self-test failed''
         else Inr ())"

end
