(* ===== verification/Process.thy ===== *)
theory Process
  imports Vfs Elf
begin

text \<open>
  The process table, \<open>kernel/process.c\<close>, with the structures of \<open>kernel/kernel.h\<close> it consists of.
  \<open>processes\<close> is the static table of 32 processes; a pointer to a process is its index in the table,
  \<open>None\<close> the null pointer. A process name is the string stored for it in \<open>process_names\<close>.
\<close>

subsection \<open>Structures\<close>

record InterruptFrame =
  r15 :: u64
  r14 :: u64
  r13 :: u64
  r12 :: u64
  r11 :: u64
  r10 :: u64
  r9 :: u64
  r8 :: u64
  rdi :: u64
  rsi :: u64
  rbp :: u64
  rdx :: u64
  rcx :: u64
  rbx :: u64
  rax :: u64
  vector :: u64
  error_code :: u64
  rip :: u64
  fcs :: u64
  rflags :: u64
  rsp :: u64
  fss :: u64

record AddressSpace =
  pml4_phys :: u64
  user_base :: u64
  user_limit :: u64

record UserAllocation =
  ua_virt :: u64
  ua_phys :: u64
  ua_pages :: u32
  ua_used :: u32

record Handle =
  h_type :: u32
  h_offset :: u64
  h_flags :: u32
  h_path :: char_array

record Process =
  pid :: u32
  pname :: "cstr option"
  pstate :: u32
  user_entry :: u64
  user_stack :: u64
  user_segment_count :: u32
  parent_pid :: u32
  proc_syscall_count :: u64
  saved_user_rip :: u64
  saved_user_rsp :: u64
  waiting_for_pid :: u32
  wait_return_rip :: u64
  wait_return_rsp :: u64
  has_user_frame :: u32
  user_frame :: InterruptFrame
  pargs :: char_array
  address_space :: AddressSpace
  handles :: "Handle list"
  user_allocs :: "UserAllocation list"
  user_alloc_next :: u64
  user_alloc_pages_total :: u64
  exited :: u32
  exit_code :: u32

definition ORE_MAX_HANDLES :: nat where
  "ORE_MAX_HANDLES = 64"

definition ORE_MAX_USER_ALLOCS :: nat where
  "ORE_MAX_USER_ALLOCS = 64"

definition MAX_PROCESSES :: u32 where
  "MAX_PROCESSES = 32"

definition USER_BASE :: u64 where
  "USER_BASE = 0x0000008000000000"

definition USER_LIMIT :: u64 where
  "USER_LIMIT = 0x0000800000000000"

type_synonym proc_ptr = nat

record process = vfs +
  processes :: "Process list"
  process_count :: u32
  kernel_proc :: "proc_ptr option"
  current_proc :: "proc_ptr option"

subsection \<open>The model\<close>

definition zero_frame :: InterruptFrame where
  "zero_frame =
     \<lparr>r15 = 0, r14 = 0, r13 = 0, r12 = 0, r11 = 0, r10 = 0, r9 = 0, r8 = 0, rdi = 0, rsi = 0, rbp = 0,
      rdx = 0, rcx = 0, rbx = 0, rax = 0, vector = 0, error_code = 0, rip = 0, fcs = 0, rflags = 0,
      rsp = 0, fss = 0\<rparr>"

definition zero_handle :: Handle where
  "zero_handle = \<lparr>h_type = 0, h_offset = 0, h_flags = 0, h_path = replicate 128 0\<rparr>"

definition zero_alloc :: UserAllocation where
  "zero_alloc = \<lparr>ua_virt = 0, ua_phys = 0, ua_pages = 0, ua_used = 0\<rparr>"

definition zero_process :: Process where
  "zero_process =
     \<lparr>pid = 0, pname = None, pstate = 0, user_entry = 0, user_stack = 0, user_segment_count = 0,
      parent_pid = 0, proc_syscall_count = 0, saved_user_rip = 0, saved_user_rsp = 0,
      waiting_for_pid = 0, wait_return_rip = 0, wait_return_rsp = 0, has_user_frame = 0,
      user_frame = zero_frame, pargs = replicate 128 0,
      address_space = \<lparr>pml4_phys = 0, user_base = 0, user_limit = 0\<rparr>,
      handles = replicate ORE_MAX_HANDLES zero_handle,
      user_allocs = replicate ORE_MAX_USER_ALLOCS zero_alloc,
      user_alloc_next = 0, user_alloc_pages_total = 0, exited = 0, exit_code = 0\<rparr>"

definition proc_at :: "proc_ptr \<Rightarrow> 'a process_scheme \<Rightarrow> Process" where
  "proc_at p s = processes s ! p"

definition update_proc :: "proc_ptr \<Rightarrow> (Process \<Rightarrow> Process) \<Rightarrow> 'a process_scheme \<Rightarrow> 'a process_scheme" where
  "update_proc p f s = s\<lparr>processes := (processes s)[p := f (processes s ! p)]\<rparr>"

definition proc_pml4 :: "proc_ptr \<Rightarrow> 'a process_scheme \<Rightarrow> u64" where
  "proc_pml4 p s = pml4_phys (address_space (proc_at p s))"

definition store_process_name :: "u32 \<Rightarrow> cstr option \<Rightarrow> cstr" where
  "store_process_name i name =
     (if MAX_PROCESSES \<le> i then lit ''(invalid)''
      else copy_chars 63 (case name of Some n \<Rightarrow> n | None \<Rightarrow> lit ''(unnamed)''))"

definition process_init :: "'a process_scheme \<Rightarrow> 'a process_scheme" where
  "process_init s =
     (let s1 = s\<lparr>process_count := 1, kernel_proc := Some 0\<rparr>
      in (update_proc 0 (\<lambda>p. p\<lparr>pid := 0, pname := Some (store_process_name 0 (Some (lit ''kernel''))),
            pstate := ORE_PROC_RUNNING,
            address_space := \<lparr>pml4_phys = vmm_kernel_pml4 s, user_base = USER_BASE, user_limit = USER_LIMIT\<rparr>\<rparr>) s1)
           \<lparr>current_proc := Some 0\<rparr>)"

definition process_kernel :: "'a process_scheme \<Rightarrow> proc_ptr option" where
  "process_kernel s = kernel_proc s"

definition address_space_clone_kernel :: "AddressSpace option \<Rightarrow> AddressSpace option" where
  "address_space_clone_kernel src = src"

text \<open>
  \<open>process_create_kernel\<close> dereferences \<open>kernel_proc\<close>, which \<open>process_init\<close> has set; with no kernel
  process the clone fails.
\<close>

definition process_create_kernel :: "cstr option \<Rightarrow> 'a process_scheme \<Rightarrow> proc_ptr option \<times> 'a process_scheme" where
  "process_create_kernel name s =
     (if MAX_PROCESSES \<le> process_count s then (None, s)
      else
        let p = unat (process_count s);
            s1 = update_proc p (\<lambda>_. zero_process\<lparr>pid := process_count s,
                   pname := Some (store_process_name (process_count s) name), pstate := ORE_PROC_READY\<rparr>) s
        in case address_space_clone_kernel
                  (case kernel_proc s1 of Some k \<Rightarrow> Some (address_space (proc_at k s1)) | None \<Rightarrow> None) of
             None \<Rightarrow> (None, s1)
           | Some asp \<Rightarrow>
               (Some p, (update_proc p (\<lambda>q. q\<lparr>address_space := asp\<rparr>) s1)\<lparr>process_count := process_count s + 1\<rparr>))"

definition process_create_user :: "cstr option \<Rightarrow> 'a process_scheme \<Rightarrow> (proc_ptr option \<times> 'a process_scheme) or_panic" where
  "process_create_user name s =
     (case process_create_kernel name s of
        (None, s1) \<Rightarrow> Inr (None, s1)
      | (Some p, s1) \<Rightarrow>
          kbind (vmm_create_user_pml4 s1) (\<lambda>(root, s2).
            Inr (Some p, update_proc p (\<lambda>q. q\<lparr>address_space := (address_space q)\<lparr>pml4_phys := root\<rparr>,
                                               user_alloc_next := 0x000000a000000000\<rparr>) s2)))"

definition process_current :: "'a process_scheme \<Rightarrow> proc_ptr option" where
  "process_current s = (case current_proc s of Some p \<Rightarrow> Some p | None \<Rightarrow> kernel_proc s)"

definition process_set_current :: "proc_ptr option \<Rightarrow> 'a process_scheme \<Rightarrow> 'a process_scheme" where
  "process_set_current p s =
     (case p of
        None \<Rightarrow> s
      | Some q \<Rightarrow> update_proc q (\<lambda>r. r\<lparr>pstate := ORE_PROC_RUNNING\<rparr>) (s\<lparr>current_proc := Some q\<rparr>))"

definition process_find :: "u32 \<Rightarrow> 'a process_scheme \<Rightarrow> proc_ptr option" where
  "process_find i s = find (\<lambda>p. pid (proc_at p s) = i) [0..<unat (process_count s)]"

definition process_table_count :: "'a process_scheme \<Rightarrow> u32" where
  "process_table_count s = process_count s"

definition process_table_at :: "u32 \<Rightarrow> 'a process_scheme \<Rightarrow> proc_ptr option" where
  "process_table_at index s = (if process_count s \<le> index then None else Some (unat index))"

text \<open>
  \<open>next_ready_process\<close> is in \<open>process.c\<close> and, with the same body, in \<open>syscall.c\<close>:
  \<open>scan_slot\<close> is the slot that the turn \<open>scanned\<close> of its loop looks at.
\<close>

definition scan_slot :: "u32 \<Rightarrow> u32 \<Rightarrow> nat \<Rightarrow> nat" where
  "scan_slot start cnt scanned =
     (let i = start + word_of_nat scanned - 1
      in unat (if cnt \<le> i then 1 + (i - cnt) else i))"

definition ready_other :: "u32 \<Rightarrow> 'a process_scheme \<Rightarrow> proc_ptr \<Rightarrow> bool" where
  "ready_other exclude_pid s p \<longleftrightarrow> pid (proc_at p s) \<noteq> exclude_pid \<and> pstate (proc_at p s) = ORE_PROC_READY"

definition next_ready_process :: "u32 \<Rightarrow> 'a process_scheme \<Rightarrow> proc_ptr option" where
  "next_ready_process exclude_pid s =
     (let cnt = process_count s
      in if cnt \<le> 1 then None
         else
           let start0 = exclude_pid + 1;
               start = (if start0 = 0 \<or> cnt \<le> start0 then 1 else start0)
           in find (ready_other exclude_pid s) (map (scan_slot start cnt) [1..<unat cnt]))"

definition fresh_user_frame :: "Process \<Rightarrow> InterruptFrame" where
  "fresh_user_frame next =
     zero_frame\<lparr>vector := 32, error_code := 0,
       rip := (if saved_user_rip next \<noteq> 0 then saved_user_rip next else user_entry next),
       fcs := 0x23, rflags := 0x202,
       rsp := (if saved_user_rsp next \<noteq> 0 then saved_user_rsp next else user_stack next),
       fss := 0x1b\<rparr>"

definition switch_out :: "InterruptFrame \<Rightarrow> Process \<Rightarrow> Process" where
  "switch_out frame p =
     p\<lparr>user_frame := frame, has_user_frame := 1, saved_user_rip := rip frame, saved_user_rsp := rsp frame,
       pstate := ORE_PROC_READY\<rparr>"

text \<open>The result is the C result, the frame the interrupt returns with, and the state.\<close>

definition process_schedule_user_tick ::
  "InterruptFrame \<Rightarrow> 'a process_scheme \<Rightarrow> cint \<times> InterruptFrame \<times> 'a process_scheme" where
  "process_schedule_user_tick frame s =
     (if fcs frame AND 3 \<noteq> 3 then (0, frame, s)
      else case process_current s of
        None \<Rightarrow> (0, frame, s)
      | Some cur \<Rightarrow>
          if pstate (proc_at cur s) \<noteq> ORE_PROC_RUNNING then (0, frame, s)
          else if pid (proc_at cur s) = 1 then (0, frame, s)
          else case next_ready_process (pid (proc_at cur s)) s of
            None \<Rightarrow> (0, frame, s)
          | Some nxt \<Rightarrow>
              let s1 = update_proc cur (switch_out frame) s;
                  next = proc_at nxt s1;
                  frame1 = (if has_user_frame next \<noteq> 0 then user_frame next else fresh_user_frame next);
                  s2 = (if has_user_frame next \<noteq> 0 then s1
                        else update_proc nxt (\<lambda>q. q\<lparr>user_frame := frame1, has_user_frame := 1\<rparr>) s1);
                  s3 = process_set_current (Some nxt) s2
              in (1, frame1, write_cr3 (proc_pml4 nxt s3) s3))"

end
