(* ===== verification/Process_Spec.thy ===== *)
theory Process_Spec
  imports Process
begin

text \<open>
  The process table of \<open>Process\<close>: the invariant of the table, the round-robin choice of the next
  process and the switch that the timer interrupt makes.

  \<open>proc_ok\<close> is the table invariant: the entry in slot \<open>i\<close> has the process number \<open>i\<close>, and the current
  process is one of the table. \<open>scan_order e n\<close> is the cyclic order in which the slots \<open>1, \<dots>, n - 1\<close> follow
  the slot \<open>e\<close>; \<open>cyc_wait n e r\<close> is the place of the slot \<open>r\<close> in that order, counted from 1.
\<close>

subsection \<open>Definitions\<close>

definition proc_ok :: "'a process_scheme \<Rightarrow> bool" where
  "proc_ok s \<longleftrightarrow> length (processes s) = 32 \<and> 1 \<le> unat (process_count s) \<and> unat (process_count s) \<le> 32
     \<and> kernel_proc s = Some 0
     \<and> (\<forall>c. current_proc s = Some c \<longrightarrow> c < unat (process_count s))
     \<and> (\<forall>i < unat (process_count s). unat (pid (proc_at i s)) = i
          \<and> length (handles (proc_at i s)) = ORE_MAX_HANDLES
          \<and> length (user_allocs (proc_at i s)) = ORE_MAX_USER_ALLOCS)"

definition scan_order :: "nat \<Rightarrow> nat \<Rightarrow> nat list" where
  "scan_order e n = (if Suc e < n then [Suc e..<n] @ [1..<Suc e] else [1..<n])"

definition cyc_wait :: "nat \<Rightarrow> nat \<Rightarrow> nat \<Rightarrow> nat" where
  "cyc_wait n e r = (if e < r then r - e else r + (n - 1) - e)"

definition keeps_shape :: "(Process \<Rightarrow> Process) \<Rightarrow> bool" where
  "keeps_shape f \<longleftrightarrow> (\<forall>q. pid (f q) = pid q \<and> length (handles (f q)) = length (handles q)
     \<and> length (user_allocs (f q)) = length (user_allocs q))"

text \<open>A table with four processes.\<close>

definition demo_entry :: "u32 \<Rightarrow> u32 \<Rightarrow> Process" where
  "demo_entry i st = zero_process\<lparr>pid := i, pname := Some (lit ''demo''), pstate := st,
     user_entry := 0x8000000000, user_stack := 0x8ffffffff0,
     address_space := \<lparr>pml4_phys = 0x1000 * ucast i, user_base = USER_BASE, user_limit = USER_LIMIT\<rparr>\<rparr>"

definition demo_process :: process where
  "demo_process = \<lparr>mem = (\<lambda>_. 0), cr3 = 0x2000, bitmap = (\<lambda>_. 0), bitmap_base = 0x180000,
     bitmap_bytes = 4096, max_phys = 0x110000, total_page_count = 272, free_page_count = 272,
     reserved_page_count = 0, used_page_count = 0, heap_head = 0, kernel_pml4 = 0, kernel_pml4_phys = 0,
     device = (\<lambda>_. 0), io_log = [],
     fb = \<lparr>fb_base = 0, fb_width = 0, fb_height = 0, pixels_per_scanline = 0, pixel_format = 0\<rparr>,
     cursor_x = 0, cursor_y = 0, cols = 0, rows = 0, text_origin_y = 0, text_origin_x = 0, esc_state = 0,
     esc_param = 0, esc_params = [0, 0, 0, 0], esc_param_count = 0, current_fg = 0, current_bg = 0,
     inverse_video = False, ps2_shift = False, ps2_e0 = False, input_keys = 0, input_ascii = 0,
     input_frame = 0, gfx_mode_active = False, net_ready = False, net_mac = [0, 0, 0, 0, 0, 0],
     cpu_apic_ids = [], lapic_base_value = 0xfee00000, g_cpus = [], g_cpu_count = 0,
     g_timer_ticks = replicate 64 0, lapic_id_reg = 0, msrs = (\<lambda>_. 0),
     terrain_job = \<lparr>tjob_active = False, tjob_generation = 0, tjob_worker_count = 0, tjob_started_mask = 0,
       tjob_done_mask = 0, tjob_job = terrain_job_of [], tjob_buffer = 0, tjob_objects = 0\<rparr>,
     archive_base = 0, archive_size = 0, files = [], root_block = None, fwcfg_disk_selector = 0,
     mounted = False, disk_mounted = False, disk_entries = replicate 16384 0, disk_entry_count = 0,
     stack_stat = \<lparr>vs_name = replicate 128 0, vs_type = 0, vs_reserved = 0, vs_size = 0\<rparr>,
     processes = [demo_entry 0 ORE_PROC_RUNNING, demo_entry 1 ORE_PROC_BLOCKED, demo_entry 2 ORE_PROC_RUNNING,
       demo_entry 3 ORE_PROC_READY] @ replicate 28 zero_process,
     process_count = 4, kernel_proc = Some 0, current_proc = Some 2\<rparr>"

subsection \<open>The scan\<close>

lemma scan_slot_nat:
  assumes "1 \<le> unat start" "unat start < unat cnt" "unat cnt \<le> 32" "1 \<le> k" "k < unat cnt"
  shows "scan_slot start cnt k =
    (if unat cnt \<le> unat start + k - 1 then unat start + k - unat cnt else unat start + k - 1)"
proof -
  have k: "unat (word_of_nat k :: u32) = k"
    using assms by (simp add: unat_of_nat)
  have a: "unat (start + word_of_nat k) = unat start + k"
    using assms k by (subst unat_add_exact) simp_all
  have b: "unat (start + word_of_nat k - 1) = unat start + k - 1"
    using a assms by (subst unat_sub_exact) (simp_all add: word_le_nat_alt)
  show ?thesis
  proof (cases "unat cnt \<le> unat start + k - 1")
    case True
    then have "cnt \<le> start + word_of_nat k - 1" using b by (simp add: word_le_nat_alt)
    moreover from this have "unat (start + word_of_nat k - 1 - cnt) = unat start + k - 1 - unat cnt"
      using b by (subst unat_sub_exact) simp_all
    then have "unat (1 + (start + word_of_nat k - 1 - cnt)) = 1 + (unat start + k - 1 - unat cnt)"
      using assms by (subst unat_add_exact) simp_all
    ultimately show ?thesis using True assms by (simp add: scan_slot_def Let_def)
  next
    case False
    then have "\<not> cnt \<le> start + word_of_nat k - 1" using b by (simp add: word_le_nat_alt)
    with b False show ?thesis by (simp add: scan_slot_def Let_def)
  qed
qed

lemma scan_slots:
  assumes "1 \<le> unat start" "unat start < unat cnt" "unat cnt \<le> 32"
  shows "map (scan_slot start cnt) [1..<unat cnt] = [unat start..<unat cnt] @ [1..<unat start]"
proof (rule nth_equalityI)
  show "length (map (scan_slot start cnt) [1..<unat cnt]) = length ([unat start..<unat cnt] @ [1..<unat start])"
    using assms by simp
next
  fix i assume "i < length (map (scan_slot start cnt) [1..<unat cnt])"
  then have i: "i < unat cnt - 1" by simp
  have "map (scan_slot start cnt) [1..<unat cnt] ! i = scan_slot start cnt (1 + i)"
    using i by simp
  also have "\<dots> = (if unat cnt \<le> unat start + i then unat start + Suc i - unat cnt else unat start + i)"
    using i assms by (subst scan_slot_nat) auto
  also have "\<dots> = ([unat start..<unat cnt] @ [1..<unat start]) ! i"
    using i assms by (auto simp: nth_append)
  finally show "map (scan_slot start cnt) [1..<unat cnt] ! i = ([unat start..<unat cnt] @ [1..<unat start]) ! i" .
qed

lemma next_ready_scan:
  assumes "1 \<le> unat (process_count s)" "unat (process_count s) \<le> 32" "unat e < unat (process_count s)"
  shows "next_ready_process e s = find (ready_other e s) (scan_order (unat e) (unat (process_count s)))"
proof (cases "unat (process_count s) = 1")
  case True
  then have "process_count s \<le> 1" by (simp add: word_le_nat_alt)
  with True assms show ?thesis by (simp add: next_ready_process_def scan_order_def Let_def)
next
  case False
  let ?n = "unat (process_count s)"
  have n1: "\<not> process_count s \<le> 1" using False assms(1) by (simp add: word_le_nat_alt)
  have e1: "unat (e + 1) = unat e + 1" using assms by (subst unat_add_exact) simp_all
  then have nz: "e + 1 \<noteq> 0" by (metis add_is_0 one_neq_zero unat_0)
  define start where "start = (if process_count s \<le> e + 1 then 1 else e + 1)"
  have st: "1 \<le> unat start" "unat start < ?n"
    using e1 False assms(1) by (auto simp: start_def word_le_nat_alt)
  have "next_ready_process e s = find (ready_other e s) (map (scan_slot start (process_count s)) [1..<?n])"
    using n1 nz by (simp add: next_ready_process_def Let_def start_def)
  also have "\<dots> = find (ready_other e s) ([unat start..<?n] @ [1..<unat start])"
    by (simp only: scan_slots [OF st assms(2)])
  also have "[unat start..<?n] @ [1..<unat start] = scan_order (unat e) ?n"
    using e1 st by (auto simp: start_def scan_order_def word_le_nat_alt not_le)
  finally show ?thesis .
qed

lemma set_scan_order: "e < n \<Longrightarrow> set (scan_order e n) = {1..<n}"
  by (auto simp: scan_order_def)

lemma distinct_scan_order: "distinct (scan_order e n)"
  by (auto simp: scan_order_def)


lemma find_before:
  assumes "find P xs = Some p" "r \<in> set xs" "P r" "p \<noteq> r"
  shows "\<exists>i j. i < j \<and> j < length xs \<and> xs ! i = p \<and> xs ! j = r"
proof -
  obtain i where i: "i < length xs" "xs ! i = p" "\<And>k. k < i \<Longrightarrow> \<not> P (xs ! k)"
    using assms(1) by (auto simp: find_Some_iff)
  obtain j where j: "j < length xs" "xs ! j = r" using assms(2) by (auto simp: in_set_conv_nth)
  have "i < j" using i j assms(3,4) by (metis linorder_neqE_nat)
  with i j show ?thesis by blast
qed

lemma scan_order_closer:
  assumes "e < n" "i < j" "j < length (scan_order e n)"
  shows "cyc_wait n (scan_order e n ! i) (scan_order e n ! j) < cyc_wait n e (scan_order e n ! j)"
proof (cases "Suc e < n")
  case True
  then have o: "scan_order e n = [Suc e..<n] @ [1..<Suc e]" by (simp add: scan_order_def)
  have len: "j < n - 1" using assms(3) True by (simp add: o del: upt_Suc)
  have nth: "scan_order e n ! k = (if k < n - Suc e then Suc e + k else 1 + (k - (n - Suc e)))" if "k < n - 1" for k
    using that True by (auto simp: o nth_append simp del: upt_Suc)
  show ?thesis
    unfolding nth [OF len] nth [OF less_trans [OF assms(2) len]] cyc_wait_def
    using assms(1,2) len True by (simp split: if_split) linarith
next
  case False
  then have o: "scan_order e n = [1..<n]" by (simp add: scan_order_def)
  with assms(2,3) False assms(1) show ?thesis by (auto simp: cyc_wait_def)
qed

lemma next_ready_closer:
  assumes "1 \<le> unat (process_count s)" "unat (process_count s) \<le> 32" "unat e < unat (process_count s)"
    and "next_ready_process e s = Some p" "ready_other e s r" "r \<in> {1..<unat (process_count s)}" "p \<noteq> r"
  shows "cyc_wait (unat (process_count s)) p r < cyc_wait (unat (process_count s)) (unat e) r"
    and "1 \<le> p" "p < unat (process_count s)"
proof -
  let ?n = "unat (process_count s)"
  let ?xs = "scan_order (unat e) ?n"
  have f: "find (ready_other e s) ?xs = Some p"
    using assms(4) next_ready_scan [OF assms(1-3)] by simp
  obtain i j where ij: "i < j" "j < length ?xs" "?xs ! i = p" "?xs ! j = r"
    using find_before [OF f _ assms(5,7)] assms(3,6) by (auto simp: set_scan_order)
  have "p \<in> set ?xs" using ij by (metis less_trans nth_mem)
  then show p: "1 \<le> p" "p < ?n" using assms(3) by (auto simp: set_scan_order)
  show "cyc_wait ?n p r < cyc_wait ?n (unat e) r"
    using scan_order_closer [OF assms(3) ij(1,2)] ij(3,4) by simp
qed

lemma cyc_wait_bounds: "e < n \<Longrightarrow> 1 \<le> r \<Longrightarrow> r < n \<Longrightarrow> 1 \<le> cyc_wait n e r \<and> cyc_wait n e r \<le> n - 1"
  by (auto simp: cyc_wait_def)

lemma proc_at_update [simp]:
  "proc_at p (update_proc q f s) = (if p = q \<and> q < length (processes s) then f (proc_at q s) else proc_at p s)"
  by (cases "q < length (processes s)") (auto simp: proc_at_def update_proc_def nth_list_update list_update_beyond)

lemma update_proc_fields [simp]:
  "length (processes (update_proc q f s)) = length (processes s)"
  "process_count (update_proc q f s) = process_count s"
  "kernel_proc (update_proc q f s) = kernel_proc s"
  "current_proc (update_proc q f s) = current_proc s"
  "mem (update_proc q f s) = mem s" "cr3 (update_proc q f s) = cr3 s"
  by (simp_all add: update_proc_def)

lemma proc_at_more [simp]:
  "proc_at p (s\<lparr>current_proc := c\<rparr>) = proc_at p s" "proc_at p (s\<lparr>cr3 := x\<rparr>) = proc_at p s"
  "proc_at p (s\<lparr>mem := m\<rparr>) = proc_at p s" "proc_at p (s\<lparr>process_count := n\<rparr>) = proc_at p s"
  by (simp_all add: proc_at_def)

lemma process_set_current_fields [simp]:
  "length (processes (process_set_current c s)) = length (processes s)"
  "process_count (process_set_current c s) = process_count s"
  "kernel_proc (process_set_current c s) = kernel_proc s"
  "mem (process_set_current c s) = mem s" "cr3 (process_set_current c s) = cr3 s"
  by (simp_all add: process_set_current_def split: option.split)

lemma proc_okD:
  assumes "proc_ok s"
  shows "length (processes s) = 32" "1 \<le> unat (process_count s)" "unat (process_count s) \<le> 32"
    "kernel_proc s = Some 0" "\<And>c. current_proc s = Some c \<Longrightarrow> c < unat (process_count s)"
    "\<And>i. i < unat (process_count s) \<Longrightarrow> unat (pid (proc_at i s)) = i"
  using assms by (auto simp: proc_ok_def)

lemma process_current_bound: "proc_ok s \<Longrightarrow> process_current s = Some c \<Longrightarrow> c < unat (process_count s)"
  using proc_okD(2,4,5) [of s] by (auto simp: process_current_def split: option.splits)

lemma next_ready_Some:
  assumes "proc_ok s" "unat e < unat (process_count s)" "next_ready_process e s = Some p"
  shows "1 \<le> p" "p < unat (process_count s)" "p \<noteq> unat e" "pstate (proc_at p s) = ORE_PROC_READY"
    "ready_other e s p"
proof -
  note ok = proc_okD [OF assms(1)]
  have f: "find (ready_other e s) (scan_order (unat e) (unat (process_count s))) = Some p"
    using assms(3) next_ready_scan [OF ok(2,3) assms(2)] by simp
  then show r: "ready_other e s p" by (auto simp: find_Some_iff)
  have "p \<in> set (scan_order (unat e) (unat (process_count s)))" using f by (auto simp: find_Some_iff)
  then show b: "1 \<le> p" "p < unat (process_count s)" using assms(2) by (auto simp: set_scan_order)
  show "pstate (proc_at p s) = ORE_PROC_READY" using r by (simp add: ready_other_def)
  show "p \<noteq> unat e" using r ok(6) [OF b(2)] by (auto simp: ready_other_def unat_eq_iff)
qed

text \<open>A timer tick that switches: who runs next and what becomes of the two processes.\<close>

lemma tick_cases:
  assumes "process_schedule_user_tick f s = (r, f1, s1)"
  obtains (stay) "r = 0" "f1 = f" "s1 = s"
  | (switch) a b where "r = 1" "process_current s = Some a" "fcs f AND 3 = 3"
      "pstate (proc_at a s) = ORE_PROC_RUNNING" "pid (proc_at a s) \<noteq> 1"
      "next_ready_process (pid (proc_at a s)) s = Some b"
      "f1 = (let nb = proc_at b (update_proc a (switch_out f) s)
             in if has_user_frame nb \<noteq> 0 then user_frame nb else fresh_user_frame nb)"
      "s1 = (let t = update_proc a (switch_out f) s; nb = proc_at b t;
                 t2 = (if has_user_frame nb \<noteq> 0 then t
                       else update_proc b (\<lambda>q. q\<lparr>user_frame := fresh_user_frame nb, has_user_frame := 1\<rparr>) t);
                 t3 = process_set_current (Some b) t2
             in write_cr3 (proc_pml4 b t3) t3)"
proof (cases "fcs f AND 3 = 3")
  case False
  with assms show ?thesis by (intro stay) (simp_all add: process_schedule_user_tick_def)
next
  case user: True
  show ?thesis
  proof (cases "process_current s")
    case None
    with user assms show ?thesis by (intro stay) (simp_all add: process_schedule_user_tick_def)
  next
    case (Some a)
    show ?thesis
    proof (cases "pstate (proc_at a s) = ORE_PROC_RUNNING \<and> pid (proc_at a s) \<noteq> 1")
      case False
      with user Some assms show ?thesis
        by (intro stay) (auto simp: process_schedule_user_tick_def split: if_splits)
    next
      case run: True
      show ?thesis
      proof (cases "next_ready_process (pid (proc_at a s)) s")
        case None
        with user Some run assms show ?thesis by (intro stay) (simp_all add: process_schedule_user_tick_def)
      next
        case nxt: (Some b)
        show ?thesis
          by (cases "has_user_frame (proc_at b (update_proc a (switch_out f) s)) = 0"; rule switch [of a b])
            (use user Some run nxt assms in \<open>auto simp: process_schedule_user_tick_def Let_def simp del: proc_at_update\<close>)
      qed
    qed
  qed
qed

lemma tick_saves:
  assumes "proc_ok s" "process_current s = Some a" "process_schedule_user_tick f s = (1, f1, s1)"
  shows "proc_at a s1 = switch_out f (proc_at a s)"
    and "\<exists>b. current_proc s1 = Some b \<and> b \<noteq> a \<and> b < unat (process_count s) \<and> cr3 s1 = proc_pml4 b s
          \<and> f1 = (if has_user_frame (proc_at b s) \<noteq> 0 then user_frame (proc_at b s) else fresh_user_frame (proc_at b s))"
proof -
  note ok = proc_okD [OF assms(1)]
  have "(\<exists>b. current_proc s1 = Some b \<and> b \<noteq> a \<and> b < unat (process_count s) \<and> cr3 s1 = proc_pml4 b s
          \<and> f1 = (if has_user_frame (proc_at b s) \<noteq> 0 then user_frame (proc_at b s) else fresh_user_frame (proc_at b s)))
        \<and> proc_at a s1 = switch_out f (proc_at a s)"
    using assms(3)
  proof (cases rule: tick_cases)
    case (switch a' b)
    then have a': "a' = a" using assms(2) by simp
    have alt: "a < unat (process_count s)" by (rule process_current_bound [OF assms(1,2)])
    then have al: "a < length (processes s)" using ok(1,3) by linarith
    have nx: "b \<noteq> a" "b < unat (process_count s)"
      using next_ready_Some(2,3) [OF assms(1) _ switch(6)] ok(6) [OF alt] alt a' by simp_all
    then have bl: "b < length (processes s)" using ok(1,3) by linarith
    show ?thesis
      using nx bl al unfolding switch(7,8) a'
      by (intro conjI exI [of _ b]) (simp_all add: Let_def process_set_current_def write_cr3_def proc_pml4_def)
  qed simp_all
  then show "proc_at a s1 = switch_out f (proc_at a s)"
    "\<exists>b. current_proc s1 = Some b \<and> b \<noteq> a \<and> b < unat (process_count s) \<and> cr3 s1 = proc_pml4 b s
          \<and> f1 = (if has_user_frame (proc_at b s) \<noteq> 0 then user_frame (proc_at b s) else fresh_user_frame (proc_at b s))"
    by blast+
qed

subsection \<open>Preservation\<close>

lemma proc_ok_update: "proc_ok s \<Longrightarrow> keeps_shape f \<Longrightarrow> proc_ok (update_proc p f s)"
  by (auto simp: proc_ok_def keeps_shape_def)

lemma proc_ok_fields [simp]:
  "proc_ok (s\<lparr>cr3 := x\<rparr>) = proc_ok s" "proc_ok (s\<lparr>mem := m\<rparr>) = proc_ok s"
  by (simp_all add: proc_ok_def)

lemma proc_ok_set_current:
  "proc_ok s \<Longrightarrow> p < unat (process_count s) \<Longrightarrow> proc_ok (process_set_current (Some p) s)"
  unfolding process_set_current_def option.case
  by (rule proc_ok_update) (auto simp: proc_ok_def keeps_shape_def)

lemma tick_proc_ok:
  assumes "proc_ok s" "process_schedule_user_tick f s = (r, f1, s1)"
  shows "proc_ok s1"
  using assms(2)
proof (cases rule: tick_cases)
  case stay
  with assms(1) show ?thesis by simp
next
  case (switch a b)
  let ?t = "update_proc a (switch_out f) s"
  have t: "proc_ok ?t" using assms(1) by (rule proc_ok_update) (simp add: keeps_shape_def switch_out_def)
  have b: "b < unat (process_count s)"
    by (rule next_ready_Some(2) [OF assms(1) _ switch(6)])
      (use process_current_bound [OF assms(1) switch(2)] proc_okD(6) [OF assms(1)] in simp)
  have "proc_ok (update_proc b (\<lambda>q. q\<lparr>user_frame := x, has_user_frame := 1\<rparr>) ?t)" for x
    using t by (rule proc_ok_update) (simp add: keeps_shape_def)
  with t b show ?thesis
    unfolding switch(8) Let_def by (auto simp: write_cr3_def intro!: proc_ok_set_current)
qed

subsection \<open>The example table\<close>

lemma all_less_4: "(\<forall>i < 4. P i) \<longleftrightarrow> P 0 \<and> P 1 \<and> P 2 \<and> P (3::nat)"
  by (auto simp: numeral_eq_Suc less_Suc_eq)

lemmas demo_simps = demo_process_def proc_at_def demo_entry_def zero_process_def

lemma demo_process_ok: "proc_ok demo_process"
  by (simp add: proc_ok_def demo_simps all_less_4)

lemma demo_procs [simp]:
  "process_current demo_process = Some 2" "process_count demo_process = 4"
  "proc_at (Suc 0) demo_process = demo_entry 1 ORE_PROC_BLOCKED"
  "proc_at 2 demo_process = demo_entry 2 ORE_PROC_RUNNING"
  "proc_at 3 demo_process = demo_entry 3 ORE_PROC_READY"
  "length (processes demo_process) = 32"
  by (simp_all add: demo_process_def proc_at_def process_current_def)

lemma demo_entry_fields [simp]:
  "pid (demo_entry i st) = i" "pstate (demo_entry i st) = st" "has_user_frame (demo_entry i st) = 0"
  "pml4_phys (address_space (demo_entry i st)) = 0x1000 * ucast i"
  by (simp_all add: demo_entry_def zero_process_def)

lemma scan_order_3_4: "scan_order 3 4 = [1, 2, 3]"
  by (simp add: scan_order_def upt_conv_Cons)

lemma demo_next: "next_ready_process 2 demo_process = Some 3"
  using next_ready_scan [of demo_process 2] by (simp add: scan_order_def ready_other_def)

subsection \<open>Properties\<close>

text \<open>
  C15. The process chosen to run next is the first ready process after the current one in the
  cyclic order of the table, the kernel process left out; none is chosen exactly when no other
  process is ready. The index arithmetic of the loop never leaves the table.
\<close>

theorem next_ready_round_robin:
  assumes "proc_ok s" "unat e < unat (process_count s)"
  shows "next_ready_process e s = find (ready_other e s) (scan_order (unat e) (unat (process_count s)))
    \<and> (next_ready_process e s = None \<longleftrightarrow> (\<forall>p \<in> {1..<unat (process_count s)}. \<not> ready_other e s p))
    \<and> (\<forall>p. next_ready_process e s = Some p \<longrightarrow> p \<in> {1..<unat (process_count s)} \<and> ready_other e s p)"
proof -
  note scan = next_ready_scan [OF proc_okD(2,3) [OF assms(1)] assms(2)]
  have "next_ready_process e s = None \<longleftrightarrow> (\<forall>p \<in> {1..<unat (process_count s)}. \<not> ready_other e s p)"
    using set_scan_order [OF assms(2)] by (auto simp: scan find_None_iff)
  with scan next_ready_Some [OF assms] show ?thesis by auto
qed

theorem next_ready_round_robin_witness:
  "next_ready_process 2 demo_process = Some 3"
proof -
  have "unat (2::u32) < unat (process_count demo_process)" by simp
  from next_ready_round_robin [OF demo_process_ok this]
  show ?thesis by (simp add: scan_order_def ready_other_def)
qed

text \<open>
  C13. A timer switch loses nothing: when a preempted process, left alone in the meantime, is chosen
  by a later timer tick, the interrupt returns with exactly the register frame the process was
  interrupted with, in its own address space.
\<close>

theorem timer_switch_roundtrip:
  assumes "proc_ok s" "process_current s = Some a" "process_schedule_user_tick f s = (1, f1, s1)"
    and "proc_ok t" "proc_at a t = proc_at a s1"
    and "process_schedule_user_tick g t = (1, g1, t1)" "current_proc t1 = Some a"
  shows "g1 = f \<and> cr3 t1 = proc_pml4 a s"
proof -
  note ok = proc_okD [OF assms(1)]
  have at: "proc_at a t = switch_out f (proc_at a s)" using tick_saves(1) [OF assms(1-3)] assms(5) by simp
  obtain c where c: "process_current t = Some c"
    using assms(6) by (cases rule: tick_cases) auto
  obtain b where b: "current_proc t1 = Some b" "cr3 t1 = proc_pml4 b t"
    "g1 = (if has_user_frame (proc_at b t) \<noteq> 0 then user_frame (proc_at b t) else fresh_user_frame (proc_at b t))"
    using tick_saves(2) [OF assms(4) c assms(6)] by blast
  then have "b = a" using assms(7) by simp
  with b at show ?thesis by (simp add: switch_out_def proc_pml4_def)
qed

theorem timer_switch_roundtrip_witness:
  "\<exists>f1 s1 t1. process_schedule_user_tick (zero_frame\<lparr>fcs := 0x23, rax := 42\<rparr>) demo_process = (1, f1, s1)
     \<and> process_schedule_user_tick f1 s1 = (1, zero_frame\<lparr>fcs := 0x23, rax := 42\<rparr>, t1) \<and> cr3 t1 = 0x2000"
proof -
  let ?f = "zero_frame\<lparr>fcs := 0x23, rax := 42\<rparr>"
  obtain r f1 s1 where a: "process_schedule_user_tick ?f demo_process = (r, f1, s1)" by (metis prod_cases3)
  obtain q g1 t1 where b: "process_schedule_user_tick f1 s1 = (q, g1, t1)" by (metis prod_cases3)
  have r: "r = 1" and f1: "fcs f1 = 0x23" and c: "current_proc s1 = Some 3"
    and n1: "process_count s1 = 4" and p3: "pstate (proc_at 3 s1) = ORE_PROC_RUNNING" "pid (proc_at 3 s1) = 3"
    and p2: "pstate (proc_at 2 s1) = ORE_PROC_READY" "pid (proc_at 2 s1) = 2"
    and p1: "pstate (proc_at 1 s1) = ORE_PROC_BLOCKED"
    using a demo_next
    by (auto simp: process_schedule_user_tick_def Let_def process_set_current_def write_cr3_def
      fresh_user_frame_def switch_out_def)
  from c have c1: "process_current s1 = Some 3" by (simp add: process_current_def)
  have "next_ready_process 3 s1 = Some 2"
    using next_ready_scan [of s1 3] n1 p1 p2 scan_order_3_4 by (simp add: ready_other_def)
  then have "q = 1" "current_proc t1 = Some 2"
    using b c1 p3 f1
    by (auto simp: process_schedule_user_tick_def Let_def process_set_current_def write_cr3_def)
  with a b r timer_switch_roundtrip [OF demo_process_ok _ _ tick_proc_ok [OF demo_process_ok a] refl, of 2 ?f f1 f1 g1 t1]
  show ?thesis by (simp add: proc_pml4_def)
qed

end
