(* ===== verification/Okmod.thy ===== *)
theory Okmod
  imports Process
begin

text \<open>
  Kernel modules, \<open>kernel/okmod.c\<close>. The code of a module is not part of the kernel: the call of its
  initialisation function at an address is the argument \<open>init\<close>, the call of its command the argument
  \<open>command\<close>; both may do anything to the state. \<open>module_table\<close> and \<open>module_commands\<close> are the static
  tables of 16 entries (a command is its address, 0 for a null pointer).
\<close>

subsection \<open>The model\<close>

record okmod = process +
  loaded_modules :: u32
  module_table :: "OreModuleInfo list"
  module_commands :: "u64 list"

type_synonym 's module_init = "u64 \<Rightarrow> 's \<Rightarrow> (u32 \<times> 's) or_panic"
type_synonym 's module_command = "u64 \<Rightarrow> u64 \<Rightarrow> u64 \<Rightarrow> 's \<Rightarrow> (u32 \<times> 's) or_panic"

definition OKMOD_MAX_SIZE :: u64 where
  "OKMOD_MAX_SIZE = 128 * 1024"

definition OKMOD_PAGE_SIZE :: u64 where
  "OKMOD_PAGE_SIZE = 4096"

definition OKMOD_MAX_MODULES :: u32 where
  "OKMOD_MAX_MODULES = 16"

definition sizeof_OreKModHeader :: u64 where
  "sizeof_OreKModHeader = 120"

definition zero_module :: OreModuleInfo where
  "zero_module =
     \<lparr>mi_name = replicate 32 0, mi_path = replicate 128 0, mi_state = 0, mi_abi_version = 0, mi_init_rc = 0,
      mi_reserved = 0, mi_text_base = 0, mi_text_size = 0, mi_data_size = 0, mi_has_command = 0,
      mi_reserved2 = 0\<rparr>"

definition has_suffix_okmod :: "cstr \<Rightarrow> cstr \<Rightarrow> bool" where
  "has_suffix_okmod s suffix =
     (let sl = length s; tl = length suffix
      in if sl < tl then False else str_eq (drop (sl - tl) s) suffix)"

definition copy_str_okmod :: "char_array \<Rightarrow> cstr \<Rightarrow> nat \<Rightarrow> char_array" where
  "copy_str_okmod dst src cap = (if cap = 0 then dst else copy_string dst src cap)"

fun path_base :: "cstr \<Rightarrow> cstr \<Rightarrow> cstr" where
  "path_base base [] = base"
| "path_base base (c # cs) = path_base (if c = chr CHR ''/'' then cs else base) cs"

definition module_name_from_path :: "cstr \<Rightarrow> char_array \<Rightarrow> char_array" where
  "module_name_from_path path out =
     (let base = path_base path path
      in copy_string out (takeWhile (\<lambda>c. c \<noteq> chr CHR ''.'') base) 32)"

definition update_module :: "(OreModuleInfo \<Rightarrow> OreModuleInfo) \<Rightarrow> 'a okmod_scheme \<Rightarrow> 'a okmod_scheme" where
  "update_module f s =
     (let i = unat (loaded_modules s) in s\<lparr>module_table := (module_table s)[i := f (module_table s ! i)]\<rparr>)"

definition module_header_ok :: "OreKModHeader \<Rightarrow> bool" where
  "module_header_ok hdr \<longleftrightarrow>
     \<not> (kh_magic hdr \<noteq> ORE_KMOD_MAGIC \<or> kh_version hdr \<noteq> ORE_KMOD_VERSION
        \<or> kh_kernel_abi_version hdr \<noteq> ORE_KERNEL_ABI_VERSION
        \<or> ucast (kh_header_size hdr) < sizeof_OreKModHeader
        \<or> kh_reloc_count hdr \<noteq> 0 \<or> kh_import_count hdr \<noteq> 0 \<or> kh_export_count hdr \<noteq> 0)"

definition module_total :: "OreKModHeader \<Rightarrow> u64" where
  "module_total hdr = kh_text_size hdr + kh_data_size hdr + kh_bss_size hdr"

definition module_data_off :: "OreKModHeader \<Rightarrow> u64" where
  "module_data_off hdr = ucast (kh_header_size hdr) + kh_text_size hdr"

definition module_layout_ok :: "OreKModHeader \<Rightarrow> u64 \<Rightarrow> bool" where
  "module_layout_ok hdr file_sz \<longleftrightarrow>
     \<not> (kh_text_size hdr = 0 \<or> kh_text_size hdr \<le> kh_entry hdr
        \<or> file_sz < module_data_off hdr + kh_data_size hdr \<or> OKMOD_MAX_SIZE < module_total hdr)"

definition free_and_fail :: "u64 \<Rightarrow> 'a okmod_scheme \<Rightarrow> (cint \<times> 'a okmod_scheme) or_panic" where
  "free_and_fail file s = kbind (kfree file s) (\<lambda>s1. Inr (-1, s1))"

definition module_slot_init :: "cstr \<Rightarrow> OreKModHeader \<Rightarrow> OreModuleInfo" where
  "module_slot_init path hdr =
     (let slot = zero_module\<lparr>mi_path := copy_str_okmod (mi_path zero_module) path 128\<rparr>;
          name = (if sizeof_OreKModHeader \<le> ucast (kh_header_size hdr) \<and> kh_name hdr ! 0 \<noteq> 0
                  then copy_str_okmod (mi_name slot) (cstr_of (kh_name hdr)) 32
                  else module_name_from_path path (mi_name slot))
      in slot\<lparr>mi_name := name, mi_state := 2, mi_abi_version := kh_kernel_abi_version hdr\<rparr>)"

text \<open>
  \<open>okmod_place\<close>: the checked module is copied to fresh pages and its pages are protected. The result
  is \<open>None\<close> when the function has already failed (its code is \<open>-1\<close>), and otherwise the address
  \<open>mem\<close> and the number of pages.
\<close>

definition okmod_place ::
  "u64 \<Rightarrow> OreKModHeader \<Rightarrow> 'a okmod_scheme \<Rightarrow> ((u64 \<times> u32) option \<times> 'a okmod_scheme) or_panic" where
  "okmod_place file hdr s =
     (let pages = ucast ((module_total hdr + OKMOD_PAGE_SIZE - 1) div OKMOD_PAGE_SIZE) :: u32;
          (base, s1) = pmm_alloc_pages pages s
      in if base = 0 then kbind (kfree file s1) (\<lambda>s2. Inr (None, s2))
         else
           let text_off = ucast (kh_header_size hdr);
               bytes = ucast pages * OKMOD_PAGE_SIZE;
               m1 = mem_zero (mem s1) base bytes;
               m2 = mem_copy base (file + text_off) (kh_text_size hdr) m1;
               m3 = mem_copy (base + kh_text_size hdr) (file + module_data_off hdr) (kh_data_size hdr) m2;
               m4 = mem_zero m3 (base + kh_text_size hdr + kh_data_size hdr) (kh_bss_size hdr)
           in kbind (vmm_protect base (kh_text_size hdr) VMM_PRESENT (s1\<lparr>mem := m4\<rparr>)) (\<lambda>(rc, s2).
              if rc < 0 then
                let s3 = pmm_free_pages base pages (update_module (\<lambda>i. i\<lparr>mi_state := 4\<rparr>) s2)
                in kbind (kfree file s3) (\<lambda>s4. Inr (None, s4))
              else if kh_text_size hdr < bytes then
                kbind (vmm_protect (base + kh_text_size hdr) (bytes - kh_text_size hdr)
                         (VMM_PRESENT OR VMM_WRITE OR VMM_NX) s2)
                  (\<lambda>(_, s3). Inr (Some (base, pages), s3))
              else Inr (Some (base, pages), s2)))"

text \<open>
  \<open>okmod_start\<close>: the initialisation function runs and the slot is completed. The header is read
  again after the call, as the code does.
\<close>

definition okmod_start ::
  "'a okmod_scheme module_init \<Rightarrow> u64 \<Rightarrow> u64 \<Rightarrow> u32 \<Rightarrow> 'a okmod_scheme \<Rightarrow> (cint \<times> 'a okmod_scheme) or_panic" where
  "okmod_start init file base pages s =
     kbind (init (base + kh_entry (kmod_header_at (mem s) file)) s) (\<lambda>(rc, s1).
       let hdr = kmod_header_at (mem s1) file;
           s2 = update_module (\<lambda>i. i\<lparr>mi_init_rc := rc, mi_text_base := base, mi_text_size := kh_text_size hdr,
                                     mi_data_size := kh_data_size hdr\<rparr>) s1;
           s3 = (if kh_command_entry hdr \<noteq> 0xffffffffffffffff \<and> kh_command_entry hdr < kh_text_size hdr
                 then (update_module (\<lambda>i. i\<lparr>mi_has_command := 1\<rparr>) s2)
                        \<lparr>module_commands := (module_commands s2)
                           [unat (loaded_modules s2) := base + kh_command_entry hdr]\<rparr>
                 else s2)
       in if sint rc < 0 then
            free_and_fail file (pmm_free_pages base pages (update_module (\<lambda>i. i\<lparr>mi_state := 4\<rparr>) s3))
          else
            let s4 = (update_module (\<lambda>i. i\<lparr>mi_state := 3\<rparr>) s3)\<lparr>loaded_modules := loaded_modules s3 + 1\<rparr>
            in kbind (kfree file s4) (\<lambda>s5. Inr (0, s5)))"

definition okmod_load_one ::
  "'a okmod_scheme module_init \<Rightarrow> cstr \<Rightarrow> 'a okmod_scheme \<Rightarrow> (cint \<times> 'a okmod_scheme) or_panic" where
  "okmod_load_one init path s =
     (if OKMOD_MAX_MODULES \<le> loaded_modules s then Inr (-1, s)
      else case vfs_stat (Some path) (stack_stat s) s of
        None \<Rightarrow> Inr (-1, s)
      | Some st \<Rightarrow>
          if vs_type st \<noteq> ORE_VFS_FILE \<or> vs_size st < sizeof_OreKModHeader \<or> OKMOD_MAX_SIZE < vs_size st
          then Inr (-1, s)
          else kbind (kmalloc (vs_size st) s) (\<lambda>(file, s1).
            if file = 0 then Inr (-1, s1)
            else kbind (vfs_read_file (Some path) (vs_size st) s1) (\<lambda>((n, data), s2).
              let s3 = s2\<lparr>mem := write_bytes (mem s2) file data\<rparr>
              in if n \<noteq> sint (vs_size st) then free_and_fail file s3
                 else
                   let hdr = kmod_header_at (mem s3) file;
                       s4 = update_module (\<lambda>_. module_slot_init path hdr) s3
                   in if \<not> module_header_ok hdr \<or> \<not> module_layout_ok hdr (vs_size st)
                      then free_and_fail file (update_module (\<lambda>i. i\<lparr>mi_state := 4\<rparr>) s4)
                      else kbind (okmod_place file hdr s4) (\<lambda>(placed, s5).
                        case placed of
                          None \<Rightarrow> Inr (-1, s5)
                        | Some (base, pages) \<Rightarrow> okmod_start init file base pages s5))))"

definition okmod_path :: "cstr \<Rightarrow> cstr" where
  "okmod_path name =
     (let prefix = copy_chars 159 (lit ''/disk/kernel/'')
      in prefix @ copy_chars (159 - length prefix) name)"

text \<open>
  The loop of \<open>okmod_init\<close> runs while the directory has an entry of that index; a module's
  initialisation code could keep changing the directory, so the loop is a partial function.
\<close>

partial_function (option) okmod_scan ::
  "'a okmod_scheme module_init \<Rightarrow> u32 \<Rightarrow> 'a okmod_scheme \<Rightarrow> ('a okmod_scheme or_panic) option" where
  "okmod_scan init i s =
     (case vfs_readdir_path (Some (lit ''/disk/kernel'')) i (stack_stat s) s of
        None \<Rightarrow> Some (Inr s)
      | Some st \<Rightarrow>
          if vs_type st \<noteq> ORE_VFS_FILE \<or> \<not> has_suffix_okmod (cstr_of (vs_name st)) (lit ''.okmod'')
          then okmod_scan init (i + 1) s
          else (case okmod_load_one init (okmod_path (cstr_of (vs_name st))) s of
                  Inl e \<Rightarrow> Some (Inl e)
                | Inr (_, s1) \<Rightarrow> okmod_scan init (i + 1) s1))"

definition okmod_init :: "'a okmod_scheme module_init \<Rightarrow> 'a okmod_scheme \<Rightarrow> 'a okmod_scheme or_panic" where
  "okmod_init init s =
     (let s1 = s\<lparr>loaded_modules := 0, module_table := replicate (unat OKMOD_MAX_MODULES) zero_module,
                 module_commands := replicate (unat OKMOD_MAX_MODULES) 0\<rparr>
      in kbind (of_loop (okmod_scan init 0 s1)) (\<lambda>r. r))"

definition okmod_count :: "'a okmod_scheme \<Rightarrow> u32" where
  "okmod_count s = loaded_modules s"

definition okmod_info :: "u32 \<Rightarrow> 'a okmod_scheme \<Rightarrow> OreModuleInfo option" where
  "okmod_info index s = (if loaded_modules s \<le> index then None else Some (module_table s ! unat index))"

definition module_matches :: "cstr \<Rightarrow> 'a okmod_scheme \<Rightarrow> nat \<Rightarrow> bool" where
  "module_matches name s i \<longleftrightarrow>
     mi_has_command (module_table s ! i) \<noteq> 0 \<and> str_eq (cstr_of (mi_name (module_table s ! i))) name
     \<and> module_commands s ! i \<noteq> 0"

text \<open>\<open>out\<close> is the address of the output buffer or 0.\<close>

definition okmod_run_command ::
  "'a okmod_scheme module_command \<Rightarrow> cstr \<Rightarrow> u64 \<Rightarrow> u64 \<Rightarrow> 'a okmod_scheme \<Rightarrow> (u32 \<times> 'a okmod_scheme) or_panic" where
  "okmod_run_command command name out out_len s =
     (if cget name 0 = 0 then Inr (-1, s)
      else
        let s1 = (if out \<noteq> 0 \<and> out_len \<noteq> 0 then s\<lparr>mem := (mem s)(out := 0)\<rparr> else s)
        in case find (module_matches name s1) [0..<unat (loaded_modules s1)] of
             Some i \<Rightarrow> command (module_commands s1 ! i) out out_len s1
           | None \<Rightarrow> Inr (-1, s1))"

end
