(* ===== verification/Usermem.thy ===== *)
theory Usermem
  imports Okmod
begin

text \<open>
  Access to user memory, the first part of \<open>kernel/syscall.c\<close>. A user pointer is an address in the
  address space of \<open>cr3\<close>; a load or store of the kernel through it goes to the physical address the
  page tables give at that moment. The write bit of a mapping is not consulted: \<open>user_range_ok\<close> does not
  check it, and whether a store of the kernel to a read-only page faults depends on the WP bit of
  \<open>cr0\<close>, which the sources leave as the firmware set it; the model is of a clear WP bit. A copy
  from user memory returns the bytes it stored in the kernel buffer, or the error code; a copy to
  user memory takes the bytes of the kernel buffer.
\<close>

subsection \<open>The model\<close>

record syscall = okmod +
  syscall_count :: u64
  next_synthetic_pid :: u32
  last_synthetic_pid :: u32
  g_syscall_user_rip :: u64
  g_syscall_user_rsp :: u64
  g_sysret_override :: u64
  g_sysret_rip :: u64
  g_sysret_rsp :: u64
  stack_padding :: u32
  stack_name :: char_array

definition USER_ALLOC_BASE :: u64 where
  "USER_ALLOC_BASE = 0x000000a000000000"

definition USER_ALLOC_LIMIT :: u64 where
  "USER_ALLOC_LIMIT = USER_ALLOC_BASE + 4 * 1024 * 1024"

definition vload :: "u64 \<Rightarrow> 'a vmm_scheme \<Rightarrow> u8" where
  "vload va s = mem s (vmm_virt_to_phys va s)"

definition vstore :: "u64 \<Rightarrow> u8 \<Rightarrow> 'a vmm_scheme \<Rightarrow> 'a vmm_scheme" where
  "vstore va b s = s\<lparr>mem := (mem s)(vmm_virt_to_phys va s := b)\<rparr>"

text \<open>
  The page loop of \<open>user_range_ok\<close> visits the offsets \<open>0, 4096, \<dots>\<close> below \<open>len\<close>, which is less
  than \<open>USER_LIMIT\<close> there.
\<close>

definition user_range_ok :: "u64 \<Rightarrow> u64 \<Rightarrow> 'a vmm_scheme \<Rightarrow> bool" where
  "user_range_ok ptr len s \<longleftrightarrow>
     (if ptr = 0 \<or> ptr < USER_BASE \<or> USER_LIMIT \<le> ptr then False
      else if USER_LIMIT - ptr < len then False
      else if \<not> list_all (\<lambda>off. vmm_virt_to_phys (ptr + off) s \<noteq> 0) (page_addrs 0 len) then False
      else \<not> (len \<noteq> 0 \<and> vmm_virt_to_phys (ptr + len - 1) s = 0))"

definition copy_from_user :: "u64 \<Rightarrow> u64 \<Rightarrow> 'a vmm_scheme \<Rightarrow> cint + u8 list" where
  "copy_from_user src len s =
     (if len = 0 then Inr []
      else if \<not> user_range_ok src len s then Inl (- ORE_EFAULT)
      else Inr (map (\<lambda>i. vload (src + word_of_nat i) s) [0..<unat len]))"

fun store_bytes :: "u64 \<Rightarrow> u8 list \<Rightarrow> 'a vmm_scheme \<Rightarrow> 'a vmm_scheme" where
  "store_bytes dst [] s = s"
| "store_bytes dst (b # bs) s = store_bytes (dst + 1) bs (vstore dst b s)"

definition copy_to_user :: "u64 \<Rightarrow> u8 list \<Rightarrow> 'a vmm_scheme \<Rightarrow> cint \<times> 'a vmm_scheme" where
  "copy_to_user dst bytes s =
     (let len = word_of_nat (length bytes)
      in if len = 0 then (0, s)
         else if \<not> user_range_ok dst len s then (- ORE_EFAULT, s)
         else (0, store_bytes dst bytes s))"

fun strlen_user_from :: "nat \<Rightarrow> u64 \<Rightarrow> u64 \<Rightarrow> 'a vmm_scheme \<Rightarrow> cint + u64" where
  "strlen_user_from 0 str i s = Inl (- ORE_EINVAL)"
| "strlen_user_from (Suc n) str i s =
     (if \<not> user_range_ok (str + i) 1 s then Inl (- ORE_EFAULT)
      else if vload (str + i) s = 0 then Inr i
      else strlen_user_from n str (i + 1) s)"

definition strlen_user :: "u64 \<Rightarrow> u64 \<Rightarrow> 'a vmm_scheme \<Rightarrow> cint + u64" where
  "strlen_user str maxlen s = strlen_user_from (unat maxlen) str 0 s"

text \<open>
  Every path argument is read the same way: \<open>strlen_user\<close>, then \<open>copy_from_user\<close> of the string with
  its terminator into a local array.
\<close>

definition user_string :: "u64 \<Rightarrow> u64 \<Rightarrow> 'a vmm_scheme \<Rightarrow> cint + cstr" where
  "user_string ptr maxlen s =
     (case strlen_user ptr maxlen s of
        Inl err \<Rightarrow> Inl err
      | Inr len \<Rightarrow>
          (case copy_from_user ptr (len + 1) s of
             Inl err \<Rightarrow> Inl err
           | Inr bytes \<Rightarrow> Inr (cstr_of bytes)))"

definition copy_user_string_optional :: "u64 \<Rightarrow> u64 \<Rightarrow> 'a vmm_scheme \<Rightarrow> cint + cstr" where
  "copy_user_string_optional user_ptr maxlen s =
     (if user_ptr = 0 then Inr [] else user_string user_ptr (maxlen - 1) s)"

subsection \<open>User page allocation\<close>

definition update_alloc :: "proc_ptr \<Rightarrow> nat \<Rightarrow> UserAllocation \<Rightarrow> 'a process_scheme \<Rightarrow> 'a process_scheme" where
  "update_alloc p slot a s = update_proc p (\<lambda>q. q\<lparr>user_allocs := (user_allocs q)[slot := a]\<rparr>) s"

definition user_alloc_va :: "Process \<Rightarrow> u64" where
  "user_alloc_va proc =
     (let va = (user_alloc_next proc + 4095) AND NOT 4095 in if va < USER_ALLOC_BASE then USER_ALLOC_BASE else va)"

definition user_alloc_pages_sys :: "u64 \<Rightarrow> 'a process_scheme \<Rightarrow> (cint \<times> 'a process_scheme) or_panic" where
  "user_alloc_pages_sys cnt s =
     (case process_current s of
        None \<Rightarrow> Inr (- ORE_EINVAL, s)
      | Some p \<Rightarrow>
          if Some p = process_kernel s then Inr (- ORE_EINVAL, s)
          else if cnt = 0 \<or> 1024 < cnt then Inr (- ORE_EINVAL, s)
          else if 1024 < user_alloc_pages_total (proc_at p s) + cnt then Inr (- ORE_ENOMEM, s)
          else case find (\<lambda>i. ua_used (user_allocs (proc_at p s) ! i) = 0) [0..<ORE_MAX_USER_ALLOCS] of
            None \<Rightarrow> Inr (- ORE_ENOMEM, s)
          | Some slot \<Rightarrow>
              let bytes = cnt * 4096;
                  va = user_alloc_va (proc_at p s)
              in if va + bytes < va \<or> USER_ALLOC_LIMIT < va + bytes then Inr (- ORE_ENOMEM, s)
                 else
                   let (phys, s1) = pmm_alloc_pages (ucast cnt) s
                   in if phys = 0 then Inr (- ORE_ENOMEM, s1)
                      else kbind (vmm_map_in (proc_pml4 p s1) va phys bytes (VMM_USER OR VMM_WRITE OR VMM_NX)
                                   (s1\<lparr>mem := mem_zero (mem s1) phys bytes\<rparr>)) (\<lambda>(r, s2).
                        if r < 0 then Inr (- ORE_EINVAL, pmm_free_pages phys (ucast cnt) s2)
                        else
                          let s3 = update_alloc p slot
                                     \<lparr>ua_virt = va, ua_phys = phys, ua_pages = ucast cnt, ua_used = 1\<rparr> s2
                          in Inr (uint va, update_proc p (\<lambda>q. q\<lparr>
                               user_alloc_pages_total := user_alloc_pages_total q + cnt,
                               user_alloc_next := va + bytes\<rparr>) s3)))"

definition alloc_matches :: "u64 \<Rightarrow> u64 \<Rightarrow> UserAllocation \<Rightarrow> bool" where
  "alloc_matches ptr cnt a \<longleftrightarrow> ua_used a \<noteq> 0 \<and> ua_virt a = ptr \<and> ua_pages a = ucast cnt"

definition user_free_pages_sys :: "u64 \<Rightarrow> u64 \<Rightarrow> 'a process_scheme \<Rightarrow> (cint \<times> 'a process_scheme) or_panic" where
  "user_free_pages_sys ptr cnt s =
     (case process_current s of
        None \<Rightarrow> Inr (- ORE_EINVAL, s)
      | Some p \<Rightarrow>
          if Some p = process_kernel s \<or> ptr = 0 \<or> cnt = 0 then Inr (- ORE_EINVAL, s)
          else case find (\<lambda>i. alloc_matches ptr cnt (user_allocs (proc_at p s) ! i)) [0..<ORE_MAX_USER_ALLOCS] of
            None \<Rightarrow> Inr (- ORE_EINVAL, s)
          | Some i \<Rightarrow>
              let a = user_allocs (proc_at p s) ! i;
                  bytes = ucast (ua_pages a) * 4096
              in kbind (vmm_unmap_in (proc_pml4 p s) (ua_virt a) bytes s) (\<lambda>s1.
                   let s2 = pmm_free_pages (ua_phys a) (ua_pages a) s1;
                       s3 = update_proc p (\<lambda>q. q\<lparr>user_alloc_pages_total :=
                              user_alloc_pages_total q - ucast (ua_pages a)\<rparr>) s2
                   in Inr (0, update_alloc p i zero_alloc s3)))"

end
