(* ===== verification/Exec.thy ===== *)
theory Exec
  imports Usermem
begin

text \<open>
  Loading programs into a process: the ELF and OreImage loaders of \<open>kernel/syscall.c\<close> and the loader
  of the first process in \<open>kernel/user.c\<close>. An image is the address of its first byte in kernel
  memory. A loader returns 0 or a negative code.
\<close>

subsection \<open>Pages and bytes of the new address space\<close>

text \<open>One fresh page at \<open>va\<close>; \<open>zero\<close> says whether the caller clears it again.\<close>

definition map_new_page :: "u64 \<Rightarrow> u64 \<Rightarrow> u64 \<Rightarrow> bool \<Rightarrow> 'a vmm_scheme \<Rightarrow> (cint \<times> 'a vmm_scheme) or_panic" where
  "map_new_page root flags va zero s =
     (let (page, s1) = pmm_alloc_page s
      in if page = 0 then Inr (- ORE_ENOMEM, s1)
         else
           let s2 = (if zero then s1\<lparr>mem := mem_zero (mem s1) page 4096\<rparr> else s1)
           in kbind (vmm_map_in root va page 4096 flags s2) (\<lambda>(r, s3).
              Inr (if r < 0 then - ORE_EINVAL else 0, s3)))"

fun map_missing_pages :: "u64 \<Rightarrow> u64 \<Rightarrow> bool \<Rightarrow> u64 list \<Rightarrow> 'a vmm_scheme \<Rightarrow> (cint \<times> 'a vmm_scheme) or_panic" where
  "map_missing_pages root flags zero [] s = Inr (0, s)"
| "map_missing_pages root flags zero (va # vas) s =
     (if vmm_virt_to_phys_in root va s \<noteq> 0 then map_missing_pages root flags zero vas s
      else kbind (map_new_page root flags va zero s) (\<lambda>(r, s1).
        if r < 0 then Inr (r, s1) else map_missing_pages root flags zero vas s1))"

fun map_stack_pages :: "u64 \<Rightarrow> bool \<Rightarrow> u64 list \<Rightarrow> 'a vmm_scheme \<Rightarrow> (cint \<times> 'a vmm_scheme) or_panic" where
  "map_stack_pages root zero [] s = Inr (0, s)"
| "map_stack_pages root zero (va # vas) s =
     kbind (map_new_page root (VMM_USER OR VMM_WRITE OR VMM_NX) va zero s) (\<lambda>(r, s1).
       if r < 0 then Inr (r, s1) else map_stack_pages root zero vas s1)"

definition map_zeroed_user_pages :: "proc_ptr \<Rightarrow> u64 \<Rightarrow> u64 \<Rightarrow> u64 \<Rightarrow> 'a process_scheme \<Rightarrow> (cint \<times> 'a process_scheme) or_panic" where
  "map_zeroed_user_pages p start sz flags s =
     map_missing_pages (proc_pml4 p s) (flags OR VMM_WRITE) True
       (page_addrs (align_down start 4096) (align_up (start + sz) 4096)) s"

text \<open>
  The byte loops translate every address anew: \<open>val m off\<close> is the byte to store at \<open>va + off\<close>,
  read in the memory of that moment. The result is false when an address has no translation.
\<close>

fun store_user_phys :: "u64 \<Rightarrow> u64 \<Rightarrow> (memory \<Rightarrow> u64 \<Rightarrow> u8) \<Rightarrow> nat list \<Rightarrow> 'a vmm_scheme \<Rightarrow> bool \<times> 'a vmm_scheme" where
  "store_user_phys root va val [] s = (True, s)"
| "store_user_phys root va val (i # is) s =
     (let off = word_of_nat i;
          phys = vmm_virt_to_phys_in root (va + off) s
      in if phys = 0 then (False, s)
         else store_user_phys root va val is (s\<lparr>mem := (mem s)(phys := val (mem s) off)\<rparr>))"

definition copy_to_user_phys :: "proc_ptr \<Rightarrow> u64 \<Rightarrow> u64 \<Rightarrow> u64 \<Rightarrow> 'a process_scheme \<Rightarrow> cint \<times> 'a process_scheme" where
  "copy_to_user_phys p va src sz s =
     (let (ok, s1) = store_user_phys (proc_pml4 p s) va (\<lambda>m off. m (src + off)) [0..<unat sz] s
      in (if ok then 0 else - ORE_EINVAL, s1))"

definition STACK_TOP :: u64 where
  "STACK_TOP = 0x0000009000000000"

definition STACK_BASE :: u64 where
  "STACK_BASE = STACK_TOP - 8 * 4096"

definition flags_for_elf_segment :: "u64 \<Rightarrow> u64" where
  "flags_for_elf_segment ph_flags = (if ph_flags AND 2 \<noteq> 0 then VMM_USER OR VMM_WRITE else VMM_USER)"

definition set_entry :: "u64 \<Rightarrow> u32 \<Rightarrow> Process \<Rightarrow> Process" where
  "set_entry start segs q =
     q\<lparr>user_entry := start, user_stack := STACK_TOP - 16, saved_user_rip := start,
       saved_user_rsp := STACK_TOP - 16, user_segment_count := segs\<rparr>"

subsection \<open>ELF images\<close>

definition load_segment :: "u64 \<Rightarrow> u64 \<Rightarrow> UserElfSegmentInfo \<Rightarrow> 'a vmm_scheme \<Rightarrow> (bool \<times> 'a vmm_scheme) or_panic" where
  "load_segment root img seg s =
     (let start = align_down (vaddr seg) 4096;
          stop = align_up (vaddr seg + mem_size seg) 4096
      in kbind (map_missing_pages root (VMM_USER OR VMM_WRITE) False (page_addrs start stop) s) (\<lambda>(r, s1).
         if r < 0 then Inr (False, s1)
         else
           let (ok1, s2) = store_user_phys root (vaddr seg) (\<lambda>m off. 0) [0..<unat (mem_size seg)] s1
           in if \<not> ok1 then Inr (False, s2)
              else
                let (ok2, s3) = store_user_phys root (vaddr seg) (\<lambda>m off. m (img + file_offset seg + off))
                                  [0..<unat (file_size seg)] s2
                in if \<not> ok2 then Inr (False, s3)
                   else kbind (vmm_protect_in root start (stop - start) (flags_for_elf_segment (seg_flags seg)) s3)
                          (\<lambda>(r2, s4). Inr (\<not> r2 < 0, s4))))"

fun load_segments :: "u64 \<Rightarrow> u64 \<Rightarrow> UserElfSegmentInfo list \<Rightarrow> 'a vmm_scheme \<Rightarrow> (bool \<times> 'a vmm_scheme) or_panic" where
  "load_segments root img [] s = Inr (True, s)"
| "load_segments root img (seg # segs) s =
     kbind (load_segment root img seg s) (\<lambda>(ok, s1).
       if ok then load_segments root img segs s1 else Inr (False, s1))"

definition load_user_image_into_process ::
  "proc_ptr \<Rightarrow> u64 \<Rightarrow> UserElfInfo \<Rightarrow> 'a process_scheme \<Rightarrow> (cint \<times> 'a process_scheme) or_panic" where
  "load_user_image_into_process p img info s =
     kbind (load_segments (proc_pml4 p s) img (segments info) s) (\<lambda>(ok, s1).
       if \<not> ok then Inr (-1, s1)
       else kbind (map_stack_pages (proc_pml4 p s1) False (page_addrs STACK_BASE STACK_TOP) s1) (\<lambda>(r, s2).
         if r < 0 then Inr (-1, s2)
         else Inr (0, update_proc p (set_entry (entry info) (segment_count info)) s2)))"

subsection \<open>OreImages\<close>

definition sizeof_OreImageHeader :: u64 where
  "sizeof_OreImageHeader = 56"

definition image_text_off :: "OreImageHeader \<Rightarrow> u64" where
  "image_text_off hdr = ucast (ih_header_size hdr) + ih_reloc_count hdr * 24"

definition image_data_off :: "OreImageHeader \<Rightarrow> u64" where
  "image_data_off hdr = image_text_off hdr + ih_text_size hdr"

definition image_data_base :: "OreImageHeader \<Rightarrow> u64" where
  "image_data_base hdr = align_up (USER_BASE + ih_text_size hdr) 4096"

definition image_data_total :: "OreImageHeader \<Rightarrow> u64" where
  "image_data_total hdr = ih_data_size hdr + ih_bss_size hdr"

definition image_header_ok :: "OreImageHeader \<Rightarrow> u64 \<Rightarrow> bool" where
  "image_header_ok hdr image_len \<longleftrightarrow>
     ih_magic hdr = ORE_IMAGE_MAGIC \<and> ih_version hdr = ORE_IMAGE_VERSION
     \<and> sizeof_OreImageHeader \<le> ucast (ih_header_size hdr) \<and> ih_header_size hdr \<le> 4096
     \<and> \<not> (ih_text_size hdr = 0 \<or> 256 * 1024 < ih_text_size hdr \<or> 256 * 1024 < ih_data_size hdr
           \<or> 256 * 1024 < ih_bss_size hdr)
     \<and> \<not> (256 < ih_reloc_count hdr \<or> image_text_off hdr < ucast (ih_header_size hdr)
           \<or> image_data_off hdr < image_text_off hdr \<or> image_len < image_data_off hdr + ih_data_size hdr)
     \<and> \<not> ih_text_size hdr \<le> ih_entry hdr"

definition apply_reloc :: "u64 \<Rightarrow> u64 \<Rightarrow> OreImageReloc \<Rightarrow> 'a vmm_scheme \<Rightarrow> bool \<times> 'a vmm_scheme" where
  "apply_reloc root data_base r s =
     (let base = (if ir_segment r = 0 then USER_BASE else data_base);
          place = base + ir_offset r;
          target = base + ir_symbol_offset r;
          phys = vmm_virt_to_phys_in root place s
      in if phys = 0 then (False, s)
         else if ir_type r = ORE_IMAGE_RELOC_ABS64 then (True, s\<lparr>mem := write64 (mem s) phys target\<rparr>)
         else if ir_type r = ORE_IMAGE_RELOC_PC32 then
           (let disp = sint target - sint (place + 4)
            in if disp < - (2 ^ 31) \<or> 2 ^ 31 - 1 < disp then (False, s)
               else (True, s\<lparr>mem := write32 (mem s) phys (word_of_int disp)\<rparr>))
         else (False, s))"

fun apply_relocs :: "u64 \<Rightarrow> u64 \<Rightarrow> u64 \<Rightarrow> nat list \<Rightarrow> 'a vmm_scheme \<Rightarrow> bool \<times> 'a vmm_scheme" where
  "apply_relocs root data_base relocs [] s = (True, s)"
| "apply_relocs root data_base relocs (i # is) s =
     (let (ok, s1) = apply_reloc root data_base (image_reloc_at (mem s) (relocs + 24 * word_of_nat i)) s
      in if ok then apply_relocs root data_base relocs is s1 else (False, s1))"

definition image_data_bytes :: "OreImageHeader \<Rightarrow> u64" where
  "image_data_bytes hdr = (if image_data_total hdr \<noteq> 0 then image_data_total hdr else 1)"

text \<open>The part of \<open>load_ore_image_into_process\<close> after the pages are mapped, up to the relocations.\<close>

definition fill_ore_image :: "proc_ptr \<Rightarrow> u64 \<Rightarrow> OreImageHeader \<Rightarrow> 'a process_scheme \<Rightarrow> cint \<times> 'a process_scheme" where
  "fill_ore_image p img hdr s =
     (let (e1, s1) = copy_to_user_phys p USER_BASE (img + image_text_off hdr) (ih_text_size hdr) s
      in if e1 < 0 then (e1, s1)
         else
           let (e2, s2) = (if ih_data_size hdr \<noteq> 0
                           then copy_to_user_phys p (image_data_base hdr) (img + image_data_off hdr) (ih_data_size hdr) s1
                           else (0, s1))
           in if e2 < 0 then (e2, s2)
              else
                let (ok, s3) = apply_relocs (proc_pml4 p s2) (image_data_base hdr) (img + ucast (ih_header_size hdr))
                                 [0..<unat (ih_reloc_count hdr)] s2
                in (if ok then 0 else - ORE_EINVAL, s3))"

definition load_ore_image_into_process ::
  "proc_ptr \<Rightarrow> u64 \<Rightarrow> u64 \<Rightarrow> 'a process_scheme \<Rightarrow> (cint \<times> 'a process_scheme) or_panic" where
  "load_ore_image_into_process p img image_len s =
     (let hdr = image_header_at (mem s) img;
          root = proc_pml4 p s
      in if image_len < sizeof_OreImageHeader \<or> \<not> image_header_ok hdr image_len then Inr (- ORE_EINVAL, s)
         else kbind (map_zeroed_user_pages p USER_BASE (ih_text_size hdr) VMM_USER s) (\<lambda>(e1, s1).
           if e1 < 0 then Inr (e1, s1)
           else kbind (map_zeroed_user_pages p (image_data_base hdr) (image_data_bytes hdr) (VMM_USER OR VMM_NX) s1)
             (\<lambda>(e2, s2).
             if e2 < 0 then Inr (e2, s2)
             else
               let (e3, s3) = fill_ore_image p img hdr s2
               in if e3 < 0 then Inr (e3, s3)
                  else kbind (vmm_protect_in root USER_BASE (align_up (ih_text_size hdr) 4096) VMM_USER s3) (\<lambda>(e4, s4).
                    if e4 < 0 then Inr (- ORE_EINVAL, s4)
                    else kbind (vmm_protect_in root (image_data_base hdr) (align_up (image_data_bytes hdr) 4096)
                                  (VMM_USER OR VMM_WRITE OR VMM_NX) s4) (\<lambda>(e5, s5).
                      if e5 < 0 then Inr (- ORE_EINVAL, s5)
                      else kbind (map_stack_pages root True (page_addrs STACK_BASE STACK_TOP) s5) (\<lambda>(e6, s6).
                        if e6 < 0 then Inr (e6, s6)
                        else Inr (0, update_proc p (set_entry (USER_BASE + ih_entry hdr) 2) s6)))))))"

subsection \<open>The first process\<close>

record LoadedSegment =
  ls_start :: u64
  ls_size :: u64
  ls_flags :: u64

definition USER_FILE_MAX :: u64 where
  "USER_FILE_MAX = 512 * 1024"

definition valid_elf :: "Elf64_Ehdr \<Rightarrow> u64 \<Rightarrow> bool" where
  "valid_elf eh sz \<longleftrightarrow>
     sizeof_Ehdr \<le> sz \<and> ident_ok (e_ident eh) \<and> e_ident eh ! 4 = 2 \<and> e_machine eh = 62
     \<and> e_phoff eh + ucast (e_phentsize eh) * ucast (e_phnum eh) \<le> sz"

definition flags_for_segment :: "Elf64_Phdr \<Rightarrow> u64" where
  "flags_for_segment ph = (if p_flags ph AND 2 \<noteq> 0 then VMM_USER OR VMM_WRITE else VMM_USER)"

definition map_segment :: "u64 \<Rightarrow> u64 \<Rightarrow> Elf64_Phdr \<Rightarrow> 'a vmm_scheme \<Rightarrow> (LoadedSegment \<times> 'a vmm_scheme) or_panic" where
  "map_segment root img ph s =
     (let start = align_down (p_vaddr ph) 4096;
          stop = align_up (p_vaddr ph + p_memsz ph) 4096
      in kbind (map_missing_pages root (VMM_USER OR VMM_WRITE) False (page_addrs start stop) s) (\<lambda>(r, s1).
         if r < 0 then panic (if r = - ORE_ENOMEM then ''user: no memory for segment'' else ''user: map segment failed'')
         else
           let (ok1, s2) = store_user_phys root (p_vaddr ph) (\<lambda>m off. 0) [0..<unat (p_memsz ph)] s1
           in if \<not> ok1 then panic ''user: segment translation failed''
              else
                let (ok2, s3) = store_user_phys root (p_vaddr ph) (\<lambda>m off. m (img + p_offset ph + off))
                                  [0..<unat (p_filesz ph)] s2
                in if \<not> ok2 then panic ''user: segment copy translation failed''
                   else Inr (\<lparr>ls_start = start, ls_size = stop - start, ls_flags = flags_for_segment ph\<rparr>, s3)))"

fun map_segments :: "u64 \<Rightarrow> u64 \<Rightarrow> nat list \<Rightarrow> LoadedSegment list \<Rightarrow> 'a vmm_scheme \<Rightarrow>
    (LoadedSegment list \<times> 'a vmm_scheme) or_panic" where
  "map_segments root img [] loaded s = Inr (loaded, s)"
| "map_segments root img (i # is) loaded s =
     (let ph = phdr_at (mem s) (phdr_addr img (ehdr_at (mem s) img) i)
      in if p_type ph = PT_LOAD \<and> p_memsz ph \<noteq> 0 then
           (if 16 \<le> length loaded then panic ''user: too many ELF segments''
            else kbind (map_segment root img ph s) (\<lambda>(seg, s1). map_segments root img is (loaded @ [seg]) s1))
         else map_segments root img is loaded s)"

fun protect_segments :: "u64 \<Rightarrow> LoadedSegment list \<Rightarrow> 'a vmm_scheme \<Rightarrow> 'a vmm_scheme or_panic" where
  "protect_segments root [] s = Inr s"
| "protect_segments root (seg # segs) s =
     kbind (vmm_protect_in root (ls_start seg) (ls_size seg) (ls_flags seg) s) (\<lambda>(r, s1).
       if r < 0 then panic ''user: protect segment failed'' else protect_segments root segs s1)"

definition map_user_stack :: "u64 \<Rightarrow> 'a vmm_scheme \<Rightarrow> (u64 \<times> 'a vmm_scheme) or_panic" where
  "map_user_stack root s =
     kbind (map_stack_pages root False (page_addrs STACK_BASE STACK_TOP) s) (\<lambda>(r, s1).
       if r < 0 then panic (if r = - ORE_ENOMEM then ''user: no stack memory'' else ''user: map stack failed'')
       else Inr (STACK_TOP - 16, s1))"

text \<open>
  The result of \<open>user_init_spawn\<close> is the entry point and stack of ring 3 and the ring-0 stack for the
  task state segment.
\<close>

definition load_init_image :: "proc_ptr \<Rightarrow> u64 \<Rightarrow> u64 \<Rightarrow> 'a process_scheme \<Rightarrow> (u64 \<times> 'a process_scheme) or_panic" where
  "load_init_image p img sz s =
     (let eh = ehdr_at (mem s) img;
          root = proc_pml4 p s
      in if \<not> valid_elf eh sz then panic ''user: invalid /init ELF''
         else case elf_probe_user_image (mem s) img sz of
           None \<Rightarrow> panic ''user: /init ELF probe failed''
         | Some info \<Rightarrow>
             let s1 = update_proc p (\<lambda>q. q\<lparr>user_entry := entry info, user_segment_count := segment_count info\<rparr>) s
             in kbind (map_segments root img [0..<unat (e_phnum eh)] [] s1) (\<lambda>(loaded, s2).
                kbind (protect_segments root loaded s2) (\<lambda>s3.
                kbind (map_user_stack root s3) (\<lambda>(stack, s4).
                Inr (stack, update_proc p (\<lambda>q. q\<lparr>user_stack := stack\<rparr>) s4)))))"

definition user_init_spawn :: "cstr \<Rightarrow> 'a process_scheme \<Rightarrow> ((u64 \<times> u64 \<times> u64) \<times> 'a process_scheme) or_panic" where
  "user_init_spawn path s =
     kbind (process_create_user (Some path) s) (\<lambda>(pp, s1).
     case pp of
       None \<Rightarrow> panic ''user: cannot create init process''
     | Some p \<Rightarrow>
         let s2 = process_set_current (Some p) s1
         in case vfs_stat (Some path) (stack_stat s2) s2 of
              None \<Rightarrow> panic ''user: /init missing''
            | Some st \<Rightarrow>
                if vs_size st = 0 \<or> USER_FILE_MAX < vs_size st then panic ''user: /init invalid size''
                else kbind (kmalloc (vs_size st) s2) (\<lambda>(img, s3).
                  if img = 0 then panic ''user: no memory for init image''
                  else kbind (vfs_read_file (Some path) (vs_size st) s3) (\<lambda>((n, data), s4).
                    if n \<noteq> sint (vs_size st) then panic ''user: cannot read /init''
                    else kbind (load_init_image p img (vs_size st) (s4\<lparr>mem := write_bytes (mem s4) img data\<rparr>))
                      (\<lambda>(stack, s5).
                      let start = e_entry (ehdr_at (mem s5) img); root = proc_pml4 p s5
                      in if vmm_virt_to_phys_in root start s5 = 0 \<or> vmm_virt_to_phys_in root stack s5 = 0
                         then panic ''user: entry or stack not mapped''
                         else
                           let s6 = write_cr3 root s5
                           in if vmm_flags start s6 AND VMM_USER = 0 \<or> vmm_flags stack s6 AND VMM_USER = 0
                              then panic ''user: entry or stack missing user flag''
                              else
                                let (kernel_stack, s7) = pmm_alloc_pages 8 s6
                                in if kernel_stack = 0 then panic ''user: no rsp0 stack''
                                   else Inr ((start, stack, kernel_stack + 8 * PAGE_SIZE), s7)))))"

end
