(* ===== verification/Syscall.thy ===== *)
theory Syscall
  imports Exec
begin

text \<open>
  The system call dispatcher of \<open>kernel/syscall.c\<close>, one definition per call. The result is the value
  returned in \<open>rax\<close> and the new state. What is outside the kernel is the argument \<open>env\<close>: the code of a
  module command, and what the other CPUs and the timer do while a terrain job is rendered. \<open>hlt\<close>
  inside \<open>ORE_SYS_SLEEP\<close> waits for one timer interrupt, of which \<open>sleep_loop\<close> has the count of ticks; the
  call of \<open>scheduler_tick\<close> in the same interrupt finds no runnable kernel thread, since nothing in the
  sources creates one (\<open>scheduler_self_test_start\<close> has no caller), and then changes nothing.
\<close>

subsection \<open>Scheduling from a system call\<close>

record 's sys_env =
  env_command :: "'s module_command"
  env_polls :: "u32 list"
  env_render_ticks :: u64

definition neg :: "int \<Rightarrow> u64" where
  "neg err = word_of_int (- err)"

definition of_code :: "cint \<Rightarrow> u64" where
  "of_code c = word_of_int c"

definition syscall_user_rip_current :: "'a syscall_scheme \<Rightarrow> u64" where
  "syscall_user_rip_current s = g_syscall_user_rip s"

definition syscall_user_rsp_current :: "'a syscall_scheme \<Rightarrow> u64" where
  "syscall_user_rsp_current s = g_syscall_user_rsp s"

definition syscall_count_current :: "'a syscall_scheme \<Rightarrow> u64" where
  "syscall_count_current s =
     (case process_current s of Some p \<Rightarrow> proc_syscall_count (proc_at p s) | None \<Rightarrow> syscall_count s)"

definition syscall_override_return :: "u64 \<Rightarrow> u64 \<Rightarrow> 'a syscall_scheme \<Rightarrow> 'a syscall_scheme" where
  "syscall_override_return ip sp s = s\<lparr>g_sysret_rip := ip, g_sysret_rsp := sp, g_sysret_override := 1\<rparr>"

definition enter_process_from_syscall :: "proc_ptr \<Rightarrow> 'a syscall_scheme \<Rightarrow> 'a syscall_scheme" where
  "enter_process_from_syscall nxt s =
     (let s1 = process_set_current (Some nxt) s;
          s2 = write_cr3 (proc_pml4 nxt s1) s1;
          q = proc_at nxt s2
      in syscall_override_return (if saved_user_rip q \<noteq> 0 then saved_user_rip q else user_entry q)
           (if saved_user_rsp q \<noteq> 0 then saved_user_rsp q else user_stack q) s2)"

definition current_pid :: "'a process_scheme \<Rightarrow> u32" where
  "current_pid s = (case process_current s of Some p \<Rightarrow> pid (proc_at p s) | None \<Rightarrow> 0)"

definition park_current :: "proc_ptr option \<Rightarrow> 'a syscall_scheme \<Rightarrow> 'a syscall_scheme" where
  "park_current cur s =
     (case cur of
        None \<Rightarrow> s
      | Some p \<Rightarrow>
          if pstate (proc_at p s) = ORE_PROC_RUNNING
          then update_proc p (\<lambda>q. q\<lparr>saved_user_rip := syscall_user_rip_current s,
                 saved_user_rsp := syscall_user_rsp_current s, pstate := ORE_PROC_READY\<rparr>) s
          else s)"

definition schedule_next_from_syscall :: "'a syscall_scheme \<Rightarrow> cint \<times> 'a syscall_scheme" where
  "schedule_next_from_syscall s =
     (let cur = process_current s
      in case next_ready_process (current_pid s) s of
           None \<Rightarrow> (0, s)
         | Some nxt \<Rightarrow> (1, enter_process_from_syscall nxt (park_current cur s)))"

abbreviation (input) MSR_EFER :: u32 where "MSR_EFER \<equiv> 0xc0000080"
abbreviation (input) MSR_STAR :: u32 where "MSR_STAR \<equiv> 0xc0000081"
abbreviation (input) MSR_LSTAR :: u32 where "MSR_LSTAR \<equiv> 0xc0000082"
abbreviation (input) MSR_FMASK :: u32 where "MSR_FMASK \<equiv> 0xc0000084"
abbreviation (input) EFER_SCE :: u64 where "EFER_SCE \<equiv> 1"

text \<open>\<open>entry_asm\<close> is the address of \<open>syscall_entry_asm\<close>.\<close>

definition syscall_init :: "u64 \<Rightarrow> 'a syscall_scheme \<Rightarrow> 'a syscall_scheme" where
  "syscall_init entry_asm s =
     (let s1 = write_msr MSR_EFER (read_msr MSR_EFER s OR EFER_SCE) s;
          s2 = write_msr MSR_LSTAR entry_asm s1;
          s3 = write_msr MSR_FMASK 0x200 s2
      in write_msr MSR_STAR (push_bit 32 0x08 OR push_bit 48 0x13) s3)"

subsection \<open>Console calls\<close>

fun write_chars :: "u64 \<Rightarrow> nat list \<Rightarrow> 'a syscall_scheme \<Rightarrow> 'a syscall_scheme or_panic" where
  "write_chars str [] s = Inr s"
| "write_chars str (i # is) s =
     kbind (serial_putc (vload (str + word_of_nat i) s) s) (\<lambda>s1.
       write_chars str is (console_putc (vload (str + word_of_nat i) s1) s1))"

definition sys_write :: "u64 \<Rightarrow> u64 \<Rightarrow> u64 \<Rightarrow> 'a syscall_scheme \<Rightarrow> (u64 \<times> 'a syscall_scheme) or_panic" where
  "sys_write a1 a2 a3 s =
     (if (a1 \<noteq> 1 \<and> a1 \<noteq> 2) \<or> \<not> user_range_ok a2 a3 s then Inr (neg ORE_EFAULT, s)
      else kbind (write_chars a2 [0..<unat a3] s) (\<lambda>s1. Inr (a3, s1)))"

partial_function (option) wait_key :: "'a console_scheme \<Rightarrow> (u8 \<times> 'a console_scheme) option" where
  "wait_key s = (case console_read_key s of (Some k, s1) \<Rightarrow> Some (k, s1) | (None, s1) \<Rightarrow> wait_key s1)"

definition sys_read :: "u64 \<Rightarrow> u64 \<Rightarrow> u64 \<Rightarrow> 'a syscall_scheme \<Rightarrow> (u64 \<times> 'a syscall_scheme) or_panic" where
  "sys_read a1 a2 a3 s =
     (if a1 \<noteq> 0 then Inr (neg ORE_EBADF, s)
      else if \<not> user_range_ok a2 a3 s then Inr (neg ORE_EFAULT, s)
      else if a3 = 0 then Inr (0, s)
      else kbind (of_loop (wait_key s)) (\<lambda>(key, s1). Inr (1, vstore a2 key s1)))"

subsection \<open>Process calls\<close>

definition resume_parent :: "proc_ptr \<Rightarrow> 'a syscall_scheme \<Rightarrow> 'a syscall_scheme" where
  "resume_parent parent s =
     (let s1 = process_set_current (Some parent) s;
          s2 = write_cr3 (proc_pml4 parent s1) s1;
          q = proc_at parent s2;
          s3 = syscall_override_return (wait_return_rip q) (wait_return_rsp q) s2
      in update_proc parent (\<lambda>r. r\<lparr>wait_return_rip := 0, wait_return_rsp := 0, waiting_for_pid := 0\<rparr>) s3)"

definition exit_to_next :: "u32 \<Rightarrow> 'a syscall_scheme \<Rightarrow> (u64 \<times> 'a syscall_scheme) or_panic" where
  "exit_to_next own_pid s =
     (case next_ready_process own_pid s of
        Some nxt \<Rightarrow> Inr (0, enter_process_from_syscall nxt s)
      | None \<Rightarrow> Inl Hang)"

definition sys_exit :: "u64 \<Rightarrow> 'a syscall_scheme \<Rightarrow> (u64 \<times> 'a syscall_scheme) or_panic" where
  "sys_exit a1 s =
     (case process_current s of
        None \<Rightarrow> exit_to_next 0 s
      | Some p \<Rightarrow>
          let s1 = update_proc p (\<lambda>q. q\<lparr>exited := 1, exit_code := ucast a1, pstate := ORE_PROC_EXITED,
                     saved_user_rip := 0, saved_user_rsp := 0\<rparr>) s;
              own = pid (proc_at p s1);
              ppid = parent_pid (proc_at p s1)
          in if ppid = 0 then exit_to_next own s1
             else case process_find ppid s1 of
               None \<Rightarrow> exit_to_next own s1
             | Some parent \<Rightarrow>
                 if wait_return_rip (proc_at parent s1) \<noteq> 0 \<and> wait_return_rsp (proc_at parent s1) \<noteq> 0
                 then Inr (ucast (exit_code (proc_at p s1)), resume_parent parent s1)
                 else if pstate (proc_at parent s1) = ORE_PROC_BLOCKED \<and> waiting_for_pid (proc_at parent s1) = own
                 then exit_to_next own (update_proc parent (\<lambda>q. q\<lparr>waiting_for_pid := 0, pstate := ORE_PROC_READY\<rparr>) s1)
                 else exit_to_next own s1)"

definition sys_yield :: "'a syscall_scheme \<Rightarrow> (u64 \<times> 'a syscall_scheme) or_panic" where
  "sys_yield s = Inr (0, snd (schedule_next_from_syscall s))"

text \<open>The running process waits for \<open>child\<close>: its return point is saved and the child is entered.\<close>

definition wait_and_enter :: "proc_ptr \<Rightarrow> proc_ptr \<Rightarrow> 'a syscall_scheme \<Rightarrow> 'a syscall_scheme" where
  "wait_and_enter cur child s =
     enter_process_from_syscall child
       (update_proc cur (\<lambda>q. q\<lparr>wait_return_rip := syscall_user_rip_current s,
          wait_return_rsp := syscall_user_rsp_current s, waiting_for_pid := pid (proc_at child s),
          pstate := ORE_PROC_BLOCKED\<rparr>) s)"

definition sys_wait :: "u64 \<Rightarrow> 'a syscall_scheme \<Rightarrow> (u64 \<times> 'a syscall_scheme) or_panic" where
  "sys_wait a1 s =
     (case (process_find (ucast a1) s, process_current s) of
        (Some child, Some cur) \<Rightarrow>
          if pid (proc_at child s) = pid (proc_at cur s) then Inr (neg ORE_EINVAL, s)
          else if parent_pid (proc_at child s) \<noteq> pid (proc_at cur s) then Inr (neg ORE_EINVAL, s)
          else if pstate (proc_at child s) = ORE_PROC_READY then Inr (0, wait_and_enter cur child s)
          else Inr (scast (exit_code (proc_at child s)), s)
      | _ \<Rightarrow> Inr (neg ORE_EINVAL, s))"

definition sys_getpid :: "'a syscall_scheme \<Rightarrow> (u64 \<times> 'a syscall_scheme) or_panic" where
  "sys_getpid s = Inr (ucast (current_pid s), s)"

partial_function (option) sleep_loop :: "u64 \<Rightarrow> u64 \<Rightarrow> 'a cpu_scheme \<Rightarrow> 'a cpu_scheme option" where
  "sleep_loop start ticks s =
     (if timer_ticks 0 s - start < ticks then sleep_loop start ticks (timer_interrupt s) else Some s)"

definition sys_sleep :: "u64 \<Rightarrow> 'a syscall_scheme \<Rightarrow> (u64 \<times> 'a syscall_scheme) or_panic" where
  "sys_sleep a1 s = kbind (of_loop (sleep_loop (timer_ticks 0 s) a1 s)) (\<lambda>s1. Inr (0, s1))"

definition make_ready :: "cstr \<Rightarrow> proc_ptr \<Rightarrow> 'a process_scheme \<Rightarrow> 'a process_scheme" where
  "make_ready args child s =
     update_proc child (\<lambda>q. q\<lparr>pstate := ORE_PROC_READY, exited := 0, exit_code := 0, parent_pid := current_pid s,
       pargs := copy_string (pargs q) args 128\<rparr>) s"

definition load_image :: "proc_ptr \<Rightarrow> u64 \<Rightarrow> u64 \<Rightarrow> 'a process_scheme \<Rightarrow> (cint \<times> 'a process_scheme) or_panic" where
  "load_image child img sz s =
     (if sizeof_OreImageHeader \<le> sz \<and> ih_magic (image_header_at (mem s) img) = ORE_IMAGE_MAGIC
      then load_ore_image_into_process child img sz s
      else case elf_probe_user_image (mem s) img sz of
        None \<Rightarrow> Inr (- ORE_EINVAL, s)
      | Some info \<Rightarrow>
          kbind (load_user_image_into_process child img info s) (\<lambda>(r, s1).
            Inr (if r < 0 then - ORE_EINVAL else 0, s1)))"

definition free_and_return :: "u64 \<Rightarrow> u64 \<Rightarrow> 'a heap_scheme \<Rightarrow> (u64 \<times> 'a heap_scheme) or_panic" where
  "free_and_return buf code s = kbind (kfree buf s) (\<lambda>s1. Inr (code, s1))"

definition spawn_image :: "cstr \<Rightarrow> cstr \<Rightarrow> u64 \<Rightarrow> u64 \<Rightarrow> 'a syscall_scheme \<Rightarrow> (u64 \<times> 'a syscall_scheme) or_panic" where
  "spawn_image path args img sz s =
     kbind (process_create_user (Some path) s) (\<lambda>(cp, s1).
     case cp of
       None \<Rightarrow> free_and_return img (neg ORE_EINVAL) s1
     | Some child \<Rightarrow>
         kbind (load_image child img sz s1) (\<lambda>(err, s2).
           if err < 0 then free_and_return img (of_code err) s2
           else kbind (kfree img s2) (\<lambda>s3.
             let s4 = make_ready args child s3;
                 cpid = pid (proc_at child s4);
                 s5 = (if cpid \<noteq> 0 then s4\<lparr>last_synthetic_pid := cpid\<rparr>
                       else s4\<lparr>last_synthetic_pid := next_synthetic_pid s4,
                               next_synthetic_pid := next_synthetic_pid s4 + 1\<rparr>)
             in Inr (ucast (last_synthetic_pid s5), s5))))"

definition sys_spawn :: "u64 \<Rightarrow> u64 \<Rightarrow> 'a syscall_scheme \<Rightarrow> (u64 \<times> 'a syscall_scheme) or_panic" where
  "sys_spawn a1 a2 s =
     (case user_string a1 127 s of
        Inl err \<Rightarrow> Inr (of_code err, s)
      | Inr path \<Rightarrow>
          (case copy_user_string_optional a2 128 s of
             Inl err \<Rightarrow> Inr (of_code err, s)
           | Inr args \<Rightarrow>
               (case vfs_stat (Some path) (stack_stat s) s of
                  None \<Rightarrow> Inr (neg ORE_ENOENT, s)
                | Some st \<Rightarrow>
                    if vs_type st \<noteq> ORE_VFS_FILE \<or> vs_size st = 0 \<or> 512 * 1024 < vs_size st then Inr (neg ORE_EINVAL, s)
                    else kbind (kmalloc (vs_size st) s) (\<lambda>(img, s1).
                      if img = 0 then Inr (neg ORE_EINVAL, s1)
                      else kbind (vfs_read_file (Some path) (vs_size st) s1) (\<lambda>((n, data), s2).
                        let s3 = s2\<lparr>mem := write_bytes (mem s2) img data\<rparr>
                        in if n \<noteq> sint (vs_size st) then free_and_return img (neg ORE_EINVAL) s3
                           else spawn_image path args img (vs_size st) s3)))))"

definition sys_args :: "u64 \<Rightarrow> u64 \<Rightarrow> 'a syscall_scheme \<Rightarrow> (u64 \<times> 'a syscall_scheme) or_panic" where
  "sys_args a1 a2 s =
     (case process_current s of
        None \<Rightarrow> Inr (neg ORE_EINVAL, s)
      | Some p \<Rightarrow>
          if \<not> user_range_ok a1 a2 s then Inr (neg ORE_EFAULT, s)
          else
            let text = copy_chars (unat a2 - 1) (cstr_of (pargs (proc_at p s)));
                s1 = store_bytes a1 text s;
                n = word_of_nat (length text)
            in Inr (n, if a2 \<noteq> 0 then vstore (a1 + n) 0 s1 else s1))"

definition run_image :: "cstr \<Rightarrow> u64 \<Rightarrow> u64 \<Rightarrow> 'a syscall_scheme \<Rightarrow> (u64 \<times> 'a syscall_scheme) or_panic" where
  "run_image args img len s =
     kbind (process_create_user (Some (lit ''ore-image'')) s) (\<lambda>(cp, s1).
     case cp of
       None \<Rightarrow> free_and_return img (neg ORE_ENOMEM) s1
     | Some child \<Rightarrow>
         kbind (load_ore_image_into_process child img len s1) (\<lambda>(err, s2).
         kbind (kfree img s2) (\<lambda>s3.
           if err < 0 then Inr (of_code err, s3)
           else
             let s4 = make_ready args child s3
             in case process_current s4 of
                  None \<Rightarrow> Inr (ucast (pid (proc_at child s4)), s4)
                | Some cur \<Rightarrow> Inr (0, wait_and_enter cur child s4))))"

definition sys_exec_image :: "u64 \<Rightarrow> u64 \<Rightarrow> u64 \<Rightarrow> 'a syscall_scheme \<Rightarrow> (u64 \<times> 'a syscall_scheme) or_panic" where
  "sys_exec_image a1 a2 a3 s =
     (if \<not> user_range_ok a1 a2 s \<or> a2 < sizeof_OreImageHeader \<or> 1024 * 1024 < a2 then Inr (neg ORE_EFAULT, s)
      else case copy_user_string_optional a3 128 s of
        Inl err \<Rightarrow> Inr (of_code err, s)
      | Inr args \<Rightarrow>
          kbind (kmalloc a2 s) (\<lambda>(img, s1).
            if img = 0 then Inr (neg ORE_ENOMEM, s1)
            else case copy_from_user a1 a2 s1 of
              Inl err \<Rightarrow> free_and_return img (of_code err) s1
            | Inr data \<Rightarrow> run_image args img a2 (s1\<lparr>mem := write_bytes (mem s1) img data\<rparr>)))"

definition sys_proc_info :: "u64 \<Rightarrow> u64 \<Rightarrow> 'a syscall_scheme \<Rightarrow> (u64 \<times> 'a syscall_scheme) or_panic" where
  "sys_proc_info a1 a2 s =
     (case process_table_at (ucast a1) s of
        None \<Rightarrow> Inr (neg ORE_ENOENT, s)
      | Some p \<Rightarrow>
          let q = proc_at p s;
              info = \<lparr>pi_pid = pid q, pi_ppid = parent_pid q, pi_state = pstate q, pi_exit_code = exit_code q,
                      pi_segment_count = user_segment_count q, pi_padding = stack_padding s,
                      pi_syscall_count = proc_syscall_count q, pi_entry = user_entry q, pi_stack = user_stack q,
                      pi_name = copy_string (stack_name s)
                        (case pname q of Some n \<Rightarrow> n | None \<Rightarrow> lit ''(unnamed)'') 32\<rparr>;
              (err, s1) = copy_to_user a2 (bytes_of_procinfo info) s
          in Inr (if err < 0 then of_code err else 0, s1))"

subsection \<open>File calls\<close>

text \<open>
  \<open>process_current\<close> is not null after \<open>process_init\<close>, which runs before any system call;
  \<open>handle_owner\<close> is the process whose handle table \<open>current_handles\<close> returns.
\<close>

definition handle_owner :: "'a process_scheme \<Rightarrow> proc_ptr" where
  "handle_owner s =
     (case process_current s of Some p \<Rightarrow> p | None \<Rightarrow> (case process_kernel s of Some k \<Rightarrow> k | None \<Rightarrow> 0))"

definition current_handles :: "'a process_scheme \<Rightarrow> Handle list" where
  "current_handles s = handles (proc_at (handle_owner s) s)"

definition set_handle :: "nat \<Rightarrow> Handle \<Rightarrow> 'a process_scheme \<Rightarrow> 'a process_scheme" where
  "set_handle i h s = update_proc (handle_owner s) (\<lambda>q. q\<lparr>handles := (handles q)[i := h]\<rparr>) s"

definition sys_open :: "u64 \<Rightarrow> 'a syscall_scheme \<Rightarrow> (u64 \<times> 'a syscall_scheme) or_panic" where
  "sys_open a1 s =
     (case user_string a1 127 s of
        Inl err \<Rightarrow> Inr (of_code err, s)
      | Inr path \<Rightarrow>
          (case vfs_stat (Some path) (stack_stat s) s of
             None \<Rightarrow> Inr (neg ORE_ENOENT, s)
           | Some st \<Rightarrow>
               (case find (\<lambda>i. h_type (current_handles s ! i) = 0) [1..<ORE_MAX_HANDLES] of
                  None \<Rightarrow> Inr (neg ORE_EINVAL, s)
                | Some i \<Rightarrow>
                    let h = current_handles s ! i
                    in Inr (word_of_nat i, set_handle i (h\<lparr>h_type := vs_type st, h_offset := 0,
                              h_path := copy_string (h_path h) path 128\<rparr>) s))))"

definition put_stat :: "u64 \<Rightarrow> VfsStat option \<Rightarrow> 'a syscall_scheme \<Rightarrow> (u64 \<times> 'a syscall_scheme) or_panic" where
  "put_stat dst r s =
     (case r of
        None \<Rightarrow> Inr (neg ORE_ENOENT, s)
      | Some st \<Rightarrow>
          let (err, s1) = copy_to_user dst (bytes_of_stat st) s
          in Inr (if err < 0 then of_code err else 0, s1))"

definition sys_readdir :: "u64 \<Rightarrow> u64 \<Rightarrow> u64 \<Rightarrow> 'a syscall_scheme \<Rightarrow> (u64 \<times> 'a syscall_scheme) or_panic" where
  "sys_readdir a1 a2 a3 s =
     (if a3 \<noteq> 0 then
        (case user_string a3 127 s of
           Inl err \<Rightarrow> Inr (of_code err, s)
         | Inr path \<Rightarrow> put_stat a2 (vfs_readdir_path (Some path) (ucast a1) (stack_stat s) s) s)
      else put_stat a2 (vfs_readdir (ucast a1) (stack_stat s) s) s)"

definition sys_stat :: "u64 \<Rightarrow> u64 \<Rightarrow> 'a syscall_scheme \<Rightarrow> (u64 \<times> 'a syscall_scheme) or_panic" where
  "sys_stat a1 a2 s =
     (case user_string a1 127 s of
        Inl err \<Rightarrow> Inr (of_code err, s)
      | Inr path \<Rightarrow> put_stat a2 (vfs_stat (Some path) (stack_stat s) s) s)"

definition sys_close :: "u64 \<Rightarrow> 'a syscall_scheme \<Rightarrow> (u64 \<times> 'a syscall_scheme) or_panic" where
  "sys_close a1 s =
     (if ORE_MAX_HANDLES \<le> unat a1 \<or> h_type (current_handles s ! unat a1) = 0 then Inr (neg ORE_EBADF, s)
      else
        let h = current_handles s ! unat a1
        in Inr (0, set_handle (unat a1) (h\<lparr>h_type := 0, h_offset := 0, h_path := (h_path h)[0 := 0]\<rparr>) s))"

text \<open>The file data goes straight to the user buffer at \<open>a2\<close>.\<close>

definition sys_file_read :: "u64 \<Rightarrow> u64 \<Rightarrow> u64 \<Rightarrow> 'a syscall_scheme \<Rightarrow> (u64 \<times> 'a syscall_scheme) or_panic" where
  "sys_file_read a1 a2 a3 s =
     (if ORE_MAX_HANDLES \<le> unat a1 \<or> h_type (current_handles s ! unat a1) \<noteq> ORE_VFS_FILE then Inr (neg ORE_EBADF, s)
      else if \<not> user_range_ok a2 a3 s then Inr (neg ORE_EFAULT, s)
      else
        let h = current_handles s ! unat a1
        in kbind (vfs_read_file_at (Some (cstr_of (h_path h))) (h_offset h) a3 s) (\<lambda>((n, data), s1).
             let s2 = store_bytes a2 data s1;
                 h1 = current_handles s2 ! unat a1
             in Inr (of_code n, if 0 < n then set_handle (unat a1) (h1\<lparr>h_offset := h_offset h1 + of_code n\<rparr>) s2 else s2)))"

subsection \<open>Information, modules, graphics and network\<close>

definition put_bytes :: "u64 \<Rightarrow> u8 list \<Rightarrow> 'a syscall_scheme \<Rightarrow> (u64 \<times> 'a syscall_scheme) or_panic" where
  "put_bytes dst bytes s =
     (let (err, s1) = copy_to_user dst bytes s in Inr (if err < 0 then of_code err else 0, s1))"

definition sys_info :: "u64 \<Rightarrow> 'a syscall_scheme \<Rightarrow> (u64 \<times> 'a syscall_scheme) or_panic" where
  "sys_info a1 s =
     put_bytes a1 (bytes_of_sysinfo
       \<lparr>si_total_pages = pmm_total_pages s, si_free_pages = pmm_free_pages_count s, si_used_pages = pmm_used_pages s,
        si_reserved_pages = pmm_reserved_pages s, si_uptime_ticks = timer_ticks 0 s, si_cpu_count = g_cpu_count s,
        si_pid = current_pid s\<rparr>) s"

definition sys_mod_info :: "u64 \<Rightarrow> u64 \<Rightarrow> 'a syscall_scheme \<Rightarrow> (u64 \<times> 'a syscall_scheme) or_panic" where
  "sys_mod_info a1 a2 s =
     (case okmod_info (ucast a1) s of
        None \<Rightarrow> Inr (neg ORE_ENOENT, s)
      | Some info \<Rightarrow> put_bytes a2 (bytes_of_modinfo info) s)"

text \<open>\<open>out\<close> is the kernel buffer for the output of the command, 0 when the caller wants none.\<close>

definition finish_kcmd :: "u64 \<Rightarrow> u64 \<Rightarrow> u64 \<Rightarrow> u32 \<Rightarrow> 'a syscall_scheme \<Rightarrow> (u64 \<times> 'a syscall_scheme) or_panic" where
  "finish_kcmd out out_len a2 rc s =
     (let code = (if sint rc < 0 then neg ORE_ENOENT else ucast rc)
      in if 0 \<le> sint rc \<and> out \<noteq> 0 \<and> out_len \<noteq> 0 then
           (let s1 = s\<lparr>mem := (mem s)(out + out_len - 1 := 0)\<rparr>;
                (err, s2) = copy_to_user a2 (read_bytes (mem s1) out (unat out_len)) s1
            in free_and_return out (if err < 0 then of_code err else code) s2)
         else if out \<noteq> 0 then free_and_return out code s
         else Inr (code, s))"

definition sys_kcmd ::
  "'a syscall_scheme sys_env \<Rightarrow> u64 \<Rightarrow> u64 \<Rightarrow> u64 \<Rightarrow> 'a syscall_scheme \<Rightarrow> (u64 \<times> 'a syscall_scheme) or_panic" where
  "sys_kcmd env a1 a2 a3 s =
     (case user_string a1 31 s of
        Inl err \<Rightarrow> Inr (of_code err, s)
      | Inr name \<Rightarrow>
          if a3 \<noteq> 0 \<and> \<not> user_range_ok a2 a3 s then Inr (neg ORE_EFAULT, s)
          else if 4096 < a3 then Inr (neg ORE_EINVAL, s)
          else kbind (if a3 \<noteq> 0 then kmalloc a3 s else Inr (0, s)) (\<lambda>(out, s1).
            if a3 \<noteq> 0 \<and> out = 0 then Inr (neg ORE_ENOMEM, s1)
            else kbind (okmod_run_command (env_command env) name out a3 s1) (\<lambda>(rc, s2).
              finish_kcmd out a3 a2 rc s2)))"

definition sys_gfx_info :: "u64 \<Rightarrow> 'a syscall_scheme \<Rightarrow> (u64 \<times> 'a syscall_scheme) or_panic" where
  "sys_gfx_info a1 s =
     (case console_gfx_info s of
        None \<Rightarrow> Inr (neg ORE_EINVAL, s)
      | Some info \<Rightarrow> put_bytes a1 (bytes_of_gfxinfo info) s)"

definition sys_gfx_present :: "u64 \<Rightarrow> u64 \<Rightarrow> u64 \<Rightarrow> u64 \<Rightarrow> 'a syscall_scheme \<Rightarrow> (u64 \<times> 'a syscall_scheme) or_panic" where
  "sys_gfx_present a1 a2 a3 a4 s =
     (let width = ucast a3; height = ucast a4
      in if width \<noteq> ORE_GFX_LOGICAL_WIDTH \<or> height \<noteq> ORE_GFX_LOGICAL_HEIGHT then Inr (neg ORE_EINVAL, s)
         else if a2 \<noteq> ucast width * ucast height then Inr (neg ORE_EINVAL, s)
         else if \<not> user_range_ok a1 a2 s then Inr (neg ORE_EFAULT, s)
         else
           let (rc, s1) = console_gfx_present_indexed16 (\<lambda>m off. m (virt_to_phys m (read_cr3 s) (a1 + off))) width height s
           in Inr (of_code rc, s1))"

definition sys_input_state :: "u64 \<Rightarrow> 'a syscall_scheme \<Rightarrow> (u64 \<times> 'a syscall_scheme) or_panic" where
  "sys_input_state a1 s = (let (st, s1) = input_state_poll s in put_bytes a1 (bytes_of_input st) s1)"

definition sys_user_alloc_pages :: "u64 \<Rightarrow> 'a syscall_scheme \<Rightarrow> (u64 \<times> 'a syscall_scheme) or_panic" where
  "sys_user_alloc_pages a1 s = kbind (user_alloc_pages_sys a1 s) (\<lambda>(r, s1). Inr (of_code r, s1))"

definition sys_user_free_pages :: "u64 \<Rightarrow> u64 \<Rightarrow> 'a syscall_scheme \<Rightarrow> (u64 \<times> 'a syscall_scheme) or_panic" where
  "sys_user_free_pages a1 a2 s = kbind (user_free_pages_sys a1 a2 s) (\<lambda>(r, s1). Inr (of_code r, s1))"

definition put_picture :: "u64 \<Rightarrow> u64 \<Rightarrow> u64 \<Rightarrow> u64 \<Rightarrow> OreTerrainResult \<Rightarrow> 'a syscall_scheme \<Rightarrow> cint \<times> 'a syscall_scheme" where
  "put_picture tmp a2 a3 a4 result s =
     (let (err, s1) = copy_to_user a2 (read_bytes (mem s) tmp (unat a3)) s
      in if err \<ge> 0 then copy_to_user a4 (bytes_of_terrain_result result) s1 else (err, s1))"

definition sys_terrain_render ::
  "'a syscall_scheme sys_env \<Rightarrow> u64 \<Rightarrow> u64 \<Rightarrow> u64 \<Rightarrow> u64 \<Rightarrow> 'a syscall_scheme \<Rightarrow> (u64 \<times> 'a syscall_scheme) or_panic" where
  "sys_terrain_render env a1 a2 a3 a4 s =
     (case copy_from_user a1 48 s of
        Inl err \<Rightarrow> Inr (of_code err, s)
      | Inr bytes \<Rightarrow>
          if a3 \<noteq> ucast ORE_GFX_LOGICAL_WIDTH * ucast ORE_GFX_LOGICAL_HEIGHT then Inr (neg ORE_EINVAL, s)
          else if \<not> user_range_ok a2 a3 s \<or> \<not> user_range_ok a4 32 s then Inr (neg ORE_EFAULT, s)
          else kbind (kmalloc a3 s) (\<lambda>(tmp, s1).
            if tmp = 0 then Inr (neg ORE_ENOMEM, s1)
            else case terrain_render_user (env_polls env) (env_render_ticks env) (terrain_job_of bytes) tmp a3 s1 of
              (None, s2) \<Rightarrow> free_and_return tmp (neg ORE_EINVAL) s2
            | (Some result, s2) \<Rightarrow>
                (let (err, s3) = put_picture tmp a2 a3 a4 result s2
                 in free_and_return tmp (if err < 0 then of_code err else 0) s3)))"

definition sys_net_info :: "u64 \<Rightarrow> 'a syscall_scheme \<Rightarrow> (u64 \<times> 'a syscall_scheme) or_panic" where
  "sys_net_info a1 s = put_bytes a1 (bytes_of_netinfo (net_info s)) s"

definition sys_net_recv :: "u64 \<Rightarrow> u64 \<Rightarrow> 'a syscall_scheme \<Rightarrow> (u64 \<times> 'a syscall_scheme) or_panic" where
  "sys_net_recv a1 a2 s =
     (if ORE_NET_MAX_FRAME < a2 \<or> \<not> user_range_ok a1 a2 s then Inr (neg ORE_EFAULT, s)
      else
        let ((n, data), s1) = run_state (net_recv_frame a2) s
        in if n \<le> 0 then Inr (of_code n, s1)
           else
             let (err, s2) = copy_to_user a1 data s1
             in Inr (if err < 0 then of_code err else of_code n, s2))"

definition sys_net_send :: "u64 \<Rightarrow> u64 \<Rightarrow> 'a syscall_scheme \<Rightarrow> (u64 \<times> 'a syscall_scheme) or_panic" where
  "sys_net_send a1 a2 s =
     (if ORE_NET_MAX_FRAME < a2 \<or> \<not> user_range_ok a1 a2 s then Inr (neg ORE_EFAULT, s)
      else case copy_from_user a1 a2 s of
        Inl err \<Rightarrow> Inr (of_code err, s)
      | Inr frame \<Rightarrow> let (r, s1) = run_state (net_send_frame frame) s in Inr (of_code r, s1))"

subsection \<open>The dispatcher\<close>

definition count_syscall :: "'a syscall_scheme \<Rightarrow> 'a syscall_scheme" where
  "count_syscall s =
     (let s1 = s\<lparr>syscall_count := syscall_count s + 1\<rparr>
      in case process_current s1 of
           None \<Rightarrow> s1
         | Some p \<Rightarrow> update_proc p (\<lambda>q. q\<lparr>proc_syscall_count := proc_syscall_count q + 1\<rparr>) s1)"

definition run_syscall ::
  "'a syscall_scheme sys_env \<Rightarrow> u64 \<Rightarrow> u64 \<Rightarrow> u64 \<Rightarrow> u64 \<Rightarrow> u64 \<Rightarrow> 'a syscall_scheme \<Rightarrow> (u64 \<times> 'a syscall_scheme) or_panic" where
  "run_syscall env number a1 a2 a3 a4 s =
     (case sysno number of
        None \<Rightarrow> Inr (neg ORE_ENOSYS, s)
      | Some call \<Rightarrow>
          (case call of
             ORE_SYS_WRITE \<Rightarrow> sys_write a1 a2 a3 s
           | ORE_SYS_READ \<Rightarrow> sys_read a1 a2 a3 s
           | ORE_SYS_EXIT \<Rightarrow> sys_exit a1 s
           | ORE_SYS_YIELD \<Rightarrow> sys_yield s
           | ORE_SYS_OPEN \<Rightarrow> sys_open a1 s
           | ORE_SYS_READDIR \<Rightarrow> sys_readdir a1 a2 a3 s
           | ORE_SYS_STAT \<Rightarrow> sys_stat a1 a2 s
           | ORE_SYS_CLOSE \<Rightarrow> sys_close a1 s
           | ORE_SYS_FILE_READ \<Rightarrow> sys_file_read a1 a2 a3 s
           | ORE_SYS_INFO \<Rightarrow> sys_info a1 s
           | ORE_SYS_SPAWN \<Rightarrow> sys_spawn a1 a2 s
           | ORE_SYS_WAIT \<Rightarrow> sys_wait a1 s
           | ORE_SYS_GETPID \<Rightarrow> sys_getpid s
           | ORE_SYS_SLEEP \<Rightarrow> sys_sleep a1 s
           | ORE_SYS_ARGS \<Rightarrow> sys_args a1 a2 s
           | ORE_SYS_EXEC_IMAGE \<Rightarrow> sys_exec_image a1 a2 a3 s
           | ORE_SYS_PROC_INFO \<Rightarrow> sys_proc_info a1 a2 s
           | ORE_SYS_MOD_INFO \<Rightarrow> sys_mod_info a1 a2 s
           | ORE_SYS_KCMD \<Rightarrow> sys_kcmd env a1 a2 a3 s
           | ORE_SYS_GFX_INFO \<Rightarrow> sys_gfx_info a1 s
           | ORE_SYS_GFX_PRESENT \<Rightarrow> sys_gfx_present a1 a2 a3 a4 s
           | ORE_SYS_INPUT_STATE \<Rightarrow> sys_input_state a1 s
           | ORE_SYS_USER_ALLOC_PAGES \<Rightarrow> sys_user_alloc_pages a1 s
           | ORE_SYS_USER_FREE_PAGES \<Rightarrow> sys_user_free_pages a1 a2 s
           | ORE_SYS_TERRAIN_RENDER \<Rightarrow> sys_terrain_render env a1 a2 a3 a4 s
           | ORE_SYS_NET_INFO \<Rightarrow> sys_net_info a1 s
           | ORE_SYS_NET_RECV \<Rightarrow> sys_net_recv a1 a2 s
           | ORE_SYS_NET_SEND \<Rightarrow> sys_net_send a1 a2 s))"

definition syscall_dispatch ::
  "'a syscall_scheme sys_env \<Rightarrow> u64 \<Rightarrow> u64 \<Rightarrow> u64 \<Rightarrow> u64 \<Rightarrow> u64 \<Rightarrow> 'a syscall_scheme \<Rightarrow> (u64 \<times> 'a syscall_scheme) or_panic" where
  "syscall_dispatch env number a1 a2 a3 a4 s = run_syscall env number a1 a2 a3 a4 (count_syscall s)"

end
