(* ===== verification/Scheduler.thy ===== *)
theory Scheduler
  imports Syscall
begin

text \<open>
  Kernel threads, \<open>kernel/scheduler.c\<close>, and the interrupt dispatcher that drives them,
  \<open>isr_dispatch\<close> in \<open>kernel/idt.c\<close>. A thread pointer names an element of \<open>bootstrap_threads\<close> or of
  \<open>threads\<close>; queues are linked through the field \<open>tnext\<close> as in the code. The per-CPU lock protects
  each operation, which is one step here (see the component \<open>Spinlock\<close>).
\<close>

subsection \<open>State\<close>

datatype ThreadState = THREAD_RUNNABLE | THREAD_RUNNING | THREAD_BLOCKED | THREAD_SLEEPING | THREAD_DEAD

datatype thread_ptr = Bootstrap nat | Kthread nat

record Thread =
  tid :: u32
  tstate :: ThreadState
  tcpu :: u32
  saved_sp :: u64
  tstack_base :: u64
  tstack_top :: u64
  tswitches :: u64
  tentry :: u64
  targ :: u64
  tname :: "cstr option"
  wake_tick :: u64
  tnext :: "thread_ptr option"

record WaitQueue =
  wq_head :: "thread_ptr option"

record Mutex =
  mx_held :: bool
  mx_owner :: "thread_ptr option"
  mx_waiters :: WaitQueue

record SchedulerCpu =
  sc_current :: "thread_ptr option"
  run_queue :: "thread_ptr option"
  sc_switches :: u64
  sc_started :: bool

record scheduler = syscall +
  sched :: "SchedulerCpu list"
  threads :: "thread_ptr \<Rightarrow> Thread"
  thread_count :: u32
  trace_switches :: u32

definition THREAD_STACK_PAGES :: u32 where
  "THREAD_STACK_PAGES = 4"

definition MAX_THREADS :: u32 where
  "MAX_THREADS = 32"

definition update_thread :: "thread_ptr \<Rightarrow> (Thread \<Rightarrow> Thread) \<Rightarrow> 'a scheduler_scheme \<Rightarrow> 'a scheduler_scheme" where
  "update_thread t f s = s\<lparr>threads := (threads s)(t := f (threads s t))\<rparr>"

definition update_sched :: "u32 \<Rightarrow> (SchedulerCpu \<Rightarrow> SchedulerCpu) \<Rightarrow> 'a scheduler_scheme \<Rightarrow> 'a scheduler_scheme" where
  "update_sched c f s = s\<lparr>sched := (sched s)[unat c := f (sched s ! unat c)]\<rparr>"

definition sched_at :: "u32 \<Rightarrow> 'a scheduler_scheme \<Rightarrow> SchedulerCpu" where
  "sched_at c s = sched s ! unat c"

subsection \<open>The run queue\<close>

partial_function (option) queue_tail :: "(thread_ptr \<Rightarrow> Thread) \<Rightarrow> thread_ptr \<Rightarrow> thread_ptr option" where
  "queue_tail ts t = (case tnext (ts t) of None \<Rightarrow> Some t | Some u \<Rightarrow> queue_tail ts u)"

definition enqueue_thread :: "u32 \<Rightarrow> thread_ptr \<Rightarrow> 'a scheduler_scheme \<Rightarrow> 'a scheduler_scheme or_panic" where
  "enqueue_thread c t s =
     (let s1 = update_thread t (\<lambda>th. th\<lparr>tnext := None\<rparr>) s
      in case run_queue (sched_at c s1) of
           None \<Rightarrow> Inr (update_sched c (\<lambda>q. q\<lparr>run_queue := Some t\<rparr>) s1)
         | Some hd0 \<Rightarrow>
             kbind (of_loop (queue_tail (threads s1) hd0)) (\<lambda>tail.
               Inr (update_thread tail (\<lambda>th. th\<lparr>tnext := Some t\<rparr>) s1)))"

definition dequeue_thread :: "u32 \<Rightarrow> 'a scheduler_scheme \<Rightarrow> thread_ptr option \<times> 'a scheduler_scheme" where
  "dequeue_thread c s =
     (case run_queue (sched_at c s) of
        None \<Rightarrow> (None, s)
      | Some t \<Rightarrow>
          (Some t, update_thread t (\<lambda>th. th\<lparr>tnext := None\<rparr>)
                     (update_sched c (\<lambda>q. q\<lparr>run_queue := tnext (threads s t)\<rparr>) s)))"

fun wake_loop :: "u32 \<Rightarrow> u64 \<Rightarrow> nat list \<Rightarrow> 'a scheduler_scheme \<Rightarrow> 'a scheduler_scheme or_panic" where
  "wake_loop c now [] s = Inr s"
| "wake_loop c now (i # is) s =
     (let th = threads s (Kthread i)
      in if tcpu th = c \<and> tstate th = THREAD_SLEEPING \<and> wake_tick th \<le> now
         then kbind (enqueue_thread c (Kthread i) (update_thread (Kthread i) (\<lambda>t. t\<lparr>tstate := THREAD_RUNNABLE\<rparr>) s))
                (\<lambda>s1. wake_loop c now is s1)
         else wake_loop c now is s)"

definition wake_sleepers :: "u32 \<Rightarrow> 'a scheduler_scheme \<Rightarrow> 'a scheduler_scheme or_panic" where
  "wake_sleepers c s = wake_loop c (timer_ticks c s) [0..<unat (thread_count s)] s"

definition scheduler_init :: "'a scheduler_scheme \<Rightarrow> 'a scheduler_scheme" where
  "scheduler_init s =
     s\<lparr>thread_count := 0,
       sched := map (\<lambda>q. q\<lparr>sc_current := None, run_queue := None, sc_switches := 0, sc_started := False\<rparr>) (sched s)\<rparr>"

subsection \<open>Threads\<close>

text \<open>\<open>*--sp = v\<close> for the values of the list, in order.\<close>

fun push_words :: "u64 list \<Rightarrow> u64 \<Rightarrow> memory \<Rightarrow> u64 \<times> memory" where
  "push_words [] sp m = (sp, m)"
| "push_words (v # vs) sp m = push_words vs (sp - 8) (write64 m (sp - 8) v)"

text \<open>\<open>entry_asm\<close> is the address of \<open>thread_entry_asm\<close>, \<open>self\<close> the address of the thread structure.\<close>

definition build_initial_stack :: "u64 \<Rightarrow> u64 \<Rightarrow> u64 \<Rightarrow> memory \<Rightarrow> u64 \<times> memory" where
  "build_initial_stack entry_asm self stack_top m =
     push_words [0x10, stack_top - 8, 0x202, 0x08, entry_asm, 0, 32, 0, 0, 0, 0, 0, 0, self,
                 0, 0, 0, 0, 0, 0, 0, 0] stack_top m"

definition thread_create ::
  "u64 \<Rightarrow> (nat \<Rightarrow> u64) \<Rightarrow> u64 \<Rightarrow> u64 \<Rightarrow> u32 \<Rightarrow> cstr option \<Rightarrow> 'a scheduler_scheme \<Rightarrow> (cint \<times> 'a scheduler_scheme) or_panic" where
  "thread_create entry_asm addr_of fn arg c name s =
     (if fn = 0 \<or> ORE_MAX_CPUS \<le> c then Inr (-1, s)
      else if MAX_THREADS \<le> thread_count s then Inr (-1, s)
      else
        let i = unat (thread_count s);
            (stack, s1) = pmm_alloc_pages THREAD_STACK_PAGES s
        in if stack = 0 then Inr (-1, s1)
           else
             let stack_top = stack + ucast THREAD_STACK_PAGES * 4096;
                 (sp, m) = build_initial_stack entry_asm (addr_of i) stack_top (mem s1);
                 s2 = update_thread (Kthread i) (\<lambda>th. th\<lparr>tid := thread_count s + 1, tstate := THREAD_RUNNABLE,
                        tcpu := c, tstack_base := stack, tstack_top := stack_top, tswitches := 0, tentry := fn,
                        targ := arg, tname := name, wake_tick := 0, saved_sp := sp\<rparr>) (s1\<lparr>mem := m\<rparr>);
                 s3 = s2\<lparr>thread_count := thread_count s + 1\<rparr>
             in kbind (enqueue_thread c (Kthread i) s3) (\<lambda>s4. Inr (uint (thread_count s + 1), s4)))"

text \<open>
  The first function of a thread: it calls the entry (\<open>run_entry\<close>, the code of the thread) and marks the
  thread as dead when that returns; the \<open>thread_yield\<close> that follows is an interrupt 32.
\<close>

definition thread_bootstrap ::
  "(u64 \<Rightarrow> u64 \<Rightarrow> 'a scheduler_scheme \<Rightarrow> 'a scheduler_scheme or_panic) \<Rightarrow> thread_ptr \<Rightarrow> 'a scheduler_scheme \<Rightarrow>
   'a scheduler_scheme or_panic" where
  "thread_bootstrap run_entry t s =
     kbind (run_entry (tentry (threads s t)) (targ (threads s t)) s) (\<lambda>s1.
     Inr (update_thread t (\<lambda>th. th\<lparr>tstate := THREAD_DEAD\<rparr>) s1))"

definition scheduler_start_current_cpu :: "'a scheduler_scheme \<Rightarrow> 'a scheduler_scheme" where
  "scheduler_start_current_cpu s =
     (let c = current_cpu_id s;
          b = Bootstrap (unat c);
          s1 = update_thread b (\<lambda>th. th\<lparr>tid := 0, tstate := THREAD_RUNNING, tcpu := c,
                 tname := Some (lit ''bootstrap'')\<rparr>) s
      in update_sched c (\<lambda>q. q\<lparr>sc_current := Some b, sc_started := (c = 0)\<rparr>) s1)"

definition put_back :: "u32 \<Rightarrow> u64 \<Rightarrow> thread_ptr option \<Rightarrow> 'a scheduler_scheme \<Rightarrow> 'a scheduler_scheme or_panic" where
  "put_back c interrupted_sp current s =
     (case current of
        None \<Rightarrow> Inr s
      | Some t \<Rightarrow>
          if tstate (threads s t) = THREAD_RUNNING \<and> tid (threads s t) \<noteq> 0
          then enqueue_thread c t (update_thread t (\<lambda>th. th\<lparr>saved_sp := interrupted_sp, tstate := THREAD_RUNNABLE\<rparr>) s)
          else if tid (threads s t) \<noteq> 0 then Inr (update_thread t (\<lambda>th. th\<lparr>saved_sp := interrupted_sp\<rparr>) s)
          else Inr s)"

text \<open>The result 0 means that the interrupted thread goes on.\<close>

definition scheduler_tick :: "u32 \<Rightarrow> u64 \<Rightarrow> 'a scheduler_scheme \<Rightarrow> (u64 \<times> 'a scheduler_scheme) or_panic" where
  "scheduler_tick c interrupted_sp s =
     (if c \<noteq> 0 \<or> \<not> sc_started (sched_at c s) then Inr (0, s)
      else kbind (wake_sleepers c s) (\<lambda>s1.
        let current = sc_current (sched_at c s1)
        in case dequeue_thread c s1 of
             (None, s2) \<Rightarrow> Inr (0, s2)
           | (Some nxt, s2) \<Rightarrow>
               kbind (put_back c interrupted_sp current s2) (\<lambda>s3.
                 let s4 = update_thread nxt (\<lambda>th. th\<lparr>tstate := THREAD_RUNNING, tswitches := tswitches th + 1\<rparr>) s3;
                     s5 = update_sched c (\<lambda>q. q\<lparr>sc_current := Some nxt, sc_switches := sc_switches q + 1\<rparr>) s4;
                     s6 = (if trace_switches s5 < 8 then s5\<lparr>trace_switches := trace_switches s5 + 1\<rparr> else s5)
                 in Inr (saved_sp (threads s6 nxt), s6))))"

definition scheduler_switch_count :: "'a scheduler_scheme \<Rightarrow> u64" where
  "scheduler_switch_count s = sc_switches (sched_at 0 s)"

subsection \<open>Blocking\<close>

text \<open>The operations up to the \<open>thread_yield\<close> that ends them; that is the interrupt 32.\<close>

definition thread_sleep :: "u64 \<Rightarrow> 'a scheduler_scheme \<Rightarrow> 'a scheduler_scheme" where
  "thread_sleep ticks s =
     (let c = current_cpu_id s
      in case sc_current (sched_at c s) of
           None \<Rightarrow> s
         | Some t \<Rightarrow>
             if c \<noteq> 0 \<or> tid (threads s t) = 0 then s
             else update_thread t (\<lambda>th. th\<lparr>wake_tick := timer_ticks c s + ticks, tstate := THREAD_SLEEPING\<rparr>) s)"

definition wait_queue_init :: "WaitQueue \<Rightarrow> WaitQueue" where
  "wait_queue_init queue = queue\<lparr>wq_head := None\<rparr>"

definition thread_block :: "WaitQueue \<Rightarrow> 'a scheduler_scheme \<Rightarrow> WaitQueue \<times> 'a scheduler_scheme" where
  "thread_block queue s =
     (let c = current_cpu_id s
      in case sc_current (sched_at c s) of
           None \<Rightarrow> (queue, s)
         | Some t \<Rightarrow>
             if tid (threads s t) = 0 then (queue, s)
             else (queue\<lparr>wq_head := Some t\<rparr>,
                   update_thread t (\<lambda>th. th\<lparr>tstate := THREAD_BLOCKED, tnext := wq_head queue\<rparr>) s))"

definition thread_unblock :: "thread_ptr option \<Rightarrow> 'a scheduler_scheme \<Rightarrow> 'a scheduler_scheme or_panic" where
  "thread_unblock tp s =
     (case tp of
        None \<Rightarrow> Inr s
      | Some t \<Rightarrow>
          if tstate (threads s t) = THREAD_RUNNABLE \<or> tstate (threads s t) = THREAD_RUNNING then Inr s
          else enqueue_thread (tcpu (threads s t)) t (update_thread t (\<lambda>th. th\<lparr>tstate := THREAD_RUNNABLE\<rparr>) s))"

definition mutex_init :: "Mutex \<Rightarrow> Mutex" where
  "mutex_init m = m\<lparr>mx_held := False, mx_owner := None, mx_waiters := wait_queue_init (mx_waiters m)\<rparr>"

text \<open>One turn of the loop of \<open>mutex_lock\<close>: \<open>None\<close> when the thread yields and tries again.\<close>

definition mutex_lock_try :: "Mutex \<Rightarrow> 'a scheduler_scheme \<Rightarrow> Mutex option" where
  "mutex_lock_try m s =
     (if \<not> mx_held m then Some (m\<lparr>mx_held := True, mx_owner := sc_current (sched_at (current_cpu_id s) s)\<rparr>) else None)"

definition mutex_unlock :: "Mutex \<Rightarrow> Mutex" where
  "mutex_unlock m = m\<lparr>mx_held := False, mx_owner := None\<rparr>"

subsection \<open>Interrupts\<close>

text \<open>
  \<open>frame_addr\<close> is the address of the frame on the interrupted stack. The result is the stack pointer
  to switch to (0 to stay) and the frame to return with.
\<close>

definition isr_dispatch ::
  "u64 \<Rightarrow> u64 \<Rightarrow> InterruptFrame \<Rightarrow> 'a scheduler_scheme \<Rightarrow> ((u64 \<times> InterruptFrame) \<times> 'a scheduler_scheme) or_panic" where
  "isr_dispatch vec frame_addr frame s =
     (if vec = 32 then
        (let c = current_cpu_id s;
             s1 = timer_interrupt s;
             (switched, frame1, s2) = (if c = 0 then process_schedule_user_tick frame s1 else (0, frame, s1))
         in if switched \<noteq> 0 then Inr ((0, frame1), s2)
            else kbind (scheduler_tick c frame_addr s2) (\<lambda>(sp, s3). Inr ((sp, frame1), s3)))
      else if vec = 14 \<and> fcs frame AND 3 = 3 then panic ''user process fault''
      else panic ''unhandled CPU exception'')"

end
