(* ===== verification/Kernel_Frame.thy ===== *)
theory Kernel_Frame
  imports Process_Spec Scheduler
begin

text \<open>
  What the operations of the kernel leave alone. \<open>sched_view\<close> is the process table with the current
  process and the loaded page table, \<open>core_view\<close> the part of it that scheduling depends on. The lemmas
  show, for every operation that a system call or an interrupt uses and that does not schedule, that it
  keeps one of the two: the page and heap allocators, the page tables, the port drivers, the console,
  the file system, user memory, the loaders and the kernel threads. \<open>ends P r\<close> says that \<open>P\<close> holds of the
  state in which \<open>r\<close> returns.
\<close>

subsection \<open>Definitions\<close>

definition sched_view :: "'a process_scheme \<Rightarrow> Process list \<times> u32 \<times> proc_ptr option \<times> proc_ptr option \<times> u64" where
  "sched_view s = (processes s, process_count s, kernel_proc s, current_proc s, cr3 s)"

named_theorems only_io_rules "closure of the drivers that change the port history only"

definition core_of :: "Process \<Rightarrow> u32 \<times> u32 \<times> u32 \<times> u32 \<times> u64 \<times> nat \<times> nat \<times> u64 \<times> u64" where
  "core_of q = (pid q, pstate q, parent_pid q, waiting_for_pid q, pml4_phys (address_space q),
     length (handles q), length (user_allocs q), wait_return_rip q, wait_return_rsp q)"

definition core_view :: "'a process_scheme \<Rightarrow> _" where
  "core_view s = (map core_of (processes s), process_count s, kernel_proc s, current_proc s, cr3 s)"

definition ends :: "('s \<Rightarrow> bool) \<Rightarrow> ('v \<times> 's) or_panic \<Rightarrow> bool" where
  "ends P r \<longleftrightarrow> (\<forall>x t. r = Inr (x, t) \<longrightarrow> P t)"

definition env_ok :: "'a syscall_scheme sys_env \<Rightarrow> bool" where
  "env_ok env \<longleftrightarrow> (\<forall>addr out len s rc t. env_command env addr out len s = Inr (rc, t) \<longrightarrow> sched_view t = sched_view s)"

subsection \<open>Lemmas\<close>

lemma sched_view_upd [simp]:
  "sched_view (mem_update f s) = sched_view s"
  "sched_view (bitmap_update f1 s) = sched_view s"
  "sched_view (free_page_count_update f2 s) = sched_view s"
  "sched_view (used_page_count_update f2 s) = sched_view s"
  "sched_view (heap_head_update f2 s) = sched_view s"
  "sched_view (io_log_update f3 s) = sched_view s"
  "sched_view (cursor_x_update f4 s) = sched_view s"
  "sched_view (cursor_y_update f4 s) = sched_view s"
  "sched_view (esc_state_update f4 s) = sched_view s"
  "sched_view (esc_param_update f4 s) = sched_view s"
  "sched_view (esc_params_update f5 s) = sched_view s"
  "sched_view (esc_param_count_update f4 s) = sched_view s"
  "sched_view (current_fg_update f4 s) = sched_view s"
  "sched_view (current_bg_update f4 s) = sched_view s"
  "sched_view (inverse_video_update f6 s) = sched_view s"
  "sched_view (ps2_shift_update f6 s) = sched_view s"
  "sched_view (ps2_e0_update f6 s) = sched_view s"
  "sched_view (input_keys_update f4 s) = sched_view s"
  "sched_view (input_ascii_update f4 s) = sched_view s"
  "sched_view (input_frame_update f4 s) = sched_view s"
  "sched_view (gfx_mode_active_update f6 s) = sched_view s"
  "sched_view (net_ready_update f6 s) = sched_view s"
  "sched_view (g_timer_ticks_update f7 s) = sched_view s"
  "sched_view (terrain_job_update f8 s) = sched_view s"
  by (simp_all add: sched_view_def)

lemma sched_view_upd2 [simp]:
  "sched_view (syscall_count_update f s) = sched_view s"
  "sched_view (next_synthetic_pid_update f4 s) = sched_view s"
  "sched_view (last_synthetic_pid_update f4 s) = sched_view s"
  "sched_view (g_sysret_rip_update f s) = sched_view s"
  "sched_view (g_sysret_rsp_update f s) = sched_view s"
  "sched_view (g_sysret_override_update f s) = sched_view s"
  by (simp_all add: sched_view_def)

lemma fold_view: "(\<And>x t. sched_view (f x t) = sched_view t) \<Longrightarrow> sched_view (fold f xs s) = sched_view s"
  by (induction xs arbitrary: s) simp_all

subsection \<open>Memory management\<close>

lemma alloc_view [simp]:
  "sched_view (snd (pmm_alloc_pages n s)) = sched_view s"
  "sched_view (snd (pmm_alloc_page s)) = sched_view s"
  by (auto simp: pmm_alloc_pages_def pmm_alloc_page_def mark_pages_def bitmap_set_def Let_def
      intro!: fold_view split: option.split)

lemma free_view [simp]: "sched_view (pmm_free_pages p n s) = sched_view s"
  by (auto simp: pmm_free_pages_def free_one_def bitmap_clear_def intro!: fold_view)

lemma alloc_viewD [dest!]:
  "pmm_alloc_pages n s = (p, t) \<Longrightarrow> sched_view t = sched_view s"
  "pmm_alloc_page s = (p, t) \<Longrightarrow> sched_view t = sched_view s"
  by (metis alloc_view(1) snd_conv, metis alloc_view(2) snd_conv)

lemmas view_splits = prod.splits if_splits option.splits

lemma kmalloc_view: "kmalloc n s = Inr (p, t) \<Longrightarrow> sched_view t = sched_view s"
  by (auto simp: kmalloc_def request_block_def kbind_Inr_iff Let_def split: view_splits)

lemma kfree_view: "kfree p s = Inr t \<Longrightarrow> sched_view t = sched_view s"
  by (auto simp: kfree_def kbind_Inr_iff Let_def panic_def split: if_splits)

lemma next_table_view: "next_table tab i c f s = Inr (p, t) \<Longrightarrow> sched_view t = sched_view s"
  by (auto simp: next_table_def new_table_def panic_def kbind_Inr_iff Let_def split: view_splits)

lemma pte_for_root_view: "pte_for_root root v c f s = Inr (p, t) \<Longrightarrow> sched_view t = sched_view s"
  by (auto simp: pte_for_root_def kbind_Inr_iff dest!: next_table_view split: view_splits)

lemma map_pages_view: "map_pages root f vs ph s = Inr (p, t) \<Longrightarrow> sched_view t = sched_view s"
  by (induction root f vs ph s rule: map_pages.induct)
    (auto simp: kbind_Inr_iff dest!: pte_for_root_view split: view_splits)

lemma protect_pages_view: "protect_pages root f vs s = Inr (p, t) \<Longrightarrow> sched_view t = sched_view s"
  by (induction root f vs s rule: protect_pages.induct)
    (auto simp: kbind_Inr_iff dest!: pte_for_root_view split: view_splits)

lemma unmap_pages_view: "unmap_pages root vs s = Inr t \<Longrightarrow> sched_view t = sched_view s"
  by (induction vs arbitrary: s) (fastforce simp: kbind_Inr_iff dest!: pte_for_root_view split: view_splits)+

lemma vmm_views:
  "vmm_map_in root v ph sz f s = Inr (p, t) \<Longrightarrow> sched_view t = sched_view s"
  "vmm_protect_in root v sz f s = Inr (p, t) \<Longrightarrow> sched_view t = sched_view s"
  "vmm_unmap_in root v sz s = Inr t \<Longrightarrow> sched_view t = sched_view s"
  "vmm_create_user_pml4 s = Inr (q, t) \<Longrightarrow> sched_view t = sched_view s"
  by (auto simp: vmm_map_in_def map_in_root_def vmm_protect_in_def protect_in_root_def vmm_unmap_in_def
      unmap_in_root_def vmm_create_user_pml4_def new_table_def panic_def kbind_Inr_iff Let_def
      dest!: map_pages_view protect_pages_view unmap_pages_view split: view_splits)

subsection \<open>Drivers\<close>

lemma only_io_get: "only_io State_Monad.get"
proof (rule only_ioI)
  fix s :: "'a ports_scheme"
  show "\<exists>log. snd (run_state State_Monad.get s) = s\<lparr>io_log := log\<rparr>"
    by (intro exI [of _ "io_log s"]) simp
qed

lemma only_io_cases:
  "only_io a \<Longrightarrow> (\<And>x. only_io (f x)) \<Longrightarrow> only_io (case v of None \<Rightarrow> a | Some x \<Rightarrow> f x)"
  "(\<And>x y. only_io (g x y)) \<Longrightarrow> only_io (case p of (x, y) \<Rightarrow> g x y)"
  "only_io b \<Longrightarrow> only_io c \<Longrightarrow> only_io (case r of FwcfgReadDisk \<Rightarrow> b | AtaReadSlave \<Rightarrow> c)"
  by (simp_all split: option.split prod.split block_read.split)

lemmas only_io_base [only_io_rules] =
  only_io_get only_io_cases only_io_basic only_io_return only_io_bind only_io_if only_io_collect

lemma only_io_view:
  fixes act :: "('a process_scheme, 'v) state"
  shows "only_io act \<Longrightarrow> run_state act s = (x, t) \<Longrightarrow> sched_view t = sched_view s"
  by (erule only_ioE) auto

lemma only_io_registers [only_io_rules]:
  "only_io serial_ready" "only_io serial_read_byte" "only_io (ne_write r v)" "only_io (ne_read r)"
  "only_io fwcfg_read8" "only_io (fwcfg_select sel)"
  unfolding serial_ready_def serial_read_byte_def ne_write_def ne_read_def fwcfg_read8_def fwcfg_select_def
  by (intro only_io_rules)+

lemma only_io_pages [only_io_rules]: "only_io ne_select_page0" "only_io ne_select_page1"
  unfolding ne_select_page0_def ne_select_page1_def by (intro only_io_rules)+

lemma only_io_ne_poll [only_io_rules]: "only_io (ne_poll n r p)"
  by (induction n) (auto intro!: only_io_rules)

lemma only_io_wait_rdc [only_io_rules]: "only_io ne_wait_rdc"
  unfolding ne_wait_rdc_def by (intro only_io_rules)

lemma only_io_write_all [only_io_rules]: "only_io (ne_write_all rs)"
  by (induction rs rule: ne_write_all.induct) (auto intro!: only_io_rules)

lemma only_io_setup [only_io_rules]: "only_io (ne_remote_setup a n c)"
  unfolding ne_remote_setup_def by (intro only_io_rules)

lemma only_io_remote_read [only_io_rules]: "only_io (ne_remote_read a n)"
  unfolding ne_remote_read_def by (intro only_io_rules)

lemma only_io_out_words [only_io_rules]: "only_io (ne_out_words bs)"
  by (induction bs rule: ne_out_words.induct) (auto intro!: only_io_rules)

lemma only_io_remote_write [only_io_rules]: "only_io (ne_remote_write a bs)"
  unfolding ne_remote_write_def by (intro only_io_rules)

lemma only_io_send_wait [only_io_rules]: "only_io (net_send_wait n len)"
  by (induction n) (auto intro!: only_io_rules)

lemma only_io_send [only_io_rules]: "only_io (net_send_frame frame)"
  unfolding net_send_frame_def Let_def by (intro only_io_rules)

lemma only_io_recv_body [only_io_rules]: "only_io (net_recv_body page nxt cnt cap)"
  unfolding net_recv_body_def Let_def by (intro only_io_rules)

lemma only_io_recv [only_io_rules]: "only_io (net_recv_frame cap)"
  unfolding net_recv_frame_def Let_def by (intro only_io_rules)

lemma only_io_ata_wait_loop [only_io_rules]: "only_io (ata_wait_loop n m v)"
  by (induction n) (auto intro!: only_io_rules)

lemma only_io_ata_sector [only_io_rules]: "only_io (ata_read_sector cur)"
  unfolding ata_read_sector_def ata_wait_def by (intro only_io_rules)

lemma only_io_ata_sectors [only_io_rules]: "only_io (ata_read_sectors lba bs)"
  by (induction bs) (auto intro!: only_io_rules)

lemma only_io_block [only_io_rules]: "only_io (block_root_read lba n)"
  unfolding block_root_read_def fwcfg_read_disk_def ata_read_slave_def Let_def by (intro only_io_rules)

lemmas driver_views =
  only_io_view [OF only_io_send] only_io_view [OF only_io_recv] only_io_view [OF only_io_block]

lemma io_event_view [simp]: "sched_view (io_event e s) = sched_view s"
  by (simp add: io_event_def)

lemma put_pixel_view [simp]: "sched_view (put_pixel x y c s) = sched_view s"
  by (simp add: put_pixel_def)

lemma draw_view [simp]:
  "sched_view (fill_rect x y w h c s) = sched_view s"
  "sched_view (draw_glyph px py ch c s) = sched_view s"
  "sched_view (clear_cell cx cy s) = sched_view s"
  "sched_view (copy_pixel x d sy s) = sched_view s"
  by (auto simp: fill_rect_def draw_glyph_def draw_dot_def clear_cell_def copy_pixel_def intro!: fold_view)

lemma draw_text_view [simp]: "sched_view (draw_text_px x y cs c s) = sched_view s"
  by (induction x y cs c s rule: draw_text_px.induct) simp_all

lemma screen_view [simp]:
  "sched_view (draw_status_bar s) = sched_view s" "sched_view (clear_screen s) = sched_view s"
  "sched_view (scroll_up s) = sched_view s" "sched_view (newline s) = sched_view s"
  by (auto simp: draw_status_bar_def clear_screen_def scroll_up_def newline_def Let_def fold_view)

lemma escape_view:
  "sched_view (sgr_param p s) = sched_view s" "sched_view (sgr_apply s) = sched_view s"
  "sched_view (esc_push_param s) = sched_view s" "sched_view (esc_reset s) = sched_view s"
  "handle_escape c s = Some t \<Longrightarrow> sched_view t = sched_view s"
proof -
  show p: "sched_view (sgr_param p s) = sched_view s" for p and s :: "'a process_scheme"
    by (simp add: sgr_param_def sgr_reset_def)
  show a: "sched_view (sgr_apply s) = sched_view s" for s :: "'a process_scheme"
    by (simp add: sgr_apply_def sgr_reset_def fold_view p)
  show u: "sched_view (esc_push_param s) = sched_view s" for s :: "'a process_scheme"
    by (simp add: esc_push_param_def)
  show r: "sched_view (esc_reset s) = sched_view s" for s :: "'a process_scheme"
    by (simp add: esc_reset_def)
  show "handle_escape c s = Some t \<Longrightarrow> sched_view t = sched_view s"
    by (auto simp: handle_escape_def a u r split: if_splits)
qed

lemma put_char_view [simp]: "sched_view (put_char c s) = sched_view s"
  by (auto simp: put_char_def Let_def dest: escape_view(5) split: option.split)

lemma console_putc_view [simp]: "sched_view (console_putc c s) = sched_view s"
  by (auto simp: console_putc_def console_write_def Let_def fold_view)

lemma console_read_key_view: "console_read_key s = (k, t) \<Longrightarrow> sched_view t = sched_view s"
  by (auto simp: console_read_key_def scancode_key_def input_set_ascii_def input_set_key_def Let_def
      dest!: only_io_view [OF only_io_registers(2)] split: view_splits)

lemma wait_key_view:
  assumes "wait_key s = Some y"
  shows "sched_view (snd y) = sched_view s"
proof (rule wait_key.raw_induct [OF _ assms])
  fix wk y and s :: "'a process_scheme"
  assume ih: "\<And>s y. wk s = Some y \<Longrightarrow> sched_view (snd y) = sched_view s"
    and run: "(case console_read_key s of (None, s1) \<Rightarrow> wk s1 | (Some k, s1) \<Rightarrow> Some (k, s1)) = Some y"
  obtain k s1 where k: "console_read_key s = (k, s1)" by force
  with run ih [of s1 y] console_read_key_view [OF k] show "sched_view (snd y) = sched_view s"
    by (auto split: option.splits)
qed

lemma input_state_poll_view: "input_state_poll s = (x, t) \<Longrightarrow> sched_view t = sched_view s"
  by (auto simp: input_state_poll_def Let_def dest!: console_read_key_view split: prod.splits)

lemma gfx_present_view: "console_gfx_present_indexed16 buf w h s = (x, t) \<Longrightarrow> sched_view t = sched_view s"
  by (auto simp: console_gfx_present_indexed16_def present_pixel_def Let_def fold_view split: if_splits)

lemma serial_wait_view:
  assumes "serial_wait s = Some t"
  shows "sched_view t = sched_view s"
proof (rule serial_wait.raw_induct [OF _ assms])
  fix sw t and s :: "'a process_scheme"
  assume ih: "\<And>s t. sw s = Some t \<Longrightarrow> sched_view t = sched_view s"
    and run: "(let (ready, s1) = run_state serial_ready s in if ready then Some s1 else sw s1) = Some t"
  obtain r s1 where r: "run_state serial_ready s = (r, s1)" by force
  with run ih [of s1 t] only_io_view [OF only_io_registers(1) r] show "sched_view t = sched_view s"
    by (auto split: if_splits)
qed

lemma of_loop_Inr: "of_loop r = Inr x \<longleftrightarrow> r = Some x"
  by (cases r) (simp_all add: of_loop_def)

lemma serial_putc_view: "serial_putc c s = Inr t \<Longrightarrow> sched_view t = sched_view s"
  by (auto simp: serial_putc_def serial_put_raw_def kbind_Inr_iff of_loop_Inr dest!: serial_wait_view split: if_splits)

lemma write_chars_view: "write_chars a is s = Inr t \<Longrightarrow> sched_view t = sched_view s"
  by (induction "is" arbitrary: s) (fastforce simp: kbind_Inr_iff dest!: serial_putc_view)+

lemma timer_interrupt_view [simp]: "sched_view (timer_interrupt s) = sched_view s"
  by (simp add: timer_interrupt_def Let_def)

lemma sleep_loop_view:
  assumes "sleep_loop st n s = Some t"
  shows "sched_view t = sched_view s"
proof (rule sleep_loop.raw_induct [OF _ assms])
  fix sl st n t and s :: "'a process_scheme"
  assume ih: "\<And>st n s t. sl st n s = Some t \<Longrightarrow> sched_view t = sched_view s"
    and run: "(if timer_ticks 0 s - st < n then sl st n (timer_interrupt s) else Some s) = Some t"
  from run ih [of st n "timer_interrupt s" t] show "sched_view t = sched_view s"
    by (auto split: if_splits)
qed

lemma terrain_view [simp]:
  "sched_view (update_job f s) = sched_view s" "sched_view (render_slice w n s) = sched_view s"
  "sched_view (run_worker w n s) = sched_view s" "sched_view (terrain_worker_poll w s) = sched_view s"
  "sched_view (finish_worker n w s) = sched_view s" "sched_view (terrain_setup job buf s) = sched_view s"
  by (simp_all add: update_job_def render_slice_def run_worker_def terrain_worker_poll_def finish_worker_def
      terrain_setup_def Let_def)

lemma terrain_render_view: "terrain_render_user polls ticks job buf len s = (x, t) \<Longrightarrow> sched_view t = sched_view s"
  by (auto simp: terrain_render_user_def Let_def fold_view split: view_splits)

lemma disk_read_view: "disk_read_at e off n s = Inr (x, t) \<Longrightarrow> sched_view t = sched_view s"
  by (auto simp: disk_read_at_def Let_def kbind_Inr_iff dest!: kmalloc_view kfree_view driver_views split: view_splits)

lemma vfs_read_view:
  "vfs_read_file_at path off n s = Inr (x, t) \<Longrightarrow> sched_view t = sched_view s"
  "vfs_read_file path n s = Inr (x, t) \<Longrightarrow> sched_view t = sched_view s"
proof -
  show a: "vfs_read_file_at path off n s = Inr (x, t) \<Longrightarrow> sched_view t = sched_view s" for off
    by (auto simp: vfs_read_file_at_def Let_def dest!: disk_read_view split: view_splits)
  show "vfs_read_file path n s = Inr (x, t) \<Longrightarrow> sched_view t = sched_view s"
    unfolding vfs_read_file_def by (rule a)
qed

lemma view_core: "sched_view t = sched_view s \<Longrightarrow> core_view t = core_view s"
  by (simp add: sched_view_def core_view_def)

lemma update_core:
  assumes "\<And>q. core_of (f q) = core_of q"
  shows "core_view (update_proc p f s) = core_view s"
proof -
  have "map core_of ((processes s)[p := f (processes s ! p)]) = map core_of (processes s)"
    by (cases "p < length (processes s)")
      (auto simp: assms map_update list_update_beyond intro!: nth_equalityI simp: nth_list_update)
  then show ?thesis by (simp add: update_proc_def core_view_def)
qed

lemma core_upd [simp]:
  "core_view (mem_update f s) = core_view s" "core_view (pmm_free_pages a n s) = core_view s"
  by (rule view_core, simp)+

lemma endsD: "r = Inr (x, t) \<Longrightarrow> ends P r \<Longrightarrow> P t"
  by (simp add: ends_def)

lemma ends_rules:
  "P t \<Longrightarrow> ends P (Inr (x, t))"
  "ends P r1 \<Longrightarrow> ends P r2 \<Longrightarrow> ends P (if c then r1 else r2)"
  "(\<And>a b. y = (a, b) \<Longrightarrow> ends P (g a b)) \<Longrightarrow> ends P (case y of (a, b) \<Rightarrow> g a b)"
  "ends P r \<Longrightarrow> (\<And>x t. P t \<Longrightarrow> ends P (h x t)) \<Longrightarrow> ends P (kbind r (\<lambda>(x, t). h x t))"
  by (auto simp: ends_def kbind_Inr_iff split: if_splits prod.splits)

subsection \<open>User memory and loaders\<close>

lemma store_bytes_view [simp]: "sched_view (store_bytes a bs s) = sched_view s"
  by (induction bs arbitrary: a s) (simp_all add: vstore_def)

lemma vstore_view [simp]: "sched_view (vstore a b s) = sched_view s"
  by (simp add: vstore_def)

lemma copy_to_user_view: "copy_to_user a bs s = (e, t) \<Longrightarrow> sched_view t = sched_view s"
  by (auto simp: copy_to_user_def Let_def split: if_splits)

lemma map_new_page_view: "map_new_page root f va z s = Inr (e, t) \<Longrightarrow> sched_view t = sched_view s"
  by (auto simp: map_new_page_def Let_def kbind_Inr_iff dest!: vmm_views split: view_splits)

lemma map_missing_view: "map_missing_pages root f z vas s = Inr (e, t) \<Longrightarrow> sched_view t = sched_view s"
  by (induction vas arbitrary: s)
    (fastforce simp: kbind_Inr_iff dest!: map_new_page_view split: view_splits)+

lemma map_stack_view: "map_stack_pages root z vas s = Inr (e, t) \<Longrightarrow> sched_view t = sched_view s"
  by (induction vas arbitrary: s)
    (fastforce simp: kbind_Inr_iff dest!: map_new_page_view split: view_splits)+

lemma store_phys_view: "store_user_phys root va val is s = (ok, t) \<Longrightarrow> sched_view t = sched_view s"
  by (induction "is" arbitrary: s) (fastforce simp: Let_def split: if_splits)+

lemma load_segment_view: "load_segment root img seg s = Inr (ok, t) \<Longrightarrow> sched_view t = sched_view s"
  by (auto simp: load_segment_def Let_def kbind_Inr_iff dest!: map_missing_view store_phys_view vmm_views
      split: view_splits)

lemma load_segments_view: "load_segments root img segs s = Inr (ok, t) \<Longrightarrow> sched_view t = sched_view s"
  by (induction segs arbitrary: s)
    (fastforce simp: kbind_Inr_iff dest!: load_segment_view split: view_splits)+

lemma set_entry_core [simp]: "core_of (set_entry e n q) = core_of q"
  by (simp add: set_entry_def core_of_def)

lemma load_user_image_core: "load_user_image_into_process p img info s = Inr (e, t) \<Longrightarrow> core_view t = core_view s"
  by (auto simp: load_user_image_into_process_def kbind_Inr_iff update_core
      dest!: load_segments_view map_stack_view view_core split: view_splits)

lemma map_zeroed_view: "map_zeroed_user_pages p st sz f s = Inr (e, t) \<Longrightarrow> sched_view t = sched_view s"
  by (auto simp: map_zeroed_user_pages_def dest!: map_missing_view)

lemma apply_reloc_view: "apply_reloc root db r s = (ok, t) \<Longrightarrow> sched_view t = sched_view s"
  by (auto simp: apply_reloc_def Let_def split: if_splits)

lemma apply_relocs_view: "apply_relocs root db rs is s = (ok, t) \<Longrightarrow> sched_view t = sched_view s"
  by (induction "is" arbitrary: s) (fastforce simp: Let_def dest!: apply_reloc_view split: view_splits)+

lemma copy_phys_view: "copy_to_user_phys p va src sz s = (e, t) \<Longrightarrow> sched_view t = sched_view s"
  by (auto simp: copy_to_user_phys_def dest!: store_phys_view split: view_splits)

lemma fill_image_view: "fill_ore_image p img hdr s = (e, t) \<Longrightarrow> sched_view t = sched_view s"
  by (auto simp: fill_ore_image_def Let_def dest!: copy_phys_view apply_relocs_view split: view_splits)

lemma load_ore_image_core:
  "load_ore_image_into_process p img len s = Inr (e, t) \<Longrightarrow> core_view t = core_view s"
proof (rule endsD [where P = "\<lambda>t. core_view t = core_view s"])
  show "ends (\<lambda>t. core_view t = core_view s) (load_ore_image_into_process p img len s)"
    unfolding load_ore_image_into_process_def Let_def
    by (intro ends_rules refl)
      (auto simp: ends_def update_core dest!: map_zeroed_view fill_image_view vmm_views map_stack_view view_core)
qed

lemma load_image_core: "load_image p img len s = Inr (e, t) \<Longrightarrow> core_view t = core_view s"
  by (auto simp: load_image_def kbind_Inr_iff dest!: load_ore_image_core load_user_image_core split: view_splits)

lemma update_alloc_core: "core_view (update_alloc p i a s) = core_view s"
  unfolding update_alloc_def by (rule update_core) (simp add: core_of_def)

lemma user_alloc_core: "user_alloc_pages_sys n s = Inr (e, t) \<Longrightarrow> core_view t = core_view s"
  by (auto simp: user_alloc_pages_sys_def Let_def kbind_Inr_iff update_alloc_core update_core core_of_def
      dest!: vmm_views view_core split: view_splits)

lemma user_free_core: "user_free_pages_sys p n s = Inr (e, t) \<Longrightarrow> core_view t = core_view s"
  by (auto simp: user_free_pages_sys_def Let_def kbind_Inr_iff update_alloc_core update_core core_of_def
      dest!: vmm_views view_core split: view_splits)

lemma handle_core [simp]: "core_view (set_handle i h s) = core_view s"
  unfolding set_handle_def by (rule update_core) (simp add: core_of_def)

lemma store_bytes_core [simp]: "core_view (store_bytes a bs s) = core_view s"
  by (rule view_core) simp

lemma free_return_view: "free_and_return b code s = Inr (r, t) \<Longrightarrow> sched_view t = sched_view s"
  by (auto simp: free_and_return_def kbind_Inr_iff dest!: kfree_view)

lemma put_views:
  "put_bytes d bs s = Inr (r, t) \<Longrightarrow> sched_view t = sched_view s"
  "put_stat d v s = Inr (r, t) \<Longrightarrow> sched_view t = sched_view s"
  by (auto simp: put_bytes_def put_stat_def Let_def dest!: copy_to_user_view split: view_splits)

lemma run_command_view:
  "env_ok env \<Longrightarrow> okmod_run_command (env_command env) name out len s = Inr (rc, t) \<Longrightarrow> sched_view t = sched_view s"
  by (auto simp: okmod_run_command_def env_ok_def Let_def split: view_splits)

lemma finish_kcmd_view: "finish_kcmd out len a rc s = Inr (r, t) \<Longrightarrow> sched_view t = sched_view s"
  by (auto simp: finish_kcmd_def Let_def dest!: free_return_view copy_to_user_view split: view_splits)

lemma kcmd_view:
  assumes "env_ok env" "sys_kcmd env a1 a2 a3 s = Inr (r, t)"
  shows "sched_view t = sched_view s"
  using assms(2)
  by (auto simp: sys_kcmd_def kbind_Inr_iff dest!: run_command_view [OF assms(1)] finish_kcmd_view kmalloc_view
      split: view_splits sum.splits)

lemma put_picture_view: "put_picture tmp a2 a3 a4 res s = (e, t) \<Longrightarrow> sched_view t = sched_view s"
  by (auto simp: put_picture_def Let_def dest!: copy_to_user_view split: view_splits)

lemma ends_cases:
  "ends P r1 \<Longrightarrow> (\<And>y. ends P (g y)) \<Longrightarrow> ends P (case v of None \<Rightarrow> r1 | Some y \<Rightarrow> g y)"
  "(\<And>y. ends P (h1 y)) \<Longrightarrow> (\<And>y. ends P (h2 y)) \<Longrightarrow> ends P (case w of Inl y \<Rightarrow> h1 y | Inr y \<Rightarrow> h2 y)"
  by (auto split: option.split sum.split)

lemma terrain_call_view: "sys_terrain_render env a1 a2 a3 a4 s = Inr (r, t) \<Longrightarrow> sched_view t = sched_view s"
proof (rule endsD [where P = "\<lambda>t. sched_view t = sched_view s"])
  show "ends (\<lambda>t. sched_view t = sched_view s) (sys_terrain_render env a1 a2 a3 a4 s)"
    unfolding sys_terrain_render_def Let_def
    by (intro ends_rules ends_cases refl)
      (auto simp: ends_def dest!: put_picture_view free_return_view kmalloc_view terrain_render_view)
qed

lemma console_call_views:
  "sys_write a1 a2 a3 s = Inr (r, t) \<Longrightarrow> sched_view t = sched_view s"
  "sys_read a1 a2 a3 s = Inr (r, t) \<Longrightarrow> sched_view t = sched_view s"
  "sys_sleep a1 s = Inr (r, t) \<Longrightarrow> sched_view t = sched_view s"
  "sys_gfx_info a1 s = Inr (r, t) \<Longrightarrow> sched_view t = sched_view s"
  "sys_gfx_present a1 a2 a3 a4 s = Inr (r, t) \<Longrightarrow> sched_view t = sched_view s"
  "sys_input_state a1 s = Inr (r, t) \<Longrightarrow> sched_view t = sched_view s"
  by (auto simp: sys_write_def sys_read_def sys_sleep_def sys_gfx_info_def sys_gfx_present_def sys_input_state_def
      kbind_Inr_iff of_loop_Inr Let_def
      dest!: write_chars_view wait_key_view sleep_loop_view put_views gfx_present_view input_state_poll_view
      split: view_splits)

lemma info_call_views:
  "sys_info a1 s = Inr (r, t) \<Longrightarrow> sched_view t = sched_view s"
  "sys_mod_info a1 a2 s = Inr (r, t) \<Longrightarrow> sched_view t = sched_view s"
  "sys_proc_info a1 a2 s = Inr (r, t) \<Longrightarrow> sched_view t = sched_view s"
  "sys_args a1 a2 s = Inr (r, t) \<Longrightarrow> sched_view t = sched_view s"
  "sys_net_info a1 s = Inr (r, t) \<Longrightarrow> sched_view t = sched_view s"
  "sys_net_recv a1 a2 s = Inr (r, t) \<Longrightarrow> sched_view t = sched_view s"
  "sys_net_send a1 a2 s = Inr (r, t) \<Longrightarrow> sched_view t = sched_view s"
  by (auto simp: sys_info_def sys_mod_info_def sys_proc_info_def sys_args_def sys_net_info_def sys_net_recv_def
      sys_net_send_def Let_def dest!: put_views driver_views copy_to_user_view split: view_splits sum.splits)

lemma file_call_cores:
  "sys_open a1 s = Inr (r, t) \<Longrightarrow> core_view t = core_view s"
  "sys_close a1 s = Inr (r, t) \<Longrightarrow> core_view t = core_view s"
  "sys_readdir a1 a2 a3 s = Inr (r, t) \<Longrightarrow> core_view t = core_view s"
  "sys_stat a1 a2 s = Inr (r, t) \<Longrightarrow> core_view t = core_view s"
  "sys_file_read a1 a2 a3 s = Inr (r, t) \<Longrightarrow> core_view t = core_view s"
  "sys_user_alloc_pages a1 s = Inr (r, t) \<Longrightarrow> core_view t = core_view s"
  "sys_user_free_pages a1 a2 s = Inr (r, t) \<Longrightarrow> core_view t = core_view s"
  by (auto simp: sys_open_def sys_close_def sys_readdir_def sys_stat_def sys_file_read_def sys_user_alloc_pages_def
      sys_user_free_pages_def kbind_Inr_iff Let_def dest!: put_views vfs_read_view(1) user_alloc_core user_free_core
      view_core split: view_splits sum.splits)

subsection \<open>Kernel threads\<close>

lemma sched_view_upd3 [simp]:
  "sched_view (sched_update f s) = sched_view s"
  "sched_view (threads_update f1 s) = sched_view s"
  "sched_view (trace_switches_update f2 s) = sched_view s"
  by (simp_all add: sched_view_def)

lemma thread_views [simp]:
  "sched_view (update_thread t f s) = sched_view s" "sched_view (update_sched c g s) = sched_view s"
  by (simp_all add: update_thread_def update_sched_def)

lemma enqueue_view: "enqueue_thread c t s = Inr u \<Longrightarrow> sched_view u = sched_view s"
  by (auto simp: enqueue_thread_def Let_def kbind_Inr_iff split: option.splits)

lemma dequeue_view: "dequeue_thread c s = (t, u) \<Longrightarrow> sched_view u = sched_view s"
  by (auto simp: dequeue_thread_def split: option.splits)

lemma wake_loop_view: "wake_loop c now is s = Inr u \<Longrightarrow> sched_view u = sched_view s"
  by (induction "is" arbitrary: s) (fastforce simp: Let_def kbind_Inr_iff dest!: enqueue_view split: if_splits)+

lemma put_back_view: "put_back c sp cur s = Inr u \<Longrightarrow> sched_view u = sched_view s"
  by (auto simp: put_back_def dest!: enqueue_view split: option.splits if_splits)

lemma scheduler_tick_view:
  assumes "scheduler_tick c sp s = Inr (r, u)"
  shows "sched_view u = sched_view s"
proof (cases "c \<noteq> 0 \<or> \<not> sc_started (sched_at c s)")
  case True
  with assms show ?thesis by (auto simp: scheduler_tick_def)
next
  case False
  then obtain s1 where w: "wake_loop c (timer_ticks c s) [0..<unat (thread_count s)] s = Inr s1"
    using assms by (auto simp: scheduler_tick_def wake_sleepers_def kbind_Inr_iff)
  obtain nx s2 where d: "dequeue_thread c s1 = (nx, s2)" by force
  have "sched_view u = sched_view s2"
  proof (cases nx)
    case None
    with assms False w d show ?thesis by (auto simp: scheduler_tick_def wake_sleepers_def)
  next
    case (Some nxt)
    with assms False w d obtain s3 where p: "put_back c sp (sc_current (sched_at c s1)) s2 = Inr s3"
      unfolding scheduler_tick_def wake_sleepers_def by (auto simp: kbind_Inr_iff)
    have "sched_view u = sched_view s3"
      using assms False unfolding scheduler_tick_def wake_sleepers_def w
      by (simp only: if_False kbind_simps Let_def d Some prod.case option.case p sum.inject prod.inject) auto
    with put_back_view [OF p] show ?thesis by simp
  qed
  with wake_loop_view [OF w] dequeue_view [OF d] show ?thesis by simp
qed

subsection \<open>The first process\<close>

lemma map_segment_view: "map_segment root img ph s = Inr (seg, t) \<Longrightarrow> sched_view t = sched_view s"
proof (rule endsD [where P = "\<lambda>t. sched_view t = sched_view s"])
  show "ends (\<lambda>t. sched_view t = sched_view s) (map_segment root img ph s)"
    unfolding map_segment_def Let_def
    by (intro ends_rules refl) (auto simp: ends_def panic_def dest!: map_missing_view store_phys_view)
qed

lemma map_segments_view: "map_segments root img is loaded s = Inr (segs, t) \<Longrightarrow> sched_view t = sched_view s"
  by (induction "is" arbitrary: loaded s)
    (fastforce simp: Let_def kbind_Inr_iff panic_def dest!: map_segment_view split: view_splits)+

lemma protect_segments_view: "protect_segments root segs s = Inr t \<Longrightarrow> sched_view t = sched_view s"
  by (induction segs arbitrary: s) (fastforce simp: kbind_Inr_iff panic_def dest!: vmm_views split: view_splits)+

lemma map_user_stack_view: "map_user_stack root s = Inr (st, t) \<Longrightarrow> sched_view t = sched_view s"
  by (auto simp: map_user_stack_def kbind_Inr_iff panic_def dest!: map_stack_view split: view_splits)

lemma load_init_core:
  assumes "load_init_image p img sz s = Inr (st, t)"
  shows "core_view t = core_view s"
proof -
  obtain info segs s2 s3 st s4 where
    m: "map_segments (proc_pml4 p s) img [0..<unat (e_phnum (ehdr_at (mem s) img))] []
        (update_proc p (\<lambda>q. q\<lparr>user_entry := entry info, user_segment_count := segment_count info\<rparr>) s) = Inr (segs, s2)"
    and pr: "protect_segments (proc_pml4 p s) segs s2 = Inr s3"
    and st: "map_user_stack (proc_pml4 p s) s3 = Inr (st, s4)"
    and t: "t = update_proc p (\<lambda>q. q\<lparr>user_stack := st\<rparr>) s4"
    using assms by (auto simp: load_init_image_def Let_def panic_def kbind_Inr_iff split: if_splits option.splits)
  have "core_view t = core_view s4" unfolding t by (rule update_core) (simp add: core_of_def)
  also have "\<dots> = core_view s2"
    using view_core [OF map_user_stack_view [OF st]] view_core [OF protect_segments_view [OF pr]] by simp
  also have "\<dots> = core_view s"
    using view_core [OF map_segments_view [OF m]] by (simp add: update_core core_of_def)
  finally show ?thesis .
qed

end
