(* ===== verification/Usermem_Spec.thy ===== *)
theory Usermem_Spec
  imports Vmm_Spaces Kernel_Frame
begin

text \<open>
  User memory as the kernel sees it: the range check, the copies in both directions, strings, and the
  pages a process allocates.

  \<open>user_range_ok\<close> is compared with the mapping of every byte (\<open>user_span\<close>, \<open>mapped\<close>). The copies are an
  instance of the interface \<open>byte_window\<close>, a window of byte addresses in which a byte written is read
  back and the others keep their value. \<open>alloc_ok\<close> is the invariant of the allocation table of a process
  and \<open>alloc_run\<close> a history of its allocations and frees.
\<close>

subsection \<open>Definitions\<close>

definition user_span :: "u64 \<Rightarrow> u64 \<Rightarrow> bool" where
  "user_span p n \<longleftrightarrow> USER_BASE \<le> p \<and> p < USER_LIMIT \<and> unat p + unat n \<le> unat USER_LIMIT"

definition mapped :: "'a vmm_scheme \<Rightarrow> u64 \<Rightarrow> bool" where
  "mapped s w \<longleftrightarrow> entry_of (mem s) (cr3 s) w \<noteq> None"

text \<open>No page of the loaded address space is mapped to the frame 0.\<close>

definition no_frame_0 :: "'a vmm_scheme \<Rightarrow> bool" where
  "no_frame_0 s \<longleftrightarrow> (\<forall>w. entry_of (mem s) (cr3 s) w \<noteq> None \<longrightarrow> vmm_virt_to_phys w s \<noteq> 0)"

text \<open>
  A window of user addresses: their pages are mapped to frames that hold no page table, and no two of
  the addresses share a byte of memory.
\<close>

definition user_window :: "u64 set \<Rightarrow> 'a vmm_scheme \<Rightarrow> bool" where
  "user_window W s \<longleftrightarrow> vm_ok (cr3 s) s
     \<and> (\<forall>w \<in> W. frame_of (vmm_virt_to_phys w s) \<notin> table_frames (mem s) (cr3 s))
     \<and> inj_on (\<lambda>w. vmm_virt_to_phys w s) W"

text \<open>The string at a user address, with its terminator at the offset \<open>j\<close>.\<close>

definition string_at :: "u64 \<Rightarrow> nat \<Rightarrow> 'a vmm_scheme \<Rightarrow> bool" where
  "string_at p j s \<longleftrightarrow> (\<forall>l \<le> j. user_range_ok (p + word_of_nat l) 1 s) \<and> (\<forall>l < j. vload (p + word_of_nat l) s \<noteq> 0)
     \<and> vload (p + word_of_nat j) s = 0"

text \<open>Two user pages of the example machine, mapped to the frames 512 and 513.\<close>

definition demo_user :: vmm where
  "demo_user = snd (projr (vmm_map_in 0x100000 0x8000000000 0x200000 0x2000 7 demo_vmm))"

definition region_used :: "Process \<Rightarrow> nat \<Rightarrow> bool" where
  "region_used q i \<longleftrightarrow> i < ORE_MAX_USER_ALLOCS \<and> ua_used (user_allocs q ! i) \<noteq> 0"

definition region_start :: "Process \<Rightarrow> nat \<Rightarrow> nat" where
  "region_start q i = unat (ua_virt (user_allocs q ! i))"

definition region_pages :: "Process \<Rightarrow> nat \<Rightarrow> nat" where
  "region_pages q i = unat (ua_pages (user_allocs q ! i))"

definition pages_in_use :: "Process \<Rightarrow> nat" where
  "pages_in_use q = (\<Sum>i \<in> {i. region_used q i}. region_pages q i)"

definition region :: "Process \<Rightarrow> nat \<Rightarrow> nat set" where
  "region q i = {region_start q i ..< region_start q i + 4096 * region_pages q i}"

definition alloc_ok :: "Process \<Rightarrow> bool" where
  "alloc_ok q \<longleftrightarrow> length (user_allocs q) = ORE_MAX_USER_ALLOCS
     \<and> pages_in_use q = unat (user_alloc_pages_total q) \<and> unat (user_alloc_pages_total q) \<le> 1024
     \<and> unat USER_ALLOC_BASE \<le> unat (user_alloc_next q) \<and> unat (user_alloc_next q) \<le> unat USER_ALLOC_LIMIT
     \<and> 4096 dvd unat (user_alloc_next q)
     \<and> (\<forall>i. region_used q i \<longrightarrow> 1 \<le> region_pages q i \<and> unat USER_ALLOC_BASE \<le> region_start q i
          \<and> region_start q i + 4096 * region_pages q i \<le> unat (user_alloc_next q))
     \<and> (\<forall>i j. region_used q i \<longrightarrow> region_used q j \<longrightarrow> i \<noteq> j \<longrightarrow> region q i \<inter> region q j = {})"

definition put_region :: "nat \<Rightarrow> u64 \<Rightarrow> u64 \<Rightarrow> u64 \<Rightarrow> Process \<Rightarrow> Process" where
  "put_region slot va phys cnt q =
     q\<lparr>user_allocs := (user_allocs q)[slot := \<lparr>ua_virt = va, ua_phys = phys, ua_pages = ucast cnt, ua_used = 1\<rparr>],
       user_alloc_pages_total := user_alloc_pages_total q + cnt, user_alloc_next := va + cnt * 4096\<rparr>"

definition drop_region :: "nat \<Rightarrow> Process \<Rightarrow> Process" where
  "drop_region i q =
     q\<lparr>user_alloc_pages_total := user_alloc_pages_total q - ucast (ua_pages (user_allocs q ! i)),
       user_allocs := (user_allocs q)[i := zero_alloc]\<rparr>"

inductive alloc_run :: "proc_ptr \<Rightarrow> 'a process_scheme \<Rightarrow> 'a process_scheme \<Rightarrow> bool" for p s where
  start: "alloc_run p s s"
| alloc: "alloc_run p s t \<Longrightarrow> current_proc t = Some p \<Longrightarrow> user_alloc_pages_sys n t = Inr (r, u) \<Longrightarrow> alloc_run p s u"
| free: "alloc_run p s t \<Longrightarrow> current_proc t = Some p \<Longrightarrow> user_free_pages_sys a n t = Inr (r, u) \<Longrightarrow> alloc_run p s u"
| other: "alloc_run p s t \<Longrightarrow> length (processes u) = length (processes t) \<Longrightarrow>
    user_allocs (proc_at p u) = user_allocs (proc_at p t) \<Longrightarrow>
    user_alloc_next (proc_at p u) = user_alloc_next (proc_at p t) \<Longrightarrow>
    user_alloc_pages_total (proc_at p u) = user_alloc_pages_total (proc_at p t) \<Longrightarrow> alloc_run p s u"

definition alloc_result :: "nat \<Rightarrow> u64 \<Rightarrow> 'a process_scheme \<Rightarrow> cint \<times> 'a process_scheme \<Rightarrow> bool" where
  "alloc_result p cnt s = (\<lambda>(r, t). processes t = processes s \<and> r < 0
     \<or> (\<exists>slot phys. processes t = (processes s)[p := put_region slot (user_alloc_next (proc_at p s)) phys cnt (proc_at p s)]
          \<and> r = uint (user_alloc_next (proc_at p s)) \<and> slot < ORE_MAX_USER_ALLOCS \<and> \<not> region_used (proc_at p s) slot
          \<and> 1 \<le> unat cnt \<and> unat cnt \<le> 1024 \<and> unat (user_alloc_pages_total (proc_at p s)) + unat cnt \<le> 1024
          \<and> unat (user_alloc_next (proc_at p s)) + 4096 * unat cnt \<le> unat USER_ALLOC_LIMIT))"

definition free_result :: "nat \<Rightarrow> u64 \<Rightarrow> u64 \<Rightarrow> 'a process_scheme \<Rightarrow> cint \<times> 'a process_scheme \<Rightarrow> bool" where
  "free_result p ptr cnt s = (\<lambda>(r, t). processes t = processes s \<and> r < 0
     \<or> (\<exists>i. region_used (proc_at p s) i \<and> ua_virt (user_allocs (proc_at p s) ! i) = ptr \<and> r = 0
          \<and> ua_pages (user_allocs (proc_at p s) ! i) = ucast cnt
          \<and> processes t = (processes s)[p := drop_region i (proc_at p s)]))"

definition demo_alloc :: process where
  "demo_alloc = update_proc 2 (\<lambda>q. q\<lparr>user_allocs := (user_allocs q)[0 := \<lparr>ua_virt = 0xa000003000, ua_phys = 0x5000,
       ua_pages = 3, ua_used = 1\<rparr>], user_alloc_next := 0xa000006000, user_alloc_pages_total := 3\<rparr>) demo_process"

subsection \<open>Lemmas\<close>

lemma span_byte:
  assumes "user_span p n" "i < unat n"
  shows "unat (p + word_of_nat i) = unat p + i" "USER_BASE \<le> p + word_of_nat i" "p + word_of_nat i < USER_LIMIT"
    "unat (p + word_of_nat i) < 2 ^ 48" "unat p + i < 2 ^ 48"
proof -
  have l: "unat p + i < unat USER_LIMIT" using assms by (simp add: user_span_def)
  then have i: "i < 2 ^ 64" by (simp add: USER_LIMIT_def)
  show u: "unat (p + word_of_nat i) = unat p + i"
    using l i by (subst unat_add_exact) (simp_all add: unat_word_of_nat64 USER_LIMIT_def)
  show "USER_BASE \<le> p + word_of_nat i" "p + word_of_nat i < USER_LIMIT"
    using u l assms(1) by (simp_all add: user_span_def word_le_nat_alt word_less_nat_alt)
  show "unat p + i < 2 ^ 48" using l by (simp add: USER_LIMIT_def)
  with u show "unat (p + word_of_nat i) < 2 ^ 48" by simp
qed

lemma mapped_translated: "vmm_virt_to_phys w s \<noteq> 0 \<Longrightarrow> mapped s w"
  by (auto simp: vmm_virt_to_phys_def vmm_virt_to_phys_in_def read_cr3_def virt_to_phys_entry mapped_def split: option.splits)

lemma mapped_same_page: "same_page v w \<Longrightarrow> mapped s v \<longleftrightarrow> mapped s w"
  by (simp add: mapped_def entry_of_same_page)

lemma page_offsets:
  assumes "unat n \<le> 2 ^ 48"
  shows "set (page_addrs 0 n) = {4096 * word_of_nat k | k. 4096 * k < unat n}"
proof -
  have "(4096 * k < unat n) = (k < (unat n + 4095) div 4096)" for k by linarith
  then show ?thesis by (auto simp: page_addrs_def)
qed

text \<open>The bytes that the loop looks at reach every page of the range.\<close>

lemma byte_page_visited:
  assumes "user_span p n" "i < unat n"
  shows "(\<exists>k. 4096 * k < unat n \<and> same_page (p + 4096 * word_of_nat k) (p + word_of_nat i))
    \<or> same_page (p + n - 1) (p + word_of_nat i)"
proof -
  let ?k = "(unat p + i) div 4096 - unat p div 4096"
  note b = span_byte [OF assms]
  have pg: "page_no (p + word_of_nat i) = (unat p + i) div 4096" using page_no_small [OF b(4)] b(1) by simp
  have k: "unat p div 4096 + ?k = (unat p + i) div 4096" by (simp add: div_le_mono)
  show ?thesis
  proof (cases "4096 * ?k < unat n")
    case True
    have w: "(4096 * word_of_nat ?k :: u64) = word_of_nat (4096 * ?k)" by simp
    note c = span_byte [OF assms(1) True]
    have "page_no (p + 4096 * word_of_nat ?k) = (unat p + 4096 * ?k) div 4096"
      using page_no_small [OF c(4)] c(1) by (simp only: w)
    also have "\<dots> = (unat p + i) div 4096" using k by simp
    finally have "same_page (p + 4096 * word_of_nat ?k) (p + word_of_nat i)" using pg by (simp add: same_page_iff)
    with True show ?thesis by blast
  next
    case False
    have n1: "unat n - 1 < unat n" using assms(2) by simp
    have last: "p + n - 1 = p + word_of_nat (unat n - 1)"
      using assms(2) by (simp add: of_nat_diff)
    have "page_no (p + n - 1) = (unat p + (unat n - 1)) div 4096"
      unfolding last using page_no_small [OF span_byte(4) [OF assms(1) n1]] span_byte(1) [OF assms(1) n1] by simp
    also have "\<dots> = (unat p + i) div 4096"
    proof (rule antisym)
      show "(unat p + i) div 4096 \<le> (unat p + (unat n - 1)) div 4096" using assms(2) by (intro div_le_mono) simp
      have "(unat p + (unat n - 1)) div 4096 \<le> (unat p + 4096 * ?k) div 4096" using False by (intro div_le_mono) simp
      with k show "(unat p + (unat n - 1)) div 4096 \<le> (unat p + i) div 4096" by simp
    qed
    finally have "same_page (p + n - 1) (p + word_of_nat i)" using pg by (simp add: same_page_iff)
    then show ?thesis by blast
  qed
qed

lemma user_range_sound:
  assumes "user_range_ok p n s"
  shows "user_span p n" "\<And>i. i < unat n \<Longrightarrow> mapped s (p + word_of_nat i)"
proof -
  have g: "USER_BASE \<le> p" "p < USER_LIMIT" "n \<le> USER_LIMIT - p"
    "list_all (\<lambda>off. vmm_virt_to_phys (p + off) s \<noteq> 0) (page_addrs 0 n)"
    "n \<noteq> 0 \<longrightarrow> vmm_virt_to_phys (p + n - 1) s \<noteq> 0"
    using assms by (auto simp: user_range_ok_def not_less not_le split: if_splits)
  have "unat (USER_LIMIT - p) = unat USER_LIMIT - unat p"
    using g(2) by (intro unat_sub_exact) (simp add: word_less_nat_alt word_le_nat_alt)
  with g(2,3) have "unat p + unat n \<le> unat USER_LIMIT" by (simp add: word_le_nat_alt word_less_nat_alt)
  with g(1,2) show sp: "user_span p n" by (simp add: user_span_def)
  have n: "unat n \<le> 2 ^ 48" using sp by (simp add: user_span_def USER_LIMIT_def)
  fix i assume i: "i < unat n"
  from byte_page_visited [OF sp i] show "mapped s (p + word_of_nat i)"
  proof
    assume "\<exists>k. 4096 * k < unat n \<and> same_page (p + 4096 * word_of_nat k) (p + word_of_nat i)"
    then obtain k where k: "4096 * k < unat n" "same_page (p + 4096 * word_of_nat k) (p + word_of_nat i)" by blast
    then have "4096 * word_of_nat k \<in> set (page_addrs 0 n)" using page_offsets [OF n] by blast
    then have "mapped s (p + 4096 * word_of_nat k)" using g(4) by (auto simp: list_all_iff intro: mapped_translated)
    with mapped_same_page [OF k(2)] show ?thesis by blast
  next
    assume "same_page (p + n - 1) (p + word_of_nat i)"
    moreover have "n \<noteq> 0" using i by auto
    ultimately show ?thesis using g(5) mapped_translated mapped_same_page by blast
  qed
qed

lemma user_range_complete:
  assumes "user_span p n" "\<And>i. i < unat n \<Longrightarrow> mapped s (p + word_of_nat i)" "no_frame_0 s"
  shows "user_range_ok p n s"
proof -
  have t: "vmm_virt_to_phys (p + word_of_nat i) s \<noteq> 0" if "i < unat n" for i
    using assms(2) [OF that] assms(3) by (simp add: mapped_def no_frame_0_def)
  have n: "unat n \<le> 2 ^ 48" using assms(1) by (simp add: user_span_def USER_LIMIT_def)
  have "unat (USER_LIMIT - p) = unat USER_LIMIT - unat p"
    using assms(1) by (intro unat_sub_exact) (simp add: user_span_def word_less_nat_alt word_le_nat_alt)
  then have "\<not> USER_LIMIT - p < n" using assms(1) unfolding word_less_nat_alt user_span_def by linarith
  moreover have "p \<noteq> 0" using assms(1) by (auto simp: user_span_def USER_BASE_def)
  moreover have "list_all (\<lambda>off. vmm_virt_to_phys (p + off) s \<noteq> 0) (page_addrs 0 n)"
    unfolding list_all_iff page_offsets [OF n] using t by (auto simp flip: of_nat_mult) (metis of_nat_mult of_nat_numeral t)
  moreover have "n \<noteq> 0 \<longrightarrow> vmm_virt_to_phys (p + n - 1) s \<noteq> 0"
  proof
    assume "n \<noteq> 0"
    then have "0 < unat n" by (simp add: unat_gt_0)
    moreover from this have "p + n - 1 = p + word_of_nat (unat n - 1)" by (simp add: of_nat_diff)
    ultimately show "vmm_virt_to_phys (p + n - 1) s \<noteq> 0" using t [of "unat n - 1"] by (simp add: add_diff_eq)
  qed
  ultimately show ?thesis using assms(1) by (auto simp: user_range_ok_def user_span_def not_less not_le)
qed

subsection \<open>Memory through a window\<close>

text \<open>
  Memory seen through loads and stores at the addresses of a window: a store reaches the address it
  names and no other one of the window. \<open>inv\<close> is what the provider needs for that.
\<close>

locale byte_window =
  fixes inv :: "'s \<Rightarrow> bool" and get :: "'a \<Rightarrow> 's \<Rightarrow> u8" and put :: "'a \<Rightarrow> u8 \<Rightarrow> 's \<Rightarrow> 's" and W :: "'a set"
  assumes put_inv: "inv s \<Longrightarrow> a \<in> W \<Longrightarrow> inv (put a b s)"
    and get_put: "inv s \<Longrightarrow> a \<in> W \<Longrightarrow> a' \<in> W \<Longrightarrow> get a' (put a b s) = (if a' = a then b else get a' s)"
begin

lemma puts_inv: "inv s \<Longrightarrow> set as \<subseteq> W \<Longrightarrow> inv (fold (\<lambda>(a, b). put a b) (zip as bs) s)"
proof (induction as arbitrary: s bs)
  case (Cons a as)
  then show ?case by (cases bs) (auto simp: put_inv)
qed simp

lemma get_puts_other:
  "inv s \<Longrightarrow> set as \<subseteq> W \<Longrightarrow> a' \<in> W - set as \<Longrightarrow> get a' (fold (\<lambda>(a, b). put a b) (zip as bs) s) = get a' s"
proof (induction as arbitrary: s bs)
  case (Cons a as)
  then show ?case by (cases bs) (auto simp: put_inv get_put)
qed simp

lemma gets_puts:
  "inv s \<Longrightarrow> set as \<subseteq> W \<Longrightarrow> distinct as \<Longrightarrow> length bs = length as \<Longrightarrow>
    map (\<lambda>a. get a (fold (\<lambda>(a, b). put a b) (zip as bs) s)) as = bs"
proof (induction as arbitrary: s bs)
  case (Cons a as)
  then obtain b bs' where bs: "bs = b # bs'" by (cases bs) auto
  let ?t = "put a b s"
  have t: "inv ?t" using Cons.prems by (simp add: put_inv)
  have "get a (fold (\<lambda>(a, b). put a b) (zip as bs') ?t) = get a ?t"
    by (rule get_puts_other [OF t]) (use Cons.prems in auto)
  also have "\<dots> = b" using Cons.prems by (simp add: get_put)
  finally show ?case using Cons.IH [OF t, of bs'] Cons.prems bs by simp
qed simp

end

lemma store_keeps_tables:
  fixes b :: u8
  assumes "vm_ok (cr3 s) s" "frame_of a \<notin> table_frames (mem s) (cr3 s)"
  defines "t \<equiv> s\<lparr>mem := (mem s)(a := b)\<rparr>"
  shows "vm_ok (cr3 s) t" "\<And>w. vmm_virt_to_phys w t = vmm_virt_to_phys w s"
    "table_frames (mem t) (cr3 s) = table_frames (mem s) (cr3 s)" "entry_of (mem t) (cr3 s) = entry_of (mem s) (cr3 s)"
proof -
  have same: "mem t x = mem s x" if "path q" "walk (mem s) (cr3 s) q \<noteq> 0" "frame_of x = frame_of (walk (mem s) (cr3 s) q)" for q x
    using assms(2) that by (auto simp: t_def table_frames_def)
  have p: "pmm_ok t" "only_pmm s t" "free_frames t \<subseteq> free_frames s"
    using vm_okD(1) [OF assms(1)] by (simp_all add: t_def free_frames_def)
  note f = space_frame [OF assms(1) p same]
  show "vm_ok (cr3 s) t" "entry_of (mem t) (cr3 s) = entry_of (mem s) (cr3 s)" by (rule f; assumption)+
  then show "\<And>w. vmm_virt_to_phys w t = vmm_virt_to_phys w s"
    by (simp add: vmm_virt_to_phys_def vmm_virt_to_phys_in_def read_cr3_def virt_to_phys_entry) (simp add: t_def)
  have w: "walk (mem t) (cr3 s) q = walk (mem s) (cr3 s) q" if "path q" for q
    by (rule f(2)) (assumption | rule that)+
  show "table_frames (mem t) (cr3 s) = table_frames (mem s) (cr3 s)"
    unfolding table_frames_def using w by (metis (no_types, lifting))
qed

interpretation user_mem: byte_window "user_window W" vload vstore W for W
proof
  fix s :: "'a vmm_scheme" and a b
  assume inv: "user_window W s" and a: "a \<in> W"
  let ?p = "vmm_virt_to_phys a s"
  note k = store_keeps_tables [where s = s and a = ?p and b = b]
  have pre: "vm_ok (cr3 s) s" "frame_of ?p \<notin> table_frames (mem s) (cr3 s)"
    using inv a by (auto simp: user_window_def)
  note k = k [OF pre]
  show "user_window W (vstore a b s)"
    using inv k by (simp add: user_window_def vstore_def)
  fix a' assume "a' \<in> W"
  with inv a have "vmm_virt_to_phys a' s = ?p \<longleftrightarrow> a' = a" by (auto simp: user_window_def inj_on_def)
  then show "vload a' (vstore a b s) = (if a' = a then b else vload a' s)"
    using k(2) by (simp add: vload_def vstore_def)
qed

lemma store_bytes_fold:
  "store_bytes p bs s = fold (\<lambda>(a, b). vstore a b) (zip (map (\<lambda>i. p + word_of_nat i) [0..<length bs]) bs) s"
proof (induction bs arbitrary: p s)
  case (Cons b bs)
  have "map (\<lambda>i. p + word_of_nat i) [0..<length (b # bs)] = p # map (\<lambda>i. p + 1 + word_of_nat i) [0..<length bs]"
    by (simp add: upt_conv_Cons map_Suc_upt [symmetric] add.assoc del: upt_Suc)
  with Cons show ?case by simp
qed simp

subsection \<open>Strings\<close>

lemma page_addrs_0_1: "page_addrs 0 (1::u64) = [0]"
  by (simp add: page_addrs_def)

lemma user_byte_ok:
  "user_range_ok w 1 s \<longleftrightarrow> USER_BASE \<le> w \<and> w < USER_LIMIT \<and> vmm_virt_to_phys w s \<noteq> 0"
proof -
  have "1 \<le> USER_LIMIT - w" if "w < USER_LIMIT"
  proof -
    from that have "unat (USER_LIMIT - w) = unat USER_LIMIT - unat w"
      by (intro unat_sub_exact) (simp add: word_less_nat_alt word_le_nat_alt)
    with that show ?thesis by (simp add: word_le_nat_alt word_less_nat_alt)
  qed
  moreover have "w \<noteq> 0" if "USER_BASE \<le> w" using that by (auto simp: USER_BASE_def)
  ultimately show ?thesis
    by (auto simp: user_range_ok_def page_addrs_0_1 not_less not_le)
qed

lemma bytes_no_wrap:
  assumes "\<And>l. l \<le> j \<Longrightarrow> USER_BASE \<le> p + word_of_nat l \<and> p + word_of_nat l < USER_LIMIT" "l \<le> j"
  shows "unat (p + word_of_nat l) = unat p + l"
  using assms(2)
proof (induction l)
  case (Suc l)
  have "unat (p + word_of_nat l) + 1 < 2 ^ 64"
    using assms(1) [of l] Suc.prems by (simp add: word_less_nat_alt USER_LIMIT_def)
  then have "unat (p + word_of_nat l + 1) = unat (p + word_of_nat l) + 1" by (subst unat_add_exact) simp_all
  with Suc show ?case by (simp add: ac_simps)
qed simp

lemma user_bytes_range:
  assumes "\<And>l. l \<le> j \<Longrightarrow> user_range_ok (p + word_of_nat l) 1 s" "j < 2 ^ 63"
  shows "user_range_ok p (word_of_nat (Suc j)) s"
proof -
  have b: "USER_BASE \<le> p + word_of_nat l" "p + word_of_nat l < USER_LIMIT" "vmm_virt_to_phys (p + word_of_nat l) s \<noteq> 0"
    if "l \<le> j" for l
    using assms(1) [OF that] by (simp_all add: user_byte_ok)
  have w: "unat (p + word_of_nat j) = unat p + j" using b by (intro bytes_no_wrap [of j]) simp_all
  have n: "unat (word_of_nat (Suc j) :: u64) = Suc j" using assms(2) by (intro unat_word_of_nat64) simp
  have lim: "unat p + Suc j \<le> unat USER_LIMIT" using b(2) [of j] w by (simp add: word_less_nat_alt)
  have sp: "user_span p (word_of_nat (Suc j))"
    using b(1,2) [of 0] lim n by (simp add: user_span_def)
  have n48: "unat (word_of_nat (Suc j) :: u64) \<le> 2 ^ 48" using lim n by (simp add: USER_LIMIT_def)
  have "unat (USER_LIMIT - p) = unat USER_LIMIT - unat p"
    using b(2) [of 0] by (intro unat_sub_exact) (simp add: word_less_nat_alt word_le_nat_alt)
  then have r: "\<not> USER_LIMIT - p < word_of_nat (Suc j)" using lim n unfolding word_less_nat_alt by linarith
  have "vmm_virt_to_phys (p + off) s \<noteq> 0" if "off \<in> set (page_addrs 0 (word_of_nat (Suc j)))" for off
  proof -
    from that obtain k where k: "off = 4096 * word_of_nat k" "4096 * k < Suc j" unfolding page_offsets [OF n48] n by blast
    then have "off = word_of_nat (4096 * k)" "4096 * k \<le> j" by simp_all
    then show ?thesis using b(3) by blast
  qed
  moreover have "p + word_of_nat (Suc j) - 1 = p + word_of_nat j" by simp
  moreover have "p \<noteq> 0" using b(1) [of 0] by (auto simp: USER_BASE_def)
  ultimately show ?thesis using b(1,2) [of 0] b(3) [of j] r
    unfolding user_range_ok_def by (auto simp: list_all_iff not_le not_less)
qed

lemma string_at_Suc:
  "string_at p (Suc j) s \<longleftrightarrow> user_range_ok p 1 s \<and> vload p s \<noteq> 0 \<and> string_at (p + 1) j s"
  unfolding string_at_def less_Suc_eq_le [symmetric] All_less_Suc2 by (auto simp: add.assoc)

lemma strlen_from_iff:
  "strlen_user_from n p i s = Inr k \<longleftrightarrow> (\<exists>j < n. k = i + word_of_nat j \<and> string_at (p + i) j s)"
proof (induction n arbitrary: i)
  case (Suc n)
  have s0: "string_at q 0 s \<longleftrightarrow> user_range_ok q 1 s \<and> vload q s = 0" for q by (simp add: string_at_def)
  have "(\<exists>j < Suc n. k = i + word_of_nat j \<and> string_at (p + i) j s) \<longleftrightarrow>
      k = i \<and> string_at (p + i) 0 s \<or> (\<exists>j < n. k = i + 1 + word_of_nat j \<and> string_at (p + i) (Suc j) s)"
    by (subst Ex_less_Suc2) (simp add: add.assoc)
  then show ?case using Suc.IH [of "i + 1"] by (auto simp: s0 string_at_Suc add.assoc)
qed simp

lemma strlen_from_error: "strlen_user_from n p i s = Inl e \<Longrightarrow> e = - ORE_EFAULT \<or> e = - ORE_EINVAL"
  by (induction n arbitrary: i) (auto split: if_splits)

subsection \<open>An example address space\<close>

lemma demo_user_space:
  shows "vm_ok 0x100000 demo_user" "cr3 demo_user = 0x100000"
    "unat w < 2 ^ 48 \<Longrightarrow> entry_of (mem demo_user) 0x100000 w =
      (if 0x8000000000 \<le> w \<and> w < 0x8000002000
       then Some (leaf_entry (0x200000 + (align_down w PAGE_SIZE - 0x8000000000)) 7) else None)"
    "table_frames (mem demo_user) 0x100000 \<subseteq> {..<272}"
proof -
  have b: "unat (0x8000000000::u64) + unat (0x2000::u64) \<le> 2 ^ 48" by simp
  note r = map_in_root_refines [OF demo_vmm_ok b, of "0x200000" 7]
  have "affordable (wanted (pages_of 0x8000000000 0x2000)) 0x100000 demo_vmm"
    by (rule demo_vmm_affordable) (simp add: demo_vmm_supply)
  then obtain s where s: "map_in_root 0x100000 0x8000000000 0x200000 0x2000 7 demo_vmm = Inr (0, s)"
    by (rule map_in_root_affordable [OF demo_vmm_ok _ order_refl])
  then have d: "demo_user = s" by (simp add: demo_user_def vmm_map_in_def)
  have g: "grows 0x100000 (\<Union>v \<in> set (page_addrs (align_down 0x8000000000 PAGE_SIZE) (align_up (0x8000000000 + 0x2000) PAGE_SIZE)).
      touched (mem demo_vmm) 0x100000 v) demo_vmm s"
    using r s by simp
  note ok = growsD(1) [OF g] and f = only_pmm_fields [OF growsD(2) [OF g]]
  have "entry_of (mem demo_vmm) 0x100000 w = None" for w
    by (simp add: entry_of_def find_pte_def find_table_def read64_def read_bytes_def numeral_eq_Suc)
  then show "unat w < 2 ^ 48 \<Longrightarrow> entry_of (mem demo_user) 0x100000 w = (if 0x8000000000 \<le> w \<and> w < 0x8000002000
       then Some (leaf_entry (0x200000 + (align_down w PAGE_SIZE - 0x8000000000)) 7) else None)"
    using r s by (simp add: d in_pages_def align_down_def align_up_def)
  show "table_frames (mem demo_user) 0x100000 \<subseteq> {..<272}"
    using vm_okD(5) [OF ok] f(1) by (auto simp: d table_frames_def)
  show "vm_ok 0x100000 demo_user" using ok by (simp add: d)
  show "cr3 demo_user = 0x100000" using f(4) by (simp add: d demo_vmm_def bitmap_set_def)
qed

lemma demo_translation:
  assumes "0x8000000000 \<le> w" "w < 0x8000002000"
  shows "unat (vmm_virt_to_phys w demo_user) = unat w - 0x7fffe00000"
proof -
  have w: "0x8000000000 \<le> unat w" "unat w < 0x8000002000" using assms by (simp_all add: word_le_nat_alt word_less_nat_alt)
  let ?a = "align_down w PAGE_SIZE"
  have a: "unat ?a = unat w div 4096 * 4096" by (simp add: unat_align_down)
  have d: "unat w div 4096 = 0x8000000 \<or> unat w div 4096 = 0x8000001" using w by linarith
  have s: "unat (?a - 0x8000000000) = unat w div 4096 * 4096 - 0x8000000000"
    using a w d by (subst unat_sub_exact) (auto simp: word_le_nat_alt)
  have p: "unat (0x200000 + (?a - 0x8000000000)) = 0x200000 + (unat w div 4096 * 4096 - 0x8000000000)"
    using s d by (subst unat_add_exact) auto
  have e: "entry_of (mem demo_user) 0x100000 w = Some (leaf_entry (0x200000 + (?a - 0x8000000000)) 7)"
    using demo_user_space(3) [of w] assms w by simp
  have f: "(7::u64) AND PTE_ADDR_MASK = 0" by (simp add: PTE_ADDR_MASK_def)
  have "virt_to_phys (mem demo_user) 0x100000 w = 0x200000 + (?a - 0x8000000000) + (w AND (PAGE_SIZE - 1))"
    by (rule translate_leaf [OF e _ _ f]) (use p d in auto)
  moreover have "unat (w AND mask 12) = unat w mod 4096"
    by (simp add: take_bit_eq_mask [symmetric] take_bit_eq_mod unat_mod_distrib)
  then have "unat (w AND (PAGE_SIZE - 1)) = unat w mod 4096" by (simp add: mask_12)
  ultimately have "unat (virt_to_phys (mem demo_user) 0x100000 w)
      = 0x200000 + (unat w div 4096 * 4096 - 0x8000000000) + unat w mod 4096"
    using p d by (simp, subst unat_add_exact) auto
  also have "\<dots> = unat w - 0x7fffe00000" using d mult_div_mod_eq [of 4096 "unat w"] w by linarith
  finally show ?thesis by (simp add: vmm_virt_to_phys_def vmm_virt_to_phys_in_def read_cr3_def demo_user_space(2))
qed

lemma demo_mapped:
  "unat w < 2 ^ 48 \<Longrightarrow> mapped demo_user w \<longleftrightarrow> 0x8000000000 \<le> w \<and> w < 0x8000002000"
  using demo_user_space(3) [of w] by (simp add: mapped_def demo_user_space(2))

lemma demo_translated:
  assumes "w \<in> {0x8000000000..<0x8000002000}"
  shows "vmm_virt_to_phys w demo_user \<noteq> 0"
proof
  assume "vmm_virt_to_phys w demo_user = 0"
  with demo_translation [of w] assms show False by (auto simp: word_le_nat_alt)
qed

lemma demo_ranges:
  "user_range_ok 0x8000000010 0x1ff0 demo_user" "\<not> user_range_ok 0x8000000010 0x2000 demo_user"
  "user_range_ok 0x8000000ffe 4 demo_user"
proof -
  note t = demo_translated
  have pg: "page_addrs 0 (0x1ff0::u64) = [0, 4096]" "page_addrs 0 (4::u64) = [0]"
    by (simp_all add: page_addrs_def upt_conv_Cons)
  show "user_range_ok 0x8000000010 0x1ff0 demo_user" "user_range_ok 0x8000000ffe 4 demo_user"
    by (simp_all add: user_range_ok_def USER_BASE_def USER_LIMIT_def pg t)
  show "\<not> user_range_ok 0x8000000010 0x2000 demo_user"
  proof
    assume "user_range_ok 0x8000000010 0x2000 demo_user"
    from user_range_sound(2) [OF this, of "0x1ff0"] demo_mapped [of "0x8000002000"] show False by simp
  qed
qed

lemma demo_window: "user_window {0x8000000000..<0x8000002000} demo_user"
proof -
  have tr: "unat (vmm_virt_to_phys w demo_user) = unat w - 0x7fffe00000"
    "0x8000000000 \<le> unat w" if "w \<in> {0x8000000000..<0x8000002000}" for w
    using demo_translation [of w] that by (auto simp: word_le_nat_alt)
  have "inj_on (\<lambda>w. vmm_virt_to_phys w demo_user) {0x8000000000..<0x8000002000}"
  proof (rule inj_onI)
    fix v w assume vw: "v \<in> {0x8000000000..<0x8000002000}" "w \<in> {0x8000000000..<0x8000002000}"
      "vmm_virt_to_phys v demo_user = vmm_virt_to_phys w demo_user"
    then have "unat v - 0x7fffe00000 = unat w - 0x7fffe00000" using tr(1) [OF vw(1)] tr(1) [OF vw(2)] by simp
    then have "unat v = unat w" using tr(2) [OF vw(1)] tr(2) [OF vw(2)] by linarith
    then show "v = w" by (simp add: unat_eq_iff)
  qed
  moreover have "frame_of (vmm_virt_to_phys w demo_user) \<notin> table_frames (mem demo_user) 0x100000"
    if "w \<in> {0x8000000000..<0x8000002000}" for w
    using demo_user_space(4) tr [OF that] by (auto simp: frame_of_def)
  ultimately show ?thesis by (simp add: user_window_def demo_user_space(1,2))
qed

subsection \<open>Stores\<close>

lemma store_bytes_frame:
  assumes "user_window W s" "\<And>i. i < length bs \<Longrightarrow> p + word_of_nat i \<in> W"
  shows "vmm_virt_to_phys w (store_bytes p bs s) = vmm_virt_to_phys w s"
    "(\<And>i. i < length bs \<Longrightarrow> a \<noteq> vmm_virt_to_phys (p + word_of_nat i) s) \<Longrightarrow> mem (store_bytes p bs s) a = mem s a"
proof -
  have "vmm_virt_to_phys w (store_bytes p bs s) = vmm_virt_to_phys w s
    \<and> ((\<forall>i < length bs. a \<noteq> vmm_virt_to_phys (p + word_of_nat i) s) \<longrightarrow> mem (store_bytes p bs s) a = mem s a)"
    using assms
  proof (induction bs arbitrary: p s)
    case (Cons c cs)
    have q: "p \<in> W" using Cons.prems(2) [of 0] by simp
    have u1: "user_window W (vstore p c s)" by (rule user_mem.put_inv [OF Cons.prems(1) q])
    have tr: "vmm_virt_to_phys w (vstore p c s) = vmm_virt_to_phys w s" for w
      using store_keeps_tables(2) [where s = s and a = "vmm_virt_to_phys p s" and w = w and b = c] Cons.prems(1) q
      by (simp add: user_window_def vstore_def)
    have "p + 1 + word_of_nat i \<in> W" if "i < length cs" for i
      using Cons.prems(2) [of "Suc i"] that by (simp add: add.assoc)
    note ih = Cons.IH [OF u1 this]
    show ?case
    proof (intro conjI impI)
      show "vmm_virt_to_phys w (store_bytes p (c # cs) s) = vmm_virt_to_phys w s" using ih tr by simp
      assume a: "\<forall>i < length (c # cs). a \<noteq> vmm_virt_to_phys (p + word_of_nat i) s"
      have "a \<noteq> vmm_virt_to_phys (p + 1 + word_of_nat i) s" if "i < length cs" for i
        using a [rule_format, of "Suc i"] that by (simp add: add.assoc)
      moreover have "a \<noteq> vmm_virt_to_phys p s" using a [rule_format, of 0] by simp
      ultimately show "mem (store_bytes p (c # cs) s) a = mem s a" using ih tr by (simp add: vstore_def)
    qed
  qed simp
  then show "vmm_virt_to_phys w (store_bytes p bs s) = vmm_virt_to_phys w s"
    "(\<And>i. i < length bs \<Longrightarrow> a \<noteq> vmm_virt_to_phys (p + word_of_nat i) s) \<Longrightarrow> mem (store_bytes p bs s) a = mem s a"
    by blast+
qed

lemma demo_addresses: "i < 4 \<Longrightarrow> (0x8000000ffe::u64) + word_of_nat i \<in> {0x8000000000..<0x8000002000}"
proof -
  assume "i < 4"
  then consider "i = 0" | "i = 1" | "i = 2" | "i = 3" by linarith
  then show ?thesis by cases simp_all
qed

subsection \<open>User page allocations\<close>

lemma alloc_okD:
  assumes "alloc_ok q"
  shows "length (user_allocs q) = ORE_MAX_USER_ALLOCS"
    "pages_in_use q = unat (user_alloc_pages_total q)" "unat (user_alloc_pages_total q) \<le> 1024"
    "unat USER_ALLOC_BASE \<le> unat (user_alloc_next q)" "unat (user_alloc_next q) \<le> unat USER_ALLOC_LIMIT"
    "4096 dvd unat (user_alloc_next q)"
    "region_used q i \<Longrightarrow> 1 \<le> region_pages q i" "region_used q i \<Longrightarrow> unat USER_ALLOC_BASE \<le> region_start q i"
    "region_used q i \<Longrightarrow> region_start q i + 4096 * region_pages q i \<le> unat (user_alloc_next q)"
    "region_used q i \<Longrightarrow> region_used q j \<Longrightarrow> i \<noteq> j \<Longrightarrow> region q i \<inter> region q j = {}"
  using assms unfolding alloc_ok_def by blast+

lemma finite_regions [simp]: "finite {i. region_used q i}"
  by (rule finite_subset [of _ "{..<ORE_MAX_USER_ALLOCS}"]) (auto simp: region_used_def)

lemma put_region_at:
  assumes "length (user_allocs q) = ORE_MAX_USER_ALLOCS" "slot < ORE_MAX_USER_ALLOCS" "unat cnt \<le> 1024"
  shows "region_used (put_region slot va phys cnt q) i \<longleftrightarrow> i = slot \<or> region_used q i"
    "region_start (put_region slot va phys cnt q) i = (if i = slot then unat va else region_start q i)"
    "region_pages (put_region slot va phys cnt q) i = (if i = slot then unat cnt else region_pages q i)"
proof -
  have "unat (ucast cnt :: u32) = unat cnt" using assms(3) by (simp add: unsigned_ucast_eq unsigned_take_bit_eq take_bit_nat_eq_self)
  then show "region_used (put_region slot va phys cnt q) i \<longleftrightarrow> i = slot \<or> region_used q i"
    "region_start (put_region slot va phys cnt q) i = (if i = slot then unat va else region_start q i)"
    "region_pages (put_region slot va phys cnt q) i = (if i = slot then unat cnt else region_pages q i)"
    using assms(1,2) by (auto simp: put_region_def region_used_def region_start_def region_pages_def nth_list_update)
qed

lemma user_alloc_va_ok:
  assumes "alloc_ok q"
  shows "user_alloc_va q = user_alloc_next q"
proof -
  note ok = alloc_okD(4-6) [OF assms]
  have "unat ((user_alloc_next q + 4095) AND NOT 4095) = unat (user_alloc_next q)"
  proof -
    have u: "unat (user_alloc_next q + 4095) = unat (user_alloc_next q) + 4095"
      using ok(2) by (subst unat_add_exact) (simp_all add: USER_ALLOC_LIMIT_def USER_ALLOC_BASE_def)
    obtain k where k: "unat (user_alloc_next q) = 4096 * k" using ok(3) by (auto elim: dvdE)
    have "unat ((user_alloc_next q + 4095) AND NOT (mask 12)) = (unat (user_alloc_next q) + 4095) div 4096 * 4096"
      using unat_and_not_mask [of "user_alloc_next q + 4095" 12] u by simp
    with k show ?thesis by (simp add: mask_12)
  qed
  then have "(user_alloc_next q + 4095) AND NOT 4095 = user_alloc_next q" by (simp only: unat_eq_iff)
  moreover have "\<not> user_alloc_next q < USER_ALLOC_BASE" using ok(1) by (simp add: word_less_nat_alt)
  ultimately show ?thesis by (simp add: user_alloc_va_def Let_def)
qed

lemma put_region_ok:
  assumes ok: "alloc_ok q" and slot: "slot < ORE_MAX_USER_ALLOCS" "\<not> region_used q slot"
    and cnt: "1 \<le> unat cnt" "unat cnt \<le> 1024" "unat (user_alloc_pages_total q) + unat cnt \<le> 1024"
    and room: "unat (user_alloc_next q) + 4096 * unat cnt \<le> unat USER_ALLOC_LIMIT"
  shows "alloc_ok (put_region slot (user_alloc_next q) phys cnt q)" (is "alloc_ok ?r")
proof -
  note d = alloc_okD [OF ok]
  note at = put_region_at [OF d(1) slot(1) cnt(2)]
  have "unat (cnt * 4096) = unat cnt * 4096" using cnt(2) by (subst unat_mult_exact) simp_all
  then have nx: "unat (user_alloc_next ?r) = unat (user_alloc_next q) + 4096 * unat cnt"
    using room by (simp add: put_region_def, subst unat_add_exact) (simp_all add: USER_ALLOC_LIMIT_def USER_ALLOC_BASE_def)
  have tot: "unat (user_alloc_pages_total ?r) = unat (user_alloc_pages_total q) + unat cnt"
    using cnt(3) by (simp add: put_region_def, subst unat_add_exact) simp_all
  have "{i. region_used ?r i} = insert slot {i. region_used q i}" by (auto simp: at)
  then have "pages_in_use ?r = region_pages ?r slot + (\<Sum>i \<in> {i. region_used q i}. region_pages ?r i)"
    using slot(2) unfolding pages_in_use_def by (simp only: sum.insert finite_regions mem_Collect_eq not_False_eq_True)
  moreover have "(\<Sum>i \<in> {i. region_used q i}. region_pages ?r i) = pages_in_use q"
    unfolding pages_in_use_def using slot(2) by (intro sum.cong) (auto simp: at)
  ultimately have use: "pages_in_use ?r = pages_in_use q + unat cnt"
    by (simp add: at)
  have new: "region ?r slot = {unat (user_alloc_next q) ..< unat (user_alloc_next q) + 4096 * unat cnt}"
    and old: "i \<noteq> slot \<Longrightarrow> region ?r i = region q i" for i
    by (simp_all add: region_def at)
  have below: "region q i \<inter> region ?r slot = {}" if "region_used q i" for i
    unfolding new using d(9) [OF that] by (auto simp: region_def)
  have "region ?r i \<inter> region ?r j = {}" if "region_used ?r i" "region_used ?r j" "i \<noteq> j" for i j
    using that below [of i] below [of j] d(10) [of i j] old [of i] old [of j] unfolding at
    by (cases "i = slot"; cases "j = slot"; simp add: Int_commute)
  moreover have "1 \<le> region_pages ?r i" "unat USER_ALLOC_BASE \<le> region_start ?r i"
      "region_start ?r i + 4096 * region_pages ?r i \<le> unat (user_alloc_next ?r)" if "region_used ?r i" for i
    using that d(4) d(7-9) [of i] cnt(1) unfolding at nx by (simp_all split: if_splits) linarith+
  moreover have "4096 dvd unat (user_alloc_next ?r)" "length (user_allocs ?r) = ORE_MAX_USER_ALLOCS"
    using d(1,6) unfolding nx by (simp_all add: put_region_def)
  ultimately show ?thesis
    unfolding alloc_ok_def use tot using d(2,4) cnt(3) room nx by simp
qed

lemma zero_alloc_unused [simp]: "ua_used zero_alloc = 0" by (simp add: zero_alloc_def)

lemma drop_region_at:
  assumes "length (user_allocs q) = ORE_MAX_USER_ALLOCS" "k < ORE_MAX_USER_ALLOCS"
  shows "region_used (drop_region k q) i \<longleftrightarrow> i \<noteq> k \<and> region_used q i"
    "i \<noteq> k \<Longrightarrow> region_start (drop_region k q) i = region_start q i"
    "i \<noteq> k \<Longrightarrow> region_pages (drop_region k q) i = region_pages q i"
  using assms by (auto simp: drop_region_def region_used_def region_start_def region_pages_def nth_list_update)

lemma drop_region_ok:
  assumes ok: "alloc_ok q" and k: "region_used q k"
  shows "alloc_ok (drop_region k q)" (is "alloc_ok ?r")
    "unat (user_alloc_pages_total (drop_region k q)) = unat (user_alloc_pages_total q) - region_pages q k"
proof -
  note d = alloc_okD [OF ok]
  have lt: "k < ORE_MAX_USER_ALLOCS" using k by (simp add: region_used_def)
  note at = drop_region_at [OF d(1) lt]
  have "{i. region_used q i} = insert k {i. region_used ?r i}" using k by (auto simp: at)
  then have "pages_in_use q = region_pages q k + (\<Sum>i \<in> {i. region_used ?r i}. region_pages q i)"
    unfolding pages_in_use_def using at(1) [of k]
    by (simp only: sum.insert finite_regions mem_Collect_eq not_False_eq_True simp_thms)
  moreover have "(\<Sum>i \<in> {i. region_used ?r i}. region_pages q i) = pages_in_use ?r"
    unfolding pages_in_use_def by (intro sum.cong) (auto simp: at)
  ultimately have use: "pages_in_use q = region_pages q k + pages_in_use ?r" by simp
  have le: "region_pages q k \<le> unat (user_alloc_pages_total q)" using use d(2) by simp
  have "unat (ucast (ua_pages (user_allocs q ! k)) :: u64) = region_pages q k" by (simp add: region_pages_def)
  with le show tot: "unat (user_alloc_pages_total ?r) = unat (user_alloc_pages_total q) - region_pages q k"
    by (simp add: drop_region_def unat_sub_exact word_le_nat_alt)
  have nx: "user_alloc_next ?r = user_alloc_next q" "length (user_allocs ?r) = ORE_MAX_USER_ALLOCS"
    using d(1) by (simp_all add: drop_region_def)
  have "region_used ?r i \<Longrightarrow> region ?r i = region q i" for i by (simp add: region_def at)
  then have "region ?r i \<inter> region ?r j = {}" if "region_used ?r i" "region_used ?r j" "i \<noteq> j" for i j
    using that d(10) [of i j] by (simp add: at)
  moreover have "1 \<le> region_pages ?r i" "unat USER_ALLOC_BASE \<le> region_start ?r i"
      "region_start ?r i + 4096 * region_pages ?r i \<le> unat (user_alloc_next q)" if "region_used ?r i" for i
    using that d(7-9) [of i] by (simp_all add: at)
  ultimately show "alloc_ok ?r"
    unfolding alloc_ok_def nx tot using use d(2-6) by simp
qed

lemma sched_view_processes: "sched_view t = sched_view s \<Longrightarrow> processes t = processes s"
  by (simp add: sched_view_def)

lemma free_slot:
  assumes "find (\<lambda>i. ua_used (user_allocs q ! i) = 0) [0..<ORE_MAX_USER_ALLOCS] = Some k"
  shows "k < ORE_MAX_USER_ALLOCS" "\<not> region_used q k"
  using assms by (auto simp: find_Some_iff region_used_def)

lemma room_bound:
  assumes "\<not> (va + cnt * 4096 < va \<or> USER_ALLOC_LIMIT < va + cnt * 4096)" "unat cnt \<le> 1024" "unat va \<le> unat USER_ALLOC_LIMIT"
  shows "unat va + 4096 * unat cnt \<le> unat USER_ALLOC_LIMIT"
proof -
  have m: "unat (cnt * 4096) = unat cnt * 4096" using assms(2) by (subst unat_mult_exact) simp_all
  have "unat (va + cnt * 4096) = unat va + unat cnt * 4096"
    using assms(2,3) m by (subst unat_add_exact) (simp_all add: USER_ALLOC_LIMIT_def USER_ALLOC_BASE_def)
  with assms(1) show ?thesis by (simp add: word_less_nat_alt)
qed

lemma alloc_refused: "r < 0 \<Longrightarrow> sched_view t = sched_view s \<Longrightarrow> alloc_result p cnt s (r, t)"
  unfolding alloc_result_def using sched_view_processes [of t s] by blast

lemma alloc_granted:
  assumes "alloc_ok (proc_at p s)" "p < length (processes s)" "\<not> (cnt = 0 \<or> 1024 < cnt)"
    "\<not> 1024 < user_alloc_pages_total (proc_at p s) + cnt"
    "find (\<lambda>i. ua_used (user_allocs (proc_at p s) ! i) = 0) [0..<ORE_MAX_USER_ALLOCS] = Some slot"
    "\<not> (user_alloc_va (proc_at p s) + cnt * 4096 < user_alloc_va (proc_at p s)
         \<or> USER_ALLOC_LIMIT < user_alloc_va (proc_at p s) + cnt * 4096)" "sched_view u = sched_view s"
  shows "alloc_result p cnt s (uint (user_alloc_va (proc_at p s)),
    update_proc p (\<lambda>q. q\<lparr>user_alloc_pages_total := user_alloc_pages_total q + cnt,
        user_alloc_next := user_alloc_va (proc_at p s) + cnt * 4096\<rparr>)
      (update_alloc p slot \<lparr>ua_virt = user_alloc_va (proc_at p s), ua_phys = phys, ua_pages = ucast cnt, ua_used = 1\<rparr> u))"
    (is "alloc_result p cnt s (_, ?t)")
proof -
  note d = alloc_okD [OF assms(1)]
  have va: "user_alloc_va (proc_at p s) = user_alloc_next (proc_at p s)" by (rule user_alloc_va_ok) fact
  have c: "1 \<le> unat cnt" "unat cnt \<le> 1024" using assms(3) by (auto simp: word_less_nat_alt unat_gt_0 Suc_le_eq)
  have "unat (user_alloc_pages_total (proc_at p s) + cnt) = unat (user_alloc_pages_total (proc_at p s)) + unat cnt"
    using d(3) c(2) by (subst unat_add_exact) simp_all
  then have q: "unat (user_alloc_pages_total (proc_at p s)) + unat cnt \<le> 1024" using assms(4) by (simp add: word_less_nat_alt)
  have "processes ?t = (processes s)[p := put_region slot (user_alloc_next (proc_at p s)) phys cnt (proc_at p s)]"
    using sched_view_processes [OF assms(7)] assms(2) unfolding va
    by (simp add: update_proc_def update_alloc_def put_region_def proc_at_def)
  moreover have "unat (user_alloc_next (proc_at p s)) + 4096 * unat cnt \<le> unat USER_ALLOC_LIMIT"
    by (rule room_bound [OF assms(6) [unfolded va] c(2) d(5)])
  ultimately show ?thesis
    using free_slot [OF assms(5)] c q unfolding alloc_result_def va by blast
qed

lemma user_alloc_result:
  assumes "alloc_ok (proc_at p s)" "current_proc s = Some p" "p < length (processes s)"
  shows "user_alloc_pages_sys cnt s = Inr x \<longrightarrow> alloc_result p cnt s x"
proof -
  have cur: "process_current s = Some p" using assms(2) by (simp add: process_current_def)
  define F where "F = find (\<lambda>i. ua_used (user_allocs (proc_at p s) ! i) = 0) [0..<ORE_MAX_USER_ALLOCS]"
  note granted = alloc_granted [OF assms(1,3), folded F_def]
  show ?thesis
    unfolding user_alloc_pages_sys_def cur F_def [symmetric] Let_def option.case
    by (auto simp: kbind_Inr_iff alloc_refused granted dest!: vmm_views split: prod.splits option.splits)
qed

lemma free_refused: "r < 0 \<Longrightarrow> sched_view t = sched_view s \<Longrightarrow> free_result p ptr cnt s (r, t)"
  unfolding free_result_def using sched_view_processes [of t s] by blast

lemma free_granted:
  assumes "p < length (processes s)" "sched_view u = sched_view s"
    "find (\<lambda>i. alloc_matches ptr cnt (user_allocs (proc_at p s) ! i)) [0..<ORE_MAX_USER_ALLOCS] = Some i"
  shows "free_result p ptr cnt s (0, update_alloc p i zero_alloc (update_proc p (\<lambda>q. q\<lparr>user_alloc_pages_total :=
              user_alloc_pages_total q - ucast (ua_pages (user_allocs (proc_at p s) ! i))\<rparr>) u))"
    (is "free_result p ptr cnt s (_, ?t)")
proof -
  have "processes ?t = (processes s)[p := drop_region i (proc_at p s)]"
    using sched_view_processes [OF assms(2)] assms(1)
    by (simp add: update_proc_def update_alloc_def drop_region_def proc_at_def)
  moreover have "region_used (proc_at p s) i" "ua_virt (user_allocs (proc_at p s) ! i) = ptr"
    "ua_pages (user_allocs (proc_at p s) ! i) = ucast cnt"
    using assms(3) by (auto simp: find_Some_iff alloc_matches_def region_used_def)
  ultimately show ?thesis unfolding free_result_def by blast
qed

lemma user_free_result:
  assumes "current_proc s = Some p" "p < length (processes s)"
  shows "user_free_pages_sys ptr cnt s = Inr x \<longrightarrow> free_result p ptr cnt s x"
proof -
  have cur: "process_current s = Some p" using assms(1) by (simp add: process_current_def)
  define F where "F = find (\<lambda>i. alloc_matches ptr cnt (user_allocs (proc_at p s) ! i)) [0..<ORE_MAX_USER_ALLOCS]"
  note granted = free_granted [OF assms(2), where ptr = ptr and cnt = cnt, folded F_def]
  show ?thesis
    unfolding user_free_pages_sys_def cur F_def [symmetric] Let_def option.case
    by (auto simp: kbind_Inr_iff free_refused granted dest!: vmm_views split: option.splits)
qed

lemma alloc_ok_cong:
  assumes "user_allocs r = user_allocs q" "user_alloc_next r = user_alloc_next q"
    "user_alloc_pages_total r = user_alloc_pages_total q" "alloc_ok q"
  shows "alloc_ok r"
  using assms
  by (simp add: alloc_ok_def pages_in_use_def region_def region_used_def region_start_def region_pages_def)

lemma fresh_alloc_ok:
  assumes "user_allocs q = replicate ORE_MAX_USER_ALLOCS zero_alloc" "user_alloc_next q = USER_ALLOC_BASE"
    "user_alloc_pages_total q = 0"
  shows "alloc_ok q"
proof -
  have "\<not> region_used q i" for i using assms(1) by (simp add: region_used_def)
  with assms show ?thesis
    by (simp add: alloc_ok_def pages_in_use_def USER_ALLOC_BASE_def USER_ALLOC_LIMIT_def)
qed

lemma alloc_step_ok:
  assumes ok: "alloc_ok (proc_at p s)" and cur: "current_proc s = Some p" and p: "p < length (processes s)"
    and step: "user_alloc_pages_sys n s = Inr (r, t) \<or> user_free_pages_sys a n s = Inr (r, t)"
  shows "alloc_ok (proc_at p t)" "length (processes t) = length (processes s)" "i \<noteq> p \<Longrightarrow> proc_at i t = proc_at i s"
proof -
  have keep: "\<exists>q. processes t = (processes s)[p := q] \<and> alloc_ok q" if "processes t = processes s"
    using that ok by (metis list_update_id proc_at_def)
  have "\<exists>q. processes t = (processes s)[p := q] \<and> alloc_ok q"
    using step
  proof
    assume "user_alloc_pages_sys n s = Inr (r, t)"
    with user_alloc_result [OF ok cur p] have "alloc_result p n s (r, t)" by blast
    then show ?thesis
      using keep put_region_ok [OF ok] unfolding alloc_result_def by blast
  next
    assume "user_free_pages_sys a n s = Inr (r, t)"
    with user_free_result [OF cur p] have "free_result p a n s (r, t)" by blast
    then show ?thesis
      using keep drop_region_ok(1) [OF ok] unfolding free_result_def by blast
  qed
  then show "alloc_ok (proc_at p t)" "length (processes t) = length (processes s)" "i \<noteq> p \<Longrightarrow> proc_at i t = proc_at i s"
    using p by (auto simp: proc_at_def)
qed

lemma alloc_run_ok:
  assumes "alloc_run p s t" "alloc_ok (proc_at p s)" "p < length (processes s)"
  shows "alloc_ok (proc_at p t) \<and> length (processes t) = length (processes s)"
  using assms
proof (induction rule: alloc_run.induct)
  case start
  then show ?case by simp
next
  case (alloc t n r u)
  then show ?case using alloc_step_ok(1,2) [of p t n r u] by simp
next
  case (free t a n r u)
  then show ?case using alloc_step_ok(1,2) [of p t n r u a] by simp
next
  case (other t u)
  then show ?case using alloc_ok_cong [of "proc_at p u" "proc_at p t"] by simp
qed

lemma demo_alloc_entry:
  "current_proc demo_alloc = Some 2" "length (processes demo_alloc) = 32"
  "proc_at 2 demo_alloc = put_region 0 0xa000003000 0x5000 3
     ((demo_entry 2 ORE_PROC_RUNNING)\<lparr>user_alloc_next := 0xa000003000\<rparr>)"
  by (simp_all add: demo_alloc_def demo_process_def update_proc_def proc_at_def put_region_def demo_entry_def
      zero_process_def)

lemma demo_alloc_ok: "alloc_ok (proc_at 2 demo_alloc)"
proof -
  let ?q = "(demo_entry 2 ORE_PROC_RUNNING)\<lparr>user_alloc_next := 0xa000003000\<rparr>"
  have u: "\<not> region_used ?q i" for i by (simp add: region_used_def demo_entry_def zero_process_def)
  have "alloc_ok ?q"
    using u by (simp add: alloc_ok_def pages_in_use_def demo_entry_def zero_process_def USER_ALLOC_BASE_def USER_ALLOC_LIMIT_def)
  from put_region_ok [OF this _ u, of 0 3 "0x5000"] show ?thesis
    unfolding demo_alloc_entry by (simp add: ORE_MAX_USER_ALLOCS_def demo_entry_def zero_process_def USER_ALLOC_BASE_def USER_ALLOC_LIMIT_def)
qed

lemma unmap_nothing: "mem t = (\<lambda>_. 0) \<Longrightarrow> unmap_pages 0x2000 vs t = Inr t"
proof -
  have "read64 (\<lambda>_. 0) a = 0" for a by (simp add: read64_def read_bytes_def upt_conv_Cons)
  then show "mem t = (\<lambda>_. 0) \<Longrightarrow> unmap_pages 0x2000 vs t = Inr t"
    by (induction vs) (simp_all add: pte_for_root_def next_table_def kbind_def Let_def)
qed

lemma demo_free: "\<exists>u. user_free_pages_sys 0xa000003000 3 demo_alloc = Inr (0, u)"
proof -
  have m: "mem demo_alloc = (\<lambda>_. 0)" "kernel_proc demo_alloc = Some 0" "proc_pml4 2 demo_alloc = 0x2000"
    by (simp_all add: demo_alloc_def demo_process_def update_proc_def proc_pml4_def proc_at_def demo_entry_def)
  have f: "find (\<lambda>i. alloc_matches 0xa000003000 3 (user_allocs (proc_at 2 demo_alloc) ! i)) [0..<ORE_MAX_USER_ALLOCS] = Some 0"
    unfolding demo_alloc_entry
    by (simp add: ORE_MAX_USER_ALLOCS_def alloc_matches_def put_region_def demo_entry_def zero_process_def
        upt_conv_Cons zero_alloc_def)
  have cur: "process_current demo_alloc = Some 2" by (simp add: process_current_def demo_alloc_entry)
  have a: "user_allocs (proc_at 2 demo_alloc) ! 0 = \<lparr>ua_virt = 0xa000003000, ua_phys = 0x5000, ua_pages = 3, ua_used = 1\<rparr>"
    unfolding demo_alloc_entry by (simp add: put_region_def demo_entry_def zero_process_def ORE_MAX_USER_ALLOCS_def)
  have "\<exists>u. vmm_unmap_in 0x2000 0xa000003000 0x3000 demo_alloc = Inr u"
    by (simp add: vmm_unmap_in_def unmap_in_root_def unmap_nothing m)
  then show ?thesis
    unfolding user_free_pages_sys_def cur option.case f
    by (auto simp: process_kernel_def a m kbind_def Let_def)
qed

subsection \<open>Properties\<close>

text \<open>
  C23. A range that \<open>user_range_ok\<close> accepts lies in the user half of the address space without
  wrapping around, and every byte of it is mapped, although the loop looks at one byte per page and at
  the last byte only. When no page is mapped to the frame 0, it accepts every such range.
\<close>

theorem user_range_exact:
  "(user_range_ok p n s \<longrightarrow> user_span p n \<and> (\<forall>i < unat n. mapped s (p + word_of_nat i)))
    \<and> (no_frame_0 s \<longrightarrow> user_span p n \<longrightarrow> (\<forall>i < unat n. mapped s (p + word_of_nat i)) \<longrightarrow> user_range_ok p n s)"
  using user_range_sound [of p n s] user_range_complete [of p n s] by blast

theorem user_range_exact_witness:
  "user_range_ok 0x8000000010 0x1ff0 demo_user \<and> mapped demo_user (0x8000000010 + word_of_nat 0x1fef)
     \<and> \<not> user_range_ok 0x8000000010 0x2000 demo_user"
proof -
  have "\<forall>i < unat (0x1ff0::u64). mapped demo_user (0x8000000010 + word_of_nat i)"
    using user_range_exact [of "0x8000000010" "0x1ff0" demo_user] demo_ranges(1) by blast
  from this [rule_format, of "0x1fef"] have "mapped demo_user (0x8000000010 + word_of_nat 0x1fef)" by simp
  with demo_ranges(1,2) show ?thesis by blast
qed

text \<open>
  C24. What the kernel copies to user memory is what it reads back, byte for byte; no byte of memory
  outside the target changes, and no mapping does. A range that is not accepted gives \<open>EFAULT\<close> both
  ways and changes nothing.
\<close>

theorem copy_user_roundtrip:
  assumes "user_window W s" "\<forall>i < length bs. p + word_of_nat i \<in> W" "0 < length bs" "length bs < 2 ^ 64"
  shows "if user_range_ok p (word_of_nat (length bs)) s
    then \<exists>t. copy_to_user p bs s = (0, t) \<and> copy_from_user p (word_of_nat (length bs)) t = Inr bs
       \<and> (\<forall>a. (\<forall>i < length bs. a \<noteq> vmm_virt_to_phys (p + word_of_nat i) s) \<longrightarrow> mem t a = mem s a)
       \<and> (\<forall>w. vmm_virt_to_phys w t = vmm_virt_to_phys w s)
    else copy_to_user p bs s = (- ORE_EFAULT, s) \<and> copy_from_user p (word_of_nat (length bs)) s = Inl (- ORE_EFAULT)"
proof -
  let ?n = "word_of_nat (length bs) :: u64" and ?as = "map (\<lambda>i. p + word_of_nat i) [0..<length bs]"
  have n: "unat ?n = length bs" using assms(4) by (rule unat_word_of_nat64)
  have nz: "?n \<noteq> 0" using n assms(3) by (metis less_nat_zero_code unat_0)
  show ?thesis
  proof (cases "user_range_ok p ?n s")
    case False
    with nz show ?thesis by (simp add: copy_to_user_def copy_from_user_def Let_def)
  next
    case True
    let ?t = "store_bytes p bs s"
    have "inj_on (\<lambda>i. word_of_nat i :: u64) {0..<length bs}"
      by (rule inj_onI) (use assms(4) in \<open>metis atLeastLessThan_iff less_trans unat_word_of_nat64\<close>)
    then have d: "distinct ?as" by (simp add: distinct_map inj_on_def)
    have sub: "set ?as \<subseteq> W" using assms(2) by auto
    have "map (\<lambda>a. vload a ?t) ?as = bs"
      unfolding store_bytes_fold by (rule user_mem.gets_puts [OF assms(1) sub d]) simp
    then have readback: "map (\<lambda>i. vload (p + word_of_nat i) ?t) [0..<length bs] = bs" by (simp add: o_def)
    have tr: "vmm_virt_to_phys w ?t = vmm_virt_to_phys w s" for w
      by (rule store_bytes_frame(1) [OF assms(1)]) (use assms(2) in blast)
    have "user_range_ok p ?n ?t" using True unfolding user_range_ok_def tr .
    with nz n readback have "copy_from_user p ?n ?t = Inr bs" by (simp add: copy_from_user_def)
    moreover have "mem ?t a = mem s a" if "\<forall>i < length bs. a \<noteq> vmm_virt_to_phys (p + word_of_nat i) s" for a
      by (rule store_bytes_frame(2) [OF assms(1)]) (use assms(2) that in blast)+
    ultimately show ?thesis using True nz tr by (simp add: copy_to_user_def)
  qed
qed

theorem copy_user_roundtrip_witness:
  "\<exists>t. copy_to_user 0x8000000ffe [1, 2, 3, 4] demo_user = (0, t)
     \<and> copy_from_user 0x8000000ffe 4 t = Inr [1, 2, 3, 4]"
proof -
  have l: "length [1, 2, 3, 4 :: u8] = 4" by simp
  note t = copy_user_roundtrip [OF demo_window, of "[1, 2, 3, 4]" "0x8000000ffe", unfolded l]
  show ?thesis using t demo_addresses demo_ranges(3) by auto
qed

text \<open>
  C25. \<open>user_string\<close> reads a path argument exactly: it returns a string just when the bytes of that
  string and a terminator stand at the address, at accessible addresses and within the limit; the only
  errors are \<open>EFAULT\<close> and \<open>EINVAL\<close>.
\<close>

theorem user_string_exact:
  assumes "unat maxlen < 2 ^ 63"
  shows "(user_string p maxlen s = Inr str \<longleftrightarrow> length str < unat maxlen \<and> string_at p (length str) s
      \<and> map (\<lambda>i. vload (p + word_of_nat i) s) [0..<length str] = str)
    \<and> (\<forall>e. user_string p maxlen s = Inl e \<longrightarrow> e = - ORE_EFAULT \<or> e = - ORE_EINVAL)"
proof -
  have len: "strlen_user p maxlen s = Inr k \<longleftrightarrow> (\<exists>j < unat maxlen. k = word_of_nat j \<and> string_at p j s)" for k
    by (simp add: strlen_user_def strlen_from_iff)
  have cp: "copy_from_user p (word_of_nat j + 1) s = Inr (map (\<lambda>i. vload (p + word_of_nat i) s) [0..<Suc j])"
    "cstr_of (map (\<lambda>i. vload (p + word_of_nat i) s) [0..<Suc j]) = map (\<lambda>i. vload (p + word_of_nat i) s) [0..<j]"
    if j: "j < unat maxlen" "string_at p j s" for j
  proof -
    have jj: "j < 2 ^ 63" using j(1) assms by simp
    have r: "user_range_ok p (word_of_nat (Suc j)) s"
      by (rule user_bytes_range) (use j(2) jj in \<open>auto simp: string_at_def\<close>)
    have n: "unat (word_of_nat (Suc j) :: u64) = Suc j" using jj by (intro unat_word_of_nat64) simp
    have nz: "word_of_nat (Suc j) \<noteq> (0::u64)" using n by (metis nat.distinct(1) unat_0)
    show "copy_from_user p (word_of_nat j + 1) s = Inr (map (\<lambda>i. vload (p + word_of_nat i) s) [0..<Suc j])"
      using r n nz by (simp add: copy_from_user_def add.commute)
    show "cstr_of (map (\<lambda>i. vload (p + word_of_nat i) s) [0..<Suc j]) = map (\<lambda>i. vload (p + word_of_nat i) s) [0..<j]"
      using j(2) by (simp add: cstr_of_def string_at_def takeWhile_append)
  qed
  have us: "user_string p maxlen s = Inr (map (\<lambda>i. vload (p + word_of_nat i) s) [0..<j])"
    if "j < unat maxlen" "string_at p j s" for j
    using len cp [OF that] that by (simp add: user_string_def del: upt_Suc) (metis (no_types, lifting) len that sum.case(2))
  have ex: "\<exists>j < unat maxlen. string_at p j s" if "user_string p maxlen s = Inr str"
    using that len by (auto simp: user_string_def split: sum.splits)
  have uniq: "j = j'" if "string_at p j s" "string_at p j' s" for j j'
    using that unfolding string_at_def by (metis linorder_neqE_nat)
  have "user_string p maxlen s = Inr str \<longleftrightarrow> length str < unat maxlen \<and> string_at p (length str) s
      \<and> map (\<lambda>i. vload (p + word_of_nat i) s) [0..<length str] = str"
  proof
    assume a: "user_string p maxlen s = Inr str"
    from ex [OF a] obtain j where j: "j < unat maxlen" "string_at p j s" by blast
    from us [OF j] a have "str = map (\<lambda>i. vload (p + word_of_nat i) s) [0..<j]" by simp
    with j show "length str < unat maxlen \<and> string_at p (length str) s
      \<and> map (\<lambda>i. vload (p + word_of_nat i) s) [0..<length str] = str" by simp
  next
    assume "length str < unat maxlen \<and> string_at p (length str) s
      \<and> map (\<lambda>i. vload (p + word_of_nat i) s) [0..<length str] = str"
    with us show "user_string p maxlen s = Inr str" by metis
  qed
  moreover have "e = - ORE_EFAULT \<or> e = - ORE_EINVAL" if "user_string p maxlen s = Inl e" for e
    using that strlen_from_error [of "unat maxlen" p 0 s e]
    by (auto simp: user_string_def copy_from_user_def strlen_user_def split: sum.splits if_splits)
  ultimately show ?thesis by blast
qed

theorem user_string_exact_witness:
  "user_string 0x8000000ffe 127 (store_bytes 0x8000000ffe [47, 97, 0] demo_user) = Inr [47, 97]"
proof -
  define t where "t = store_bytes 0x8000000ffe [47, 97, 0] demo_user"
  have in3: "(0x8000000ffe::u64) + word_of_nat i \<in> {0x8000000000..<0x8000002000}" if "i < length [47, 97, 0 :: u8]" for i
    by (rule demo_addresses) (use that in simp)
  have tr: "vmm_virt_to_phys w t = vmm_virt_to_phys w demo_user" for w
    unfolding t_def by (rule store_bytes_frame(1) [OF demo_window in3])
  have "map (\<lambda>a. vload a t) (map (\<lambda>i. 0x8000000ffe + word_of_nat i) [0..<length [47, 97, 0 :: u8]]) = [47, 97, 0]"
    unfolding t_def store_bytes_fold
    by (rule user_mem.gets_puts [OF demo_window]) (use in3 in \<open>auto simp: upt_conv_Cons\<close>)
  then have v: "vload 0x8000000ffe t = 47" "vload 0x8000000fff t = 97" "vload 0x8000001000 t = 0"
    by (simp_all add: upt_conv_Cons)
  have "user_range_ok (0x8000000ffe + word_of_nat l) 1 t" if "l \<le> 2" for l
  proof -
    have "vmm_virt_to_phys (0x8000000ffe + word_of_nat l) demo_user \<noteq> 0"
      using demo_translated [of "0x8000000ffe + word_of_nat l"] demo_addresses [of l] that by simp
    moreover have "USER_BASE \<le> 0x8000000ffe + word_of_nat l" "0x8000000ffe + word_of_nat l < USER_LIMIT"
      using demo_addresses [of l] that by (auto simp: USER_BASE_def USER_LIMIT_def intro: less_trans)
    ultimately show ?thesis by (simp add: user_byte_ok tr)
  qed
  moreover have "vload (0x8000000ffe + word_of_nat l) t \<noteq> 0" if "l < 2" for l
  proof -
    from that have "l = 0 \<or> l = 1" by linarith
    with v show ?thesis by auto
  qed
  ultimately have "string_at 0x8000000ffe 2 t" using v(3) by (simp add: string_at_def)
  then have "string_at 0x8000000ffe (Suc (Suc 0)) t" by (simp add: numeral_2_eq_2)
  then show ?thesis
    using user_string_exact [of 127 "0x8000000ffe" t "[47, 97]"] v(1,2)
    by (simp add: t_def [symmetric] del: store_bytes.simps)
qed

text \<open>
  C26. A process never holds more than 1024 pages. Whatever sequence of allocations and frees it makes,
  its regions lie in the window \<open>USER_ALLOC_BASE .. USER_ALLOC_LIMIT\<close>, are disjoint, and the counter
  \<open>user_alloc_pages_total\<close> is the sum of their sizes; an allocation or a free changes no other process.
\<close>

theorem user_alloc_quota:
  assumes "alloc_run p s t" "alloc_ok (proc_at p s)" "p < length (processes s)" "current_proc t = Some p"
    "user_alloc_pages_sys n t = Inr (r, u) \<or> user_free_pages_sys a n t = Inr (r, u)"
  shows "(\<Sum>i \<in> {i. region_used (proc_at p u) i}. region_pages (proc_at p u) i) = unat (user_alloc_pages_total (proc_at p u))
    \<and> unat (user_alloc_pages_total (proc_at p u)) \<le> 1024
    \<and> (\<forall>i. region_used (proc_at p u) i \<longrightarrow> region (proc_at p u) i \<subseteq> {unat USER_ALLOC_BASE ..< unat USER_ALLOC_LIMIT})
    \<and> (\<forall>i j. region_used (proc_at p u) i \<longrightarrow> region_used (proc_at p u) j \<longrightarrow> i \<noteq> j
         \<longrightarrow> region (proc_at p u) i \<inter> region (proc_at p u) j = {})
    \<and> (\<forall>i. i \<noteq> p \<longrightarrow> proc_at i u = proc_at i t)"
proof -
  have t: "alloc_ok (proc_at p t)" "p < length (processes t)" using alloc_run_ok [OF assms(1-3)] assms(3) by simp_all
  note step = alloc_step_ok [OF t(1) assms(4) t(2) assms(5)]
  note d = alloc_okD [OF step(1)]
  have "region (proc_at p u) i \<subseteq> {unat USER_ALLOC_BASE ..< unat USER_ALLOC_LIMIT}" if "region_used (proc_at p u) i" for i
    using d(5) d(8,9) [OF that] unfolding region_def by auto
  then show ?thesis using d(2,3,10) step(3) unfolding pages_in_use_def by blast
qed

theorem user_alloc_quota_witness:
  "\<exists>u. user_free_pages_sys 0xa000003000 3 demo_alloc = Inr (0, u) \<and> unat (user_alloc_pages_total (proc_at 2 u)) \<le> 1024"
proof -
  from demo_free obtain u where u: "user_free_pages_sys 0xa000003000 3 demo_alloc = Inr (0, u)" by blast
  have "2 < length (processes demo_alloc)" by (simp add: demo_alloc_entry)
  from user_alloc_quota [OF alloc_run.start demo_alloc_ok this demo_alloc_entry(1) disjI2 [OF u]] u show ?thesis by blast
qed

end
