(* ===== verification/Kernel_Invariant.thy ===== *)
theory Kernel_Invariant
  imports Kernel_Frame
begin

text \<open>
  The invariant of the process table over all system calls and interrupts.

  \<open>table_ok R X s\<close>: every process of the table has a known state, only those in \<open>R\<close> run, each was created
  by an older one, and a blocked process, unless it is in \<open>X\<close>, waits for a child of its own that has not
  exited (\<open>live_child\<close>). \<open>sched_ok\<close> is the invariant between two entries to the kernel. A scheduling
  operation first takes the running process out (\<open>table_update\<close>) and then enters another one
  (\<open>enter_ok\<close>). \<open>kernel_run\<close> is a run: user code, system calls and interrupts in any order.
\<close>

subsection \<open>Definitions\<close>

definition live_child :: "nat \<Rightarrow> 'a process_scheme \<Rightarrow> bool" where
  "live_child i s \<longleftrightarrow>
     (let c = unat (waiting_for_pid (proc_at i s))
      in i < c \<and> c < unat (process_count s) \<and> unat (parent_pid (proc_at c s)) = i
         \<and> pstate (proc_at c s) \<noteq> ORE_PROC_EXITED)"

definition slot_ok :: "nat set \<Rightarrow> nat set \<Rightarrow> 'a process_scheme \<Rightarrow> nat \<Rightarrow> bool" where
  "slot_ok R X s i \<longleftrightarrow>
     pstate (proc_at i s) \<in> {ORE_PROC_READY, ORE_PROC_RUNNING, ORE_PROC_EXITED, ORE_PROC_BLOCKED}
     \<and> (pstate (proc_at i s) = ORE_PROC_RUNNING \<longrightarrow> i \<in> R)
     \<and> unat (parent_pid (proc_at i s)) < i
     \<and> (pstate (proc_at i s) = ORE_PROC_BLOCKED \<and> i \<notin> X \<longrightarrow> live_child i s)"

definition table_ok :: "nat set \<Rightarrow> nat set \<Rightarrow> 'a process_scheme \<Rightarrow> bool" where
  "table_ok R X s \<longleftrightarrow> proc_ok s \<and> parent_pid (proc_at 0 s) = 0 \<and> (\<forall>i \<in> {1..<unat (process_count s)}. slot_ok R X s i)"

definition sched_ok :: "'a process_scheme \<Rightarrow> bool" where
  "sched_ok s \<longleftrightarrow> (\<exists>c \<in> {1..<unat (process_count s)}. current_proc s = Some c
     \<and> pstate (proc_at c s) = ORE_PROC_RUNNING \<and> cr3 s = proc_pml4 c s \<and> table_ok {c} {} s)"

definition exit_state :: "u64 \<Rightarrow> proc_ptr \<Rightarrow> 'a process_scheme \<Rightarrow> 'a process_scheme" where
  "exit_state a c s = update_proc c (\<lambda>q. q\<lparr>exited := 1, exit_code := ucast a, pstate := ORE_PROC_EXITED,
     saved_user_rip := 0, saved_user_rsp := 0\<rparr>) s"

text \<open>
  A run of the kernel: system calls and interrupts, and between them user code, which changes memory
  and the user registers that the entry code saves.
\<close>

inductive kernel_run :: "'a scheduler_scheme sys_env \<Rightarrow> 'a scheduler_scheme \<Rightarrow> 'a scheduler_scheme \<Rightarrow> bool"
  for env :: "'a scheduler_scheme sys_env" and s :: "'a scheduler_scheme" where
  start: "kernel_run env s s"
| user: "kernel_run env s t \<Longrightarrow>
    kernel_run env s (t\<lparr>mem := m, g_syscall_user_rip := ip, g_syscall_user_rsp := sp\<rparr>)"
| call: "kernel_run env s t \<Longrightarrow> syscall_dispatch env number a1 a2 a3 a4 t = Inr (r, u) \<Longrightarrow> kernel_run env s u"
| interrupt: "kernel_run env s t \<Longrightarrow> isr_dispatch vec addr f t = Inr (r, u) \<Longrightarrow> kernel_run env s u"

definition quiet_env :: "'s sys_env" where
  "quiet_env = \<lparr>env_command = (\<lambda>addr out len s. Inr (0, s)), env_polls = [], env_render_ticks = 0\<rparr>"

definition demo_thread :: Thread where
  "demo_thread = \<lparr>tid = 0, tstate = THREAD_RUNNING, tcpu = 0, saved_sp = 0, tstack_base = 0, tstack_top = 0,
     tswitches = 0, tentry = 0, targ = 0, tname = None, wake_tick = 0, tnext = None\<rparr>"

definition demo_child :: "u32 \<Rightarrow> u32 \<Rightarrow> Process" where
  "demo_child i st = (demo_entry i st)\<lparr>parent_pid := 1\<rparr>"

text \<open>Process 1 waits for its child 3; its other child, 2, is running.\<close>

definition demo_kernel :: scheduler where
  "demo_kernel = \<lparr>mem = (\<lambda>_. 0), cr3 = 0x2000, bitmap = (\<lambda>_. 0), bitmap_base = 0x180000,
     bitmap_bytes = 4096, max_phys = 0x110000, total_page_count = 272, free_page_count = 272,
     reserved_page_count = 0, used_page_count = 0, heap_head = 0, kernel_pml4 = 0, kernel_pml4_phys = 0,
     device = (\<lambda>_. 0), io_log = [],
     fb = \<lparr>fb_base = 0, fb_width = 0, fb_height = 0, pixels_per_scanline = 0, pixel_format = 0\<rparr>,
     cursor_x = 0, cursor_y = 0, cols = 0, rows = 0, text_origin_y = 0, text_origin_x = 0, esc_state = 0,
     esc_param = 0, esc_params = [0, 0, 0, 0], esc_param_count = 0, current_fg = 0, current_bg = 0,
     inverse_video = False, ps2_shift = False, ps2_e0 = False, input_keys = 0, input_ascii = 0,
     input_frame = 0, gfx_mode_active = False, net_ready = False, net_mac = [0, 0, 0, 0, 0, 0],
     cpu_apic_ids = [], lapic_base_value = 0xfee00000, g_cpus = [], g_cpu_count = 0,
     g_timer_ticks = replicate 64 0, lapic_id_reg = 0, msrs = (\<lambda>_. 0),
     terrain_job = \<lparr>tjob_active = False, tjob_generation = 0, tjob_worker_count = 0, tjob_started_mask = 0,
       tjob_done_mask = 0, tjob_job = terrain_job_of [], tjob_buffer = 0, tjob_objects = 0\<rparr>,
     archive_base = 0, archive_size = 0, files = [], root_block = None, fwcfg_disk_selector = 0,
     mounted = False, disk_mounted = False, disk_entries = replicate 16384 0, disk_entry_count = 0,
     stack_stat = \<lparr>vs_name = replicate 128 0, vs_type = 0, vs_reserved = 0, vs_size = 0\<rparr>,
     processes = [demo_entry 0 ORE_PROC_RUNNING,
       (demo_entry 1 ORE_PROC_BLOCKED)\<lparr>waiting_for_pid := 3, wait_return_rip := 0x8000001000,
         wait_return_rsp := 0x8fffffff00\<rparr>,
       demo_child 2 ORE_PROC_RUNNING, demo_child 3 ORE_PROC_READY] @ replicate 28 zero_process,
     process_count = 4, kernel_proc = Some 0, current_proc = Some 2,
     loaded_modules = 0, module_table = [], module_commands = [],
     syscall_count = 0, next_synthetic_pid = 0, last_synthetic_pid = 0, g_syscall_user_rip = 0x8000000040,
     g_syscall_user_rsp = 0x8fffffffe0, g_sysret_override = 0, g_sysret_rip = 0, g_sysret_rsp = 0,
     stack_padding = 0, stack_name = replicate 32 0,
     sched = replicate 64 \<lparr>sc_current = None, run_queue = None, sc_switches = 0, sc_started = False\<rparr>,
     threads = (\<lambda>_. demo_thread), thread_count = 0, trace_switches = 0\<rparr>"

subsection \<open>The invariant\<close>

lemma table_okD:
  assumes "table_ok R X s"
  shows "proc_ok s" "\<And>i. 1 \<le> i \<Longrightarrow> i < unat (process_count s) \<Longrightarrow> slot_ok R X s i"
    "parent_pid (proc_at 0 s) = 0"
  using assms by (simp_all add: table_ok_def)

lemma core_at:
  assumes "core_view t = core_view s" "i < length (processes s)"
  shows "core_of (proc_at i t) = core_of (proc_at i s)"
  using assms by (metis (no_types, lifting) Pair_inject core_view_def length_map nth_map proc_at_def)

lemma core_fields:
  assumes "core_view t = core_view s" "i < length (processes s)"
  shows "pid (proc_at i t) = pid (proc_at i s)" "pstate (proc_at i t) = pstate (proc_at i s)"
    "parent_pid (proc_at i t) = parent_pid (proc_at i s)"
    "waiting_for_pid (proc_at i t) = waiting_for_pid (proc_at i s)"
    "proc_pml4 i t = proc_pml4 i s" "length (handles (proc_at i t)) = length (handles (proc_at i s))"
    "length (user_allocs (proc_at i t)) = length (user_allocs (proc_at i s))"
    "wait_return_rip (proc_at i t) = wait_return_rip (proc_at i s)"
    "wait_return_rsp (proc_at i t) = wait_return_rsp (proc_at i s)"
  using core_at [OF assms] by (simp_all add: core_of_def proc_pml4_def)

lemma core_globals:
  assumes "core_view t = core_view s"
  shows "length (processes t) = length (processes s)" "process_count t = process_count s"
    "kernel_proc t = kernel_proc s" "current_proc t = current_proc s" "cr3 t = cr3 s"
  using assms by (auto simp: core_view_def dest: map_eq_imp_length_eq)

lemma proc_ok_core:
  assumes "core_view t = core_view s" "proc_ok s"
  shows "proc_ok t"
  using assms(2) core_fields [OF assms(1)] by (auto simp: proc_ok_def core_globals [OF assms(1)])

lemma table_ok_core:
  assumes "core_view t = core_view s" "table_ok R X s"
  shows "table_ok R X t"
proof -
  note ok = table_okD(1) [OF assms(2)]
  note g = core_globals [OF assms(1)]
  have f: "i < unat (process_count s) \<Longrightarrow> i < length (processes s)" for i
    using proc_okD(1,3) [OF ok] by linarith
  have "slot_ok R X t i" if i: "1 \<le> i" "i < unat (process_count s)" for i
    using table_okD(2) [OF assms(2) i] core_fields [OF assms(1) f] i
    by (auto simp: slot_ok_def live_child_def Let_def g)
  moreover have "parent_pid (proc_at 0 t) = 0"
    using core_fields(3) [OF assms(1) f [of 0]] proc_okD(2) [OF ok] table_okD(3) [OF assms(2)] by simp
  ultimately show ?thesis using proc_ok_core [OF assms(1) ok] by (simp add: table_ok_def g)
qed

lemma sched_ok_core:
  assumes "core_view t = core_view s" "sched_ok s"
  shows "sched_ok t"
proof -
  obtain c where c: "1 \<le> c" "c < unat (process_count s)" "current_proc s = Some c"
    "pstate (proc_at c s) = ORE_PROC_RUNNING" "cr3 s = proc_pml4 c s" "table_ok {c} {} s"
    using assms(2) by (auto simp: sched_ok_def)
  have l: "c < length (processes s)" using c(2) proc_okD(1,3) [OF table_okD(1) [OF c(6)]] by linarith
  show ?thesis
    using c table_ok_core [OF assms(1) c(6)] core_fields [OF assms(1) l]
    by (auto simp: sched_ok_def core_globals [OF assms(1)])
qed

subsection \<open>Changing one process\<close>

lemma table_update:
  assumes ok: "table_ok R X s" and p: "1 \<le> p" "p < unat (process_count s)" and keep: "keeps_shape f"
    and par: "parent_pid (f (proc_at p s)) = parent_pid (proc_at p s)"
    and st: "pstate (f (proc_at p s)) \<in> {ORE_PROC_READY, ORE_PROC_RUNNING, ORE_PROC_EXITED, ORE_PROC_BLOCKED}"
    and run: "pstate (f (proc_at p s)) = ORE_PROC_RUNNING \<longrightarrow> p \<in> R'" "R - {p} \<subseteq> R'"
    and dead: "pstate (f (proc_at p s)) = ORE_PROC_EXITED \<longrightarrow> unat (parent_pid (proc_at p s)) \<in> X'"
    and X: "X - {p} \<subseteq> X'"
    and wait: "pstate (f (proc_at p s)) = ORE_PROC_BLOCKED \<longrightarrow> p \<in> X'
      \<or> live_child p (update_proc p f s)"
  shows "table_ok R' X' (update_proc p f s)"
proof -
  let ?t = "update_proc p f s"
  have l: "p < length (processes s)" using p(2) proc_okD(1,3) [OF table_okD(1) [OF ok]] by linarith
  have "slot_ok R' X' ?t i" if i: "1 \<le> i" "i < unat (process_count s)" for i
  proof (cases "i = p")
    case True
    then show ?thesis
      using table_okD(2) [OF ok p] par st run(1) wait l by (auto simp: slot_ok_def)
  next
    case False
    have s: "slot_ok R X s i" by (rule table_okD(2) [OF ok i])
    have "live_child i ?t" if b: "pstate (proc_at i s) = ORE_PROC_BLOCKED" "i \<notin> X'"
    proof -
      have "live_child i s" using s b False X by (auto simp: slot_ok_def)
      with b dead par l False show ?thesis by (auto simp: live_child_def Let_def)
    qed
    with s False run(2) show ?thesis by (auto simp: slot_ok_def)
  qed
  with proc_ok_update [OF table_okD(1) [OF ok] keep] table_okD(3) [OF ok] p(1) show ?thesis
    by (simp add: table_ok_def)
qed

lemma table_ok_more [simp]:
  "table_ok R X (s\<lparr>cr3 := v\<rparr>) = table_ok R X s"
  by (simp add: table_ok_def slot_ok_def live_child_def Let_def)

lemma table_ok_current:
  "p < unat (process_count s) \<Longrightarrow> table_ok R X s \<Longrightarrow> table_ok R X (s\<lparr>current_proc := Some p\<rparr>)"
  by (simp add: table_ok_def slot_ok_def live_child_def Let_def proc_ok_def)

text \<open>Entering a process that is alive, once no other process runs.\<close>

lemma enter_ok:
  assumes ok: "table_ok {} X s" and p: "1 \<le> p" "p < unat (process_count s)"
    and X: "X \<subseteq> {p}"
    and t: "core_view t = core_view (write_cr3 (proc_pml4 p s) (process_set_current (Some p) s))"
  shows "sched_ok t"
proof (rule sched_ok_core [OF t])
  have l: "p < length (processes s)" using p(2) proc_okD(1,3) [OF table_okD(1) [OF ok]] by linarith
  have "table_ok {p} {} (update_proc p (\<lambda>r. r\<lparr>pstate := ORE_PROC_RUNNING\<rparr>) (s\<lparr>current_proc := Some p\<rparr>))"
    by (rule table_update [OF table_ok_current [OF p(2) ok]]) (use p X in \<open>auto simp: keeps_shape_def\<close>)
  with p l show "sched_ok (write_cr3 (proc_pml4 p s) (process_set_current (Some p) s))"
    by (auto simp: sched_ok_def process_set_current_def write_cr3_def proc_pml4_def)
qed

lemma sched_okE:
  assumes "sched_ok s"
  obtains c where "1 \<le> c" "c < unat (process_count s)" "c < length (processes s)" "current_proc s = Some c"
    "process_current s = Some c" "pstate (proc_at c s) = ORE_PROC_RUNNING" "cr3 s = proc_pml4 c s"
    "table_ok {c} {} s" "unat (pid (proc_at c s)) = c" "current_pid s = pid (proc_at c s)" "proc_ok s"
proof -
  obtain c where c: "1 \<le> c" "c < unat (process_count s)" "current_proc s = Some c"
    "pstate (proc_at c s) = ORE_PROC_RUNNING" "cr3 s = proc_pml4 c s" "table_ok {c} {} s"
    using assms by (auto simp: sched_ok_def)
  have ok: "proc_ok s" by (rule table_okD(1) [OF c(6)])
  have l: "c < length (processes s)" using c(2) proc_okD(1,3) [OF ok] by linarith
  show ?thesis
    by (rule that [OF c(1,2) l c(3) _ c(4-6) _ _ ok])
      (use c(2,3) proc_okD(6) [OF ok c(2)] in \<open>simp_all add: process_current_def current_pid_def\<close>)
qed

lemma override_core [simp]: "core_view (syscall_override_return a b s) = core_view s"
  by (rule view_core) (simp add: syscall_override_return_def)

lemma enter_core:
  "core_view (enter_process_from_syscall p s) = core_view (write_cr3 (proc_pml4 p s) (process_set_current (Some p) s))"
  by (simp add: enter_process_from_syscall_def Let_def process_set_current_def proc_pml4_def)

text \<open>The next process is alive and is not the one that leaves.\<close>

lemma next_ready_enter:
  assumes "table_ok {} {} s" "unat e < unat (process_count s)" "next_ready_process e s = Some p"
  shows "sched_ok (enter_process_from_syscall p s)"
  by (rule enter_ok [OF assms(1) _ _ _ enter_core])
    (use next_ready_Some [OF table_okD(1) [OF assms(1)] assms(2,3)] in auto)

lemma yield_ok:
  assumes "sched_ok s"
  shows "sched_ok (snd (schedule_next_from_syscall s))"
proof (rule sched_okE [OF assms])
  fix c assume c: "1 \<le> c" "c < unat (process_count s)" "process_current s = Some c"
    "pstate (proc_at c s) = ORE_PROC_RUNNING" "table_ok {c} {} s" "unat (pid (proc_at c s)) = c"
    "current_pid s = pid (proc_at c s)" "proc_ok s"
  show ?thesis
  proof (cases "next_ready_process (current_pid s) s")
    case None
    with assms show ?thesis by (simp add: schedule_next_from_syscall_def)
  next
    case (Some p)
    let ?t = "park_current (Some c) s"
    have e: "unat (current_pid s) < unat (process_count s)" using c(2,6,7) by simp
    have n: "1 \<le> p" "p < unat (process_count s)" "p \<noteq> c"
      using next_ready_Some [OF c(8) e Some] c(6,7) by simp_all
    have "table_ok {} {} ?t"
      unfolding park_current_def option.case using c(4)
      by (simp, intro table_update [OF c(5,1,2)]) (simp_all add: keeps_shape_def)
    then have "sched_ok (enter_process_from_syscall p ?t)"
      by (rule enter_ok [OF _ _ _ _ enter_core]) (use n in \<open>simp_all add: park_current_def\<close>)
    with Some c(3) show ?thesis by (simp add: schedule_next_from_syscall_def)
  qed
qed

lemma process_find_Some:
  assumes "proc_ok s" "process_find i s = Some p"
  shows "p = unat i" "p < unat (process_count s)"
  using assms(2) proc_okD(6) [OF assms(1)] by (auto simp: process_find_def find_Some_iff)

lemma exit_next_ok:
  assumes "table_ok {} {} s" "unat e < unat (process_count s)" "exit_to_next e s = Inr (r, t)"
  shows "sched_ok t"
  using assms(3) next_ready_enter [OF assms(1,2)] by (auto simp: exit_to_next_def split: option.splits)

lemma exit_state_ok:
  assumes "table_ok {c} {} s" "1 \<le> c" "c < unat (process_count s)"
  shows "table_ok {} {unat (parent_pid (proc_at c s))} (exit_state a c s)"
  unfolding exit_state_def
  by (rule table_update [OF assms(1,2,3)]) (use assms(2,3) in \<open>simp_all add: keeps_shape_def\<close>)

lemma table_ok_drop:
  assumes "table_ok R {i} s" "1 \<le> i" "pstate (proc_at i s) = ORE_PROC_BLOCKED \<longrightarrow> live_child i s"
  shows "table_ok R {} s"
proof -
  have "slot_ok R {} s j" if j: "1 \<le> j" "j < unat (process_count s)" for j
    using table_okD(2) [OF assms(1) j] assms(3) by (cases "j = i") (simp_all add: slot_ok_def)
  with table_okD(1,3) [OF assms(1)] show ?thesis by (simp add: table_ok_def)
qed

lemma table_ok_drop0:
  assumes "table_ok R {0} s"
  shows "table_ok R {} s"
proof -
  have "slot_ok R {} s j" if j: "1 \<le> j" "j < unat (process_count s)" for j
    using table_okD(2) [OF assms j] j(1) by (simp add: slot_ok_def)
  with table_okD(1,3) [OF assms] show ?thesis by (simp add: table_ok_def)
qed

lemma process_find_pid:
  assumes "proc_ok s" "unat i < unat (process_count s)"
  shows "process_find i s = Some (unat i)"
proof -
  have "pid (proc_at (unat i) s) = i" using proc_okD(6) [OF assms] by (simp add: unat_eq_iff)
  then have "process_find i s \<noteq> None" using assms(2) by (auto simp: process_find_def find_None_iff)
  with process_find_Some(1) [OF assms(1)] show ?thesis by blast
qed

lemma exit_state_at:
  assumes "c < length (processes s)"
  shows "proc_at i (exit_state a c s) = (if i = c then (proc_at c s)\<lparr>exited := 1, exit_code := ucast a,
    pstate := ORE_PROC_EXITED, saved_user_rip := 0, saved_user_rsp := 0\<rparr> else proc_at i s)"
    "process_count (exit_state a c s) = process_count s"
  using assms by (simp_all add: exit_state_def)

text \<open>A parent that does not wait for the process that exits keeps its live child.\<close>

lemma exit_state_unwaited:
  assumes ok: "table_ok {c} {} s" "1 \<le> c" "c < unat (process_count s)"
    and par: "par = unat (parent_pid (proc_at c s))" "1 \<le> par"
    and no: "\<not> (pstate (proc_at par s) = ORE_PROC_BLOCKED \<and> waiting_for_pid (proc_at par s) = pid (proc_at c s))"
  shows "table_ok {} {} (exit_state a c s)"
proof (rule table_ok_drop)
  show "table_ok {} {par} (exit_state a c s)" unfolding par(1) by (rule exit_state_ok [OF ok])
  show "1 \<le> par" by (rule par(2))
  note p = table_okD(1) [OF ok(1)]
  have l: "c < length (processes s)" using ok(3) proc_okD(1,3) [OF p] by linarith
  have lt: "par < c" using table_okD(2) [OF ok] par by (simp add: slot_ok_def)
  then have sl: "slot_ok {c} {} s par" using table_okD(2) [OF ok(1) par(2)] ok(3) by simp
  show "pstate (proc_at par (exit_state a c s)) = ORE_PROC_BLOCKED \<longrightarrow> live_child par (exit_state a c s)"
  proof
    assume "pstate (proc_at par (exit_state a c s)) = ORE_PROC_BLOCKED"
    then have b: "pstate (proc_at par s) = ORE_PROC_BLOCKED" using lt by (simp add: exit_state_at [OF l])
    with sl have w: "live_child par s" by (simp add: slot_ok_def)
    have "waiting_for_pid (proc_at par s) \<noteq> pid (proc_at c s)" using no b by simp
    then have "unat (waiting_for_pid (proc_at par s)) \<noteq> c"
      using proc_okD(6) [OF p ok(3)] by (metis unat_eq_iff)
    with w lt show "live_child par (exit_state a c s)" by (simp add: live_child_def Let_def exit_state_at [OF l])
  qed
qed

lemma resume_core:
  "core_view (resume_parent p s) = core_view (write_cr3 (proc_pml4 p s)
     (process_set_current (Some p) (update_proc p (\<lambda>q. q\<lparr>wait_return_rip := 0, wait_return_rsp := 0,
       waiting_for_pid := 0, pstate := ORE_PROC_READY\<rparr>) s)))"
  if "p < length (processes s)"
  using that by (simp add: resume_parent_def Let_def core_view_def update_proc_def process_set_current_def
      write_cr3_def syscall_override_return_def proc_pml4_def proc_at_def map_update core_of_def)

lemma sys_exit_cases:
  assumes ok: "table_ok {c} {} s" "1 \<le> c" "c < unat (process_count s)" and cur: "process_current s = Some c"
    and par: "par = unat (parent_pid (proc_at c s))"
  obtains (next_one) "sys_exit a s = exit_to_next (pid (proc_at c s)) (exit_state a c s)"
      "table_ok {} {} (exit_state a c s)"
  | (resume) "1 \<le> par" "sys_exit a s = Inr (ucast (exit_code (proc_at c (exit_state a c s))), resume_parent par (exit_state a c s))"
      "wait_return_rip (proc_at par s) \<noteq> 0 \<and> wait_return_rsp (proc_at par s) \<noteq> 0"
  | (wake) "1 \<le> par" "sys_exit a s = exit_to_next (pid (proc_at c s))
      (update_proc par (\<lambda>q. q\<lparr>waiting_for_pid := 0, pstate := ORE_PROC_READY\<rparr>) (exit_state a c s))"
      "\<not> (wait_return_rip (proc_at par s) \<noteq> 0 \<and> wait_return_rsp (proc_at par s) \<noteq> 0)"
      "pstate (proc_at par s) = ORE_PROC_BLOCKED"
proof -
  note p = table_okD(1) [OF ok(1)]
  have l: "c < length (processes s)" using ok(3) proc_okD(1,3) [OF p] by linarith
  note at = exit_state_at [OF l]
  have lt: "par < c" using table_okD(2) [OF ok] par by (simp add: slot_ok_def)
  have okt: "table_ok {} {par} (exit_state a c s)" unfolding par by (rule exit_state_ok [OF ok])
  let ?t = "exit_state a c s"
  have e: "pid (proc_at c ?t) = pid (proc_at c s)" "parent_pid (proc_at c ?t) = parent_pid (proc_at c s)"
    by (simp_all add: at)
  have run: "sys_exit a s =
    (if parent_pid (proc_at c s) = 0 then exit_to_next (pid (proc_at c s)) ?t
     else case process_find (parent_pid (proc_at c s)) ?t of
       None \<Rightarrow> exit_to_next (pid (proc_at c s)) ?t
     | Some parent \<Rightarrow>
         if wait_return_rip (proc_at parent ?t) \<noteq> 0 \<and> wait_return_rsp (proc_at parent ?t) \<noteq> 0
         then Inr (ucast (exit_code (proc_at c ?t)), resume_parent parent ?t)
         else if pstate (proc_at parent ?t) = ORE_PROC_BLOCKED \<and> waiting_for_pid (proc_at parent ?t) = pid (proc_at c s)
         then exit_to_next (pid (proc_at c s)) (update_proc parent (\<lambda>q. q\<lparr>waiting_for_pid := 0, pstate := ORE_PROC_READY\<rparr>) ?t)
         else exit_to_next (pid (proc_at c s)) ?t)"
    unfolding sys_exit_def cur option.case Let_def exit_state_def [symmetric] e by (rule refl)
  show ?thesis
  proof (cases "parent_pid (proc_at c s) = 0")
    case True
    with run okt par show ?thesis by (intro next_one table_ok_drop0) simp_all
  next
    case False
    then have p1: "1 \<le> par" using par by (simp add: unat_gt_0 Suc_le_eq)
    have f: "process_find (parent_pid (proc_at c s)) ?t = Some par"
      using process_find_pid [OF table_okD(1) [OF okt], of "parent_pid (proc_at c s)"] par lt ok(3) by (simp add: at)
    consider "wait_return_rip (proc_at par s) \<noteq> 0 \<and> wait_return_rsp (proc_at par s) \<noteq> 0"
      | "\<not> (wait_return_rip (proc_at par s) \<noteq> 0 \<and> wait_return_rsp (proc_at par s) \<noteq> 0)"
        "pstate (proc_at par s) = ORE_PROC_BLOCKED \<and> waiting_for_pid (proc_at par s) = pid (proc_at c s)"
      | "\<not> (wait_return_rip (proc_at par s) \<noteq> 0 \<and> wait_return_rsp (proc_at par s) \<noteq> 0)"
        "\<not> (pstate (proc_at par s) = ORE_PROC_BLOCKED \<and> waiting_for_pid (proc_at par s) = pid (proc_at c s))"
      by blast
    then show ?thesis
    proof cases
      case 1
      with run f False p1 lt show ?thesis by (intro resume) (simp_all add: at)
    next
      case 2
      with run f False p1 lt show ?thesis by (intro wake) (auto simp: at)
    next
      case 3
      show ?thesis
        by (rule next_one [OF _ exit_state_unwaited [OF ok par p1 3(2)]]) (use run f False p1 lt 3 in \<open>auto simp: at\<close>)
    qed
  qed
qed

lemma sys_exit_ok:
  assumes "sched_ok s" "sys_exit a s = Inr (r, t)"
  shows "sched_ok t"
proof (rule sched_okE [OF assms(1)])
  fix c assume c: "1 \<le> c" "c < unat (process_count s)" "c < length (processes s)" "process_current s = Some c"
    "table_ok {c} {} s" "unat (pid (proc_at c s)) = c"
  let ?e = "exit_state a c s" and ?par = "unat (parent_pid (proc_at c s))"
  have n: "process_count ?e = process_count s" "length (processes ?e) = length (processes s)"
    by (simp_all add: exit_state_def)
  have lt: "?par < c" using table_okD(2) [OF c(5,1,2)] by (simp add: slot_ok_def)
  have okt: "table_ok {} {?par} ?e" by (rule exit_state_ok [OF c(5,1,2)])
  let ?u = "update_proc ?par (\<lambda>q. q\<lparr>waiting_for_pid := 0, pstate := ORE_PROC_READY\<rparr>) ?e"
  let ?v = "update_proc ?par (\<lambda>q. q\<lparr>wait_return_rip := 0, wait_return_rsp := 0, waiting_for_pid := 0,
    pstate := ORE_PROC_READY\<rparr>) ?e"
  have oku: "table_ok {} {} ?u" "table_ok {} {} ?v" if "1 \<le> ?par"
    by (rule table_update [OF okt that]; use lt c(2) n in \<open>auto simp: keeps_shape_def\<close>)+
  show ?thesis
  proof (cases rule: sys_exit_cases [OF c(5,1,2,4) refl, of a, case_names next_one resume wake])
    case next_one
    with assms(2) show ?thesis by (intro exit_next_ok [OF next_one(2)]) (simp_all add: n c(2,6))
  next
    case resume
    have "core_view (resume_parent ?par ?e) = core_view (write_cr3 (proc_pml4 ?par ?v) (process_set_current (Some ?par) ?v))"
      using resume_core [of ?par ?e] lt c(3) n by (simp add: proc_pml4_def)
    then have "sched_ok (resume_parent ?par ?e)"
      by (rule enter_ok [OF oku(2) [OF resume(1)] resume(1), rotated 2]) (use lt c(2) n in simp_all)
    with assms(2) resume(2) show ?thesis by simp
  next
    case wake
    with assms(2) oku(1) show ?thesis by (intro exit_next_ok) (simp_all add: n c(2,6))
  qed
qed

subsection \<open>Waiting\<close>

lemma wait_enter_ok:
  assumes ok: "table_ok {c} {} s" "1 \<le> c" "c < k" "k < unat (process_count s)"
    and k: "unat (parent_pid (proc_at k s)) = c" "pstate (proc_at k s) = ORE_PROC_READY"
  shows "sched_ok (wait_and_enter c k s)"
proof -
  let ?f = "\<lambda>q. q\<lparr>wait_return_rip := syscall_user_rip_current s, wait_return_rsp := syscall_user_rsp_current s,
    waiting_for_pid := pid (proc_at k s), pstate := ORE_PROC_BLOCKED\<rparr>"
  note p = table_okD(1) [OF ok(1)]
  have l: "c < length (processes s)" using ok(3,4) proc_okD(1,3) [OF p] by linarith
  have w: "live_child c (update_proc c ?f s)"
    using ok(3,4) k l proc_okD(6) [OF p ok(4)] by (simp add: live_child_def)
  have "table_ok {} {} (update_proc c ?f s)"
    by (rule table_update [OF ok(1,2)]) (use ok(3,4) w in \<open>simp_all add: keeps_shape_def\<close>)
  then show ?thesis unfolding wait_and_enter_def
    by (rule enter_ok [OF _ _ _ _ enter_core]) (use ok in simp_all)
qed

lemma sys_wait_ok:
  assumes "sched_ok s" "sys_wait a s = Inr (r, t)"
  shows "sched_ok t"
proof (rule sched_okE [OF assms(1)])
  fix c assume c: "1 \<le> c" "c < unat (process_count s)" "process_current s = Some c" "table_ok {c} {} s"
    "unat (pid (proc_at c s)) = c" "proc_ok s"
  show ?thesis
  proof (cases "t = s")
    case True
    with assms(1) show ?thesis by simp
  next
    case False
    with assms(2) c(3) obtain k where f: "process_find (ucast a) s = Some k"
      and k: "parent_pid (proc_at k s) = pid (proc_at c s)" "pstate (proc_at k s) = ORE_PROC_READY"
        "t = wait_and_enter c k s"
      by (auto simp: sys_wait_def split: option.splits if_splits)
    note kb = process_find_Some(2) [OF c(6) f]
    have "k \<noteq> 0"
    proof
      assume "k = 0"
      with k(1) table_okD(3) [OF c(4)] have "unat (pid (proc_at c s)) = 0" by simp
      with c(1,5) show False by simp
    qed
    then have "c < k" using table_okD(2) [OF c(4) _ kb] k(1) c(5) by (simp add: slot_ok_def)
    with wait_enter_ok [OF c(4,1) _ kb] k c(5) show ?thesis by simp
  qed
qed

subsection \<open>New processes\<close>

lemma create_kernel_spec:
  assumes "proc_ok s" "process_create_kernel name s = (Some k, t)"
  shows "k = unat (process_count s)" "k < 32" "unat (process_count t) = Suc k"
    "current_proc t = current_proc s" "kernel_proc t = kernel_proc s" "cr3 t = cr3 s"
    "length (processes t) = length (processes s)"
    "\<And>i. i \<noteq> k \<Longrightarrow> proc_at i t = proc_at i s"
    "pid (proc_at k t) = process_count s" "pstate (proc_at k t) = ORE_PROC_READY"
    "parent_pid (proc_at k t) = 0" "length (handles (proc_at k t)) = ORE_MAX_HANDLES"
    "length (user_allocs (proc_at k t)) = ORE_MAX_USER_ALLOCS" "wait_return_rip (proc_at k t) = 0"
proof -
  have n: "\<not> MAX_PROCESSES \<le> process_count s" using assms(2) by (auto simp: process_create_kernel_def split: if_splits)
  then have lt: "unat (process_count s) < 32" by (simp add: MAX_PROCESSES_def word_le_nat_alt)
  show k: "k = unat (process_count s)"
    using assms(2) n by (auto simp: process_create_kernel_def Let_def split: option.splits)
  with lt show "k < 32" by simp
  have "unat (process_count s + 1) = Suc (unat (process_count s))"
    using lt by (subst unat_add_exact) simp_all
  then show "unat (process_count t) = Suc k"
    using assms(2) n by (auto simp: process_create_kernel_def Let_def split: option.splits)
  show "current_proc t = current_proc s" "kernel_proc t = kernel_proc s" "cr3 t = cr3 s"
    "length (processes t) = length (processes s)"
    using assms(2) n by (auto simp: process_create_kernel_def Let_def split: option.splits)
  have l: "unat (process_count s) < length (processes s)"
    using lt proc_okD(1) [OF assms(1)] by simp
  show "\<And>i. i \<noteq> k \<Longrightarrow> proc_at i t = proc_at i s"
    "pid (proc_at k t) = process_count s" "pstate (proc_at k t) = ORE_PROC_READY"
    "parent_pid (proc_at k t) = 0" "length (handles (proc_at k t)) = ORE_MAX_HANDLES"
    "length (user_allocs (proc_at k t)) = ORE_MAX_USER_ALLOCS" "wait_return_rip (proc_at k t) = 0"
    using assms(2) n l by (auto simp: process_create_kernel_def Let_def zero_process_def split: option.splits)
qed

lemma create_kernel_ok:
  assumes "table_ok R {} s" "process_create_kernel name s = (Some k, t)"
  shows "table_ok R {} t"
proof -
  note p = table_okD(1) [OF assms(1)]
  note sp = create_kernel_spec [OF p assms(2)]
  have pk: "proc_ok t"
    unfolding proc_ok_def
    using p sp by (auto simp: proc_ok_def less_Suc_eq)
  have "slot_ok R {} t i" if i: "1 \<le> i" "i < unat (process_count t)" for i
  proof (cases "i = k")
    case True
    with i sp show ?thesis by (simp add: slot_ok_def)
  next
    case False
    then have "i < unat (process_count s)" using i(2) sp(1,3) by simp
    from table_okD(2) [OF assms(1) i(1) this] False sp(1,3,8) show ?thesis
      by (auto simp: slot_ok_def live_child_def Let_def)
  qed
  moreover have "k \<noteq> 0" using sp(1) proc_okD(2) [OF p] by simp
  ultimately show ?thesis using pk table_okD(3) [OF assms(1)] sp(8) [of 0] by (simp add: table_ok_def)
qed

lemma create_user_ok:
  assumes "sched_ok s" "process_create_user name s = Inr (kp, t)"
  shows "sched_ok t" "current_proc t = current_proc s"
    "kp = Some k \<Longrightarrow> k = unat (process_count s) \<and> unat (process_count t) = Suc k
      \<and> parent_pid (proc_at k t) = 0"
proof -
  obtain c where c: "1 \<le> c" "c < unat (process_count s)" "c < length (processes s)" "current_proc s = Some c"
    "pstate (proc_at c s) = ORE_PROC_RUNNING" "cr3 s = proc_pml4 c s" "table_ok {c} {} s"
    by (rule sched_okE [OF assms(1)])
  note p = table_okD(1) [OF c(7)]
  have "sched_ok t \<and> current_proc t = current_proc s
    \<and> (\<forall>k. kp = Some k \<longrightarrow> k = unat (process_count s) \<and> unat (process_count t) = Suc k
      \<and> parent_pid (proc_at k t) = 0)"
  proof (cases "process_create_kernel name s")
    case (Pair kq u)
    show ?thesis
    proof (cases kq)
      case None
      then have "u = s" using Pair proc_okD(4) [OF p]
        by (auto simp: process_create_kernel_def Let_def address_space_clone_kernel_def split: if_splits)
      with None Pair assms show ?thesis by (simp add: process_create_user_def)
    next
      case (Some k)
      with Pair have cr: "process_create_kernel name s = (Some k, u)" by simp
      note sp = create_kernel_spec [OF p cr]
      obtain root v where v: "vmm_create_user_pml4 u = Inr (root, v)"
        and t: "kp = Some k" "t = update_proc k (\<lambda>q. q\<lparr>address_space := (address_space q)\<lparr>pml4_phys := root\<rparr>,
          user_alloc_next := 0x000000a000000000\<rparr>) v"
        using assms(2) cr by (auto simp: process_create_user_def kbind_Inr_iff)
      have vc: "core_view v = core_view u" by (rule view_core [OF vmm_views(4) [OF v]])
      note g = core_globals [OF vc]
      have tv: "table_ok {c} {} v" by (rule table_ok_core [OF vc create_kernel_ok [OF c(7) cr]])
      have kv: "1 \<le> k" "k < unat (process_count v)" "k \<noteq> c"
        using sp(1,3) c(1,2) proc_okD(2) [OF p] g by simp_all
      have st: "pstate (proc_at k v) = ORE_PROC_READY" "parent_pid (proc_at k v) = 0"
        using core_fields(2,3) [OF vc] sp(2,7,10,11) proc_okD(1) [OF p] by simp_all
      have cv: "core_of (proc_at c v) = core_of (proc_at c s)"
        using core_at [OF vc, of c] c(3) sp(7,8) kv(3) by simp
      have "table_ok {c} {} t" unfolding t(2)
        by (rule table_update [OF tv kv(1,2)]) (use kv(3) st(1) in \<open>simp_all add: keeps_shape_def\<close>)
      moreover have "pstate (proc_at c t) = ORE_PROC_RUNNING" "proc_pml4 c t = proc_pml4 c s"
        using cv c(5) kv(3) by (simp_all add: t(2) core_of_def proc_pml4_def)
      ultimately have "sched_ok t"
        using c sp(3,6) g kv by (auto simp: sched_ok_def t(2) sp(1,4))
      with t st(2) sp(1,3,4) g show ?thesis by simp
    qed
  qed
  then show "sched_ok t" "current_proc t = current_proc s"
    "kp = Some k \<Longrightarrow> k = unat (process_count s) \<and> unat (process_count t) = Suc k
      \<and> parent_pid (proc_at k t) = 0" by auto
qed

lemma make_ready_ok:
  assumes "sched_ok s" "current_proc s = Some c" "c < k" "k < unat (process_count s)"
    "parent_pid (proc_at k s) = 0"
  shows "sched_ok (make_ready args k s)" "current_proc (make_ready args k s) = Some c"
    "unat (parent_pid (proc_at k (make_ready args k s))) = c"
    "pstate (proc_at k (make_ready args k s)) = ORE_PROC_READY"
    "process_count (make_ready args k s) = process_count s"
proof -
  obtain c' where c': "1 \<le> c'" "c' < unat (process_count s)" "c' < length (processes s)" "current_proc s = Some c'"
    "pstate (proc_at c' s) = ORE_PROC_RUNNING" "cr3 s = proc_pml4 c' s" "table_ok {c'} {} s"
    "unat (pid (proc_at c' s)) = c'" "current_pid s = pid (proc_at c' s)" "proc_ok s"
    by (rule sched_okE [OF assms(1)])
  have cc: "c' = c" using assms(2) c'(4) by simp
  note c = c' [unfolded cc]
  let ?t = "make_ready args k s"
  have l: "k < length (processes s)" using assms(4) proc_okD(1,3) [OF c(10)] by linarith
  have pk: "proc_ok ?t" unfolding make_ready_def
    by (rule proc_ok_update [OF c(10)]) (simp add: keeps_shape_def)
  have at: "proc_at i ?t = (if i = k then (proc_at k s)\<lparr>pstate := ORE_PROC_READY, exited := 0, exit_code := 0,
      parent_pid := current_pid s, pargs := copy_string (pargs (proc_at k s)) args 128\<rparr> else proc_at i s)" for i
    using l by (simp add: make_ready_def)
  show n: "process_count ?t = process_count s" "current_proc ?t = Some c"
    by (simp_all add: make_ready_def c(4))
  show "unat (parent_pid (proc_at k ?t)) = c" "pstate (proc_at k ?t) = ORE_PROC_READY"
    by (simp_all add: at c(8,9))
  have "slot_ok {c} {} ?t i" if i: "1 \<le> i" "i < unat (process_count s)" for i
  proof (cases "i = k")
    case True
    then show ?thesis using assms(3) c(8,9) by (simp add: slot_ok_def at)
  next
    case False
    from table_okD(2) [OF c(7) i] False i(1) assms(5) show ?thesis
      by (auto simp: slot_ok_def live_child_def Let_def at n)
  qed
  with pk table_okD(3) [OF c(7)] assms(3) have "table_ok {c} {} ?t" by (simp add: table_ok_def at n)
  moreover have "cr3 ?t = cr3 s" by (simp add: make_ready_def)
  ultimately show "sched_ok ?t"
    using c(1,2,5,6) assms(3) n by (auto simp: sched_ok_def at proc_pml4_def)
qed

text \<open>A fresh child is ready to be loaded; loading it keeps the table.\<close>

lemma child_loaded:
  assumes "sched_ok s" "process_create_user name s = Inr (Some k, t)" "core_view u = core_view t"
  obtains c where "sched_ok u" "current_proc u = Some c" "1 \<le> c" "c < k" "k < unat (process_count u)"
    "parent_pid (proc_at k u) = 0"
proof -
  note t = create_user_ok [OF assms(1,2)]
  have sp: "k = unat (process_count s)" "unat (process_count t) = Suc k" "parent_pid (proc_at k t) = 0"
    using t(3) [OF refl] by auto
  obtain c where c: "1 \<le> c" "c < unat (process_count s)" "current_proc s = Some c" by (rule sched_okE [OF assms(1)])
  have "proc_ok t" by (rule sched_okE [OF t(1)])
  then have l: "k < length (processes t)" using sp(2) proc_okD(1,3) by fastforce
  show ?thesis
    by (rule that [of c])
      (use c sp t(2) core_globals [OF assms(3)] core_fields(3) [OF assms(3) l] sched_ok_core [OF assms(3) t(1)] in auto)
qed

lemma free_and_return_ok: "sched_ok s \<Longrightarrow> free_and_return b code s = Inr (r, t) \<Longrightarrow> sched_ok t"
  by (auto simp: free_and_return_def kbind_Inr_iff dest!: kfree_view intro: sched_ok_core [OF view_core])

lemma spawn_image_ok:
  assumes "sched_ok s" "spawn_image path args img sz s = Inr (r, t)"
  shows "sched_ok t"
proof -
  obtain cp s1 where cr: "process_create_user (Some path) s = Inr (cp, s1)"
    using assms(2) by (auto simp: spawn_image_def kbind_Inr_iff)
  show ?thesis
  proof (cases cp)
    case None
    then show ?thesis
      using assms(2) cr free_and_return_ok [OF create_user_ok(1) [OF assms(1) cr]] by (simp add: spawn_image_def)
  next
    case (Some k)
    obtain err s2 where ld: "load_image k img sz s1 = Inr (err, s2)"
      using assms(2) cr Some by (auto simp: spawn_image_def kbind_Inr_iff)
    have v2: "core_view s2 = core_view s1" by (rule load_image_core [OF ld])
    show ?thesis
    proof (cases "err < 0")
      case True
      with assms(2) cr Some ld show ?thesis
        using free_and_return_ok [OF sched_ok_core [OF v2 create_user_ok(1) [OF assms(1) cr]]]
        by (simp add: spawn_image_def)
    next
      case False
      obtain s3 where fr: "kfree img s2 = Inr s3"
        using assms(2) cr Some ld False by (auto simp: spawn_image_def kbind_Inr_iff)
      have v3: "core_view s3 = core_view s1" using view_core [OF kfree_view [OF fr]] v2 by simp
      obtain c where c: "sched_ok s3" "current_proc s3 = Some c" "1 \<le> c" "c < k" "k < unat (process_count s3)"
        "parent_pid (proc_at k s3) = 0"
        by (rule child_loaded [OF assms(1) cr [unfolded Some] v3])
      have "core_view t = core_view (make_ready args k s3)"
        using assms(2) cr Some ld False fr
        by (auto simp: spawn_image_def Let_def intro!: view_core split: if_splits)
      then show ?thesis by (rule sched_ok_core) (rule make_ready_ok(1) [OF c(1,2,4-6)])
    qed
  qed
qed

lemma run_image_ok:
  assumes "sched_ok s" "run_image args img len s = Inr (r, t)"
  shows "sched_ok t"
proof -
  obtain cp s1 where cr: "process_create_user (Some (lit ''ore-image'')) s = Inr (cp, s1)"
    using assms(2) by (auto simp: run_image_def kbind_Inr_iff)
  show ?thesis
  proof (cases cp)
    case None
    then show ?thesis
      using assms(2) cr free_and_return_ok [OF create_user_ok(1) [OF assms(1) cr]] by (simp add: run_image_def)
  next
    case (Some k)
    obtain err s2 s3 where ld: "load_ore_image_into_process k img len s1 = Inr (err, s2)" and fr: "kfree img s2 = Inr s3"
      using assms(2) cr Some by (auto simp: run_image_def kbind_Inr_iff)
    have v3: "core_view s3 = core_view s1" using view_core [OF kfree_view [OF fr]] load_ore_image_core [OF ld] by simp
    obtain c where c: "sched_ok s3" "current_proc s3 = Some c" "1 \<le> c" "c < k" "k < unat (process_count s3)"
      "parent_pid (proc_at k s3) = 0"
      by (rule child_loaded [OF assms(1) cr [unfolded Some] v3])
    note m = make_ready_ok [OF c(1,2,4-6), of args]
    have tb: "table_ok {c} {} (make_ready args k s3)" using m(2) by (auto intro: sched_okE [OF m(1)])
    have "t = s3 \<or> t = wait_and_enter c k (make_ready args k s3)"
      using assms(2) cr Some ld fr m(2) by (auto simp: run_image_def Let_def process_current_def split: if_splits)
    then show ?thesis
      using c(1) wait_enter_ok [OF tb c(3,4) _ m(3,4)] c(5) m(5) by auto
  qed
qed

subsection \<open>System calls\<close>

lemma sched_ok_mem: "sched_ok s \<Longrightarrow> sched_ok (mem_update f s)"
  by (rule sched_ok_core [of _ s]) simp_all

lemma view_ok: "sched_view t = sched_view s \<Longrightarrow> sched_ok s \<Longrightarrow> sched_ok t"
  by (rule sched_ok_core [OF view_core])

lemmas step_oks = view_ok [OF kmalloc_view] view_ok [OF vfs_read_view(2)] free_and_return_ok [rotated]
  spawn_image_ok [rotated] run_image_ok [rotated] sched_ok_mem

lemma spawn_call_ok:
  assumes "sched_ok s" "sys_spawn a1 a2 s = Inr (r, t)"
  shows "sched_ok t"
proof -
  have "ends sched_ok (sys_spawn a1 a2 s)"
    unfolding sys_spawn_def Let_def
    by (intro ends_cases ends_rules assms(1))
      (auto simp: ends_def assms(1) intro: step_oks(1,2) free_and_return_ok [OF sched_ok_mem]
        spawn_image_ok [OF sched_ok_mem] split: if_splits)
  with assms(2) show ?thesis by (rule endsD)
qed

lemma exec_call_ok:
  assumes "sched_ok s" "sys_exec_image a1 a2 a3 s = Inr (r, t)"
  shows "sched_ok t"
proof -
  have "ends sched_ok (sys_exec_image a1 a2 a3 s)"
    unfolding sys_exec_image_def
    by (intro ends_cases ends_rules assms(1)) (auto simp: ends_def assms(1) intro: step_oks)
  with assms(2) show ?thesis by (rule endsD)
qed

lemma count_core: "core_view (count_syscall s) = core_view s"
proof -
  have "core_view (syscall_count_update f s) = core_view s" for f by (rule view_core) simp
  then show ?thesis by (auto simp: count_syscall_def Let_def update_core core_of_def split: option.split)
qed

lemma run_syscall_ok:
  assumes "env_ok env" "sched_ok s" "run_syscall env number a1 a2 a3 a4 s = Inr (r, t)"
  shows "sched_ok t"
proof (cases "sysno number")
  case None
  with assms(2,3) show ?thesis by (simp add: run_syscall_def)
next
  case (Some call)
  note keep = sched_ok_core [OF _ assms(2)]
  note view = keep [OF view_core]
  show ?thesis
  proof (cases call)
    case ORE_SYS_EXIT
    with assms Some sys_exit_ok show ?thesis by (auto simp: run_syscall_def)
  next
    case ORE_SYS_YIELD
    with assms(3) Some yield_ok [OF assms(2)] show ?thesis by (auto simp: run_syscall_def sys_yield_def)
  next
    case ORE_SYS_WAIT
    with assms Some sys_wait_ok show ?thesis by (auto simp: run_syscall_def)
  next
    case ORE_SYS_SPAWN
    with assms Some spawn_call_ok show ?thesis by (auto simp: run_syscall_def)
  next
    case ORE_SYS_EXEC_IMAGE
    with assms Some exec_call_ok show ?thesis by (auto simp: run_syscall_def)
  next
    case ORE_SYS_GETPID
    with assms Some show ?thesis by (auto simp: run_syscall_def sys_getpid_def)
  qed (use assms(3) Some in \<open>auto simp: run_syscall_def intro: keep view dest: file_call_cores console_call_views
        info_call_views kcmd_view [OF assms(1)] terrain_call_view\<close>)
qed

lemma dispatch_ok:
  assumes "env_ok env" "sched_ok s" "syscall_dispatch env number a1 a2 a3 a4 s = Inr (r, t)"
  shows "sched_ok t"
  using run_syscall_ok [OF assms(1) sched_ok_core [OF count_core assms(2)]] assms(3)
  by (simp add: syscall_dispatch_def)

subsection \<open>Interrupts and exit\<close>

lemma tick_ok:
  assumes "sched_ok s" "process_schedule_user_tick f s = (r, f1, t)"
  shows "sched_ok t"
  using assms(2)
proof (cases rule: tick_cases)
  case stay
  with assms(1) show ?thesis by simp
next
  case (switch a b)
  obtain c where c: "1 \<le> c" "c < unat (process_count s)" "c < length (processes s)" "process_current s = Some c"
    "table_ok {c} {} s" "unat (pid (proc_at c s)) = c" "proc_ok s"
    by (rule sched_okE [OF assms(1)])
  have a: "a = c" using switch(2) c(4) by simp
  let ?t = "update_proc a (switch_out f) s"
  have tb: "table_ok {} {} ?t" unfolding a
    by (rule table_update [OF c(5,1,2)]) (simp_all add: keeps_shape_def switch_out_def)
  have b: "1 \<le> b" "b < unat (process_count s)" "b \<noteq> c"
    using next_ready_Some [OF c(7) _ switch(6)] c(2,6) a by simp_all
  define g where "g = (\<lambda>q :: Process. if has_user_frame (proc_at b ?t) \<noteq> 0 then q
    else q\<lparr>user_frame := fresh_user_frame (proc_at b ?t), has_user_frame := 1\<rparr>)"
  have g: "core_of (g q) = core_of q" for q by (simp add: g_def core_of_def)
  have t2: "core_view (update_proc b g ?t) = core_view ?t" by (rule update_core) (rule g)
  have "t = write_cr3 (proc_pml4 b (process_set_current (Some b) (update_proc b g ?t)))
      (process_set_current (Some b) (update_proc b g ?t))"
    using switch(8) by (auto simp: Let_def g_def update_proc_def)
  then show ?thesis
    by (intro enter_ok [OF table_ok_core [OF t2 tb] b(1)])
      (use b in \<open>simp_all add: process_set_current_def proc_pml4_def\<close>)
qed

lemma isr_ok:
  assumes "sched_ok s" "isr_dispatch vec addr f s = Inr (r, t)"
  shows "sched_ok t"
proof -
  have ti: "sched_ok (timer_interrupt s)" by (rule view_ok [OF _ assms(1)]) simp
  obtain sw f1 s2 where sw: "(if current_cpu_id s = 0 then process_schedule_user_tick f (timer_interrupt s)
      else (0, f, timer_interrupt s)) = (sw, f1, s2)"
    by (metis surj_pair)
  have "sched_ok s2" using sw ti tick_ok [OF ti] by (auto split: if_splits)
  moreover have "sched_view t = sched_view s2"
    using assms(2) sw by (auto simp: isr_dispatch_def Let_def panic_def kbind_Inr_iff dest!: scheduler_tick_view
        split: if_splits)
  ultimately show ?thesis by (rule view_ok [rotated])
qed

subsection \<open>Exit\<close>

lemma blocked_chain:
  assumes "table_ok {} {} s" "\<And>i. 1 \<le> i \<Longrightarrow> i < unat (process_count s) \<Longrightarrow> pstate (proc_at i s) \<noteq> ORE_PROC_READY"
    and i: "1 \<le> i" "i < unat (process_count s)"
  shows "pstate (proc_at i s) = ORE_PROC_EXITED"
  using i
proof (induction "unat (process_count s) - i" arbitrary: i rule: less_induct)
  case less
  have sl: "slot_ok {} {} s i" by (rule table_okD(2) [OF assms(1) less.prems])
  show ?case
  proof (rule ccontr)
    assume "pstate (proc_at i s) \<noteq> ORE_PROC_EXITED"
    with sl assms(2) [OF less.prems] have w: "live_child i s" by (auto simp: slot_ok_def)
    let ?c = "unat (waiting_for_pid (proc_at i s))"
    from w have c: "i < ?c" "?c < unat (process_count s)" "pstate (proc_at ?c s) \<noteq> ORE_PROC_EXITED"
      by (simp_all add: live_child_def Let_def)
    moreover from c(1,2) have "unat (process_count s) - ?c < unat (process_count s) - i" by arith
    ultimately show False using less.hyps [of ?c] less.prems by simp
  qed
qed

lemma exit_to_next_total:
  assumes ok: "table_ok {} {} s" and e: "unat e < unat (process_count s)"
    and own: "pstate (proc_at (unat e) s) = ORE_PROC_EXITED"
    and i: "1 \<le> i" "i < unat (process_count s)" "pstate (proc_at i s) \<noteq> ORE_PROC_EXITED"
  shows "\<exists>r t p. exit_to_next e s = Inr (r, t) \<and> current_proc t = Some p \<and> p \<noteq> unat e"
proof (cases "next_ready_process e s")
  case None
  note pk = table_okD(1) [OF ok]
  have "\<not> ready_other e s p" if "1 \<le> p" "p < unat (process_count s)" for p
    using None set_scan_order [OF e] that next_ready_scan [OF proc_okD(2,3) [OF pk] e] by (auto simp: find_None_iff)
  then have "pstate (proc_at p s) \<noteq> ORE_PROC_READY" if "1 \<le> p" "p < unat (process_count s)" for p
    using that own proc_okD(6) [OF pk that(2)]
    by (cases "p = unat e") (simp, metis ready_other_def)
  from blocked_chain [OF ok this i(1,2)] i(3) show ?thesis by simp
next
  case (Some p)
  have "current_proc (enter_process_from_syscall p s) = Some p"
    by (simp add: enter_process_from_syscall_def Let_def syscall_override_return_def write_cr3_def process_set_current_def)
  with Some next_ready_Some(3) [OF table_okD(1) [OF ok] e Some] show ?thesis by (simp add: exit_to_next_def)
qed

subsection \<open>Boot\<close>

lemma process_init_ok:
  assumes "processes s = replicate 32 zero_process"
  shows "table_ok {} {} (process_init s)"
  using assms
  by (simp add: table_ok_def proc_ok_def process_init_def Let_def proc_at_def zero_process_def update_proc_def)

lemma init_spawn_ok:
  assumes ok: "table_ok {} {} s" and run: "user_init_spawn path s = Inr (r, t)"
  shows "sched_ok t"
proof -
  obtain p s1 where cr: "process_create_user (Some path) s = Inr (Some p, s1)"
    using run by (auto simp: user_init_spawn_def kbind_Inr_iff panic_def split: option.splits)
  obtain u root v where u: "process_create_kernel (Some path) s = (Some p, u)"
    and v: "vmm_create_user_pml4 u = Inr (root, v)"
    and s1: "s1 = update_proc p (\<lambda>q. q\<lparr>address_space := (address_space q)\<lparr>pml4_phys := root\<rparr>,
          user_alloc_next := 0x000000a000000000\<rparr>) v"
    using cr by (auto simp: process_create_user_def kbind_Inr_iff split: prod.splits option.splits)
  note sp = create_kernel_spec [OF table_okD(1) [OF ok] u]
  have vc: "core_view v = core_view u" by (rule view_core [OF vmm_views(4) [OF v]])
  note g = core_globals [OF vc]
  have p: "1 \<le> p" "p < unat (process_count v)" "p < length (processes v)"
    using sp(1-3,7) proc_okD(1,2) [OF table_okD(1) [OF ok]] g by simp_all
  have st: "pstate (proc_at p v) = ORE_PROC_READY" using core_fields(2) [OF vc] sp(10) p(3) g(1) by simp
  have ok1: "table_ok {} {} s1" unfolding s1
    by (rule table_update [OF table_ok_core [OF vc create_kernel_ok [OF ok u]] p(1,2)])
      (use st in \<open>simp_all add: keeps_shape_def\<close>)
  let ?s2 = "process_set_current (Some p) s1"
  obtain img sz s3 n data s4 st s5 where
    a: "kmalloc sz ?s2 = Inr (img, s3)" and b: "vfs_read_file (Some path) sz s3 = Inr ((n, data), s4)"
    and c: "load_init_image p img sz (s4\<lparr>mem := write_bytes (mem s4) img data\<rparr>) = Inr (st, s5)"
    and d: "sched_view t = sched_view (write_cr3 (proc_pml4 p s5) s5)"
    using run cr by (auto simp: user_init_spawn_def Let_def kbind_Inr_iff panic_def split: option.splits if_splits prod.splits)
  have c5: "core_view s5 = core_view ?s2"
    using view_core [OF kmalloc_view [OF a]] view_core [OF vfs_read_view(2) [OF b]] load_init_core [OF c] by simp
  have l: "p < length (processes ?s2)" using p(3) s1 by simp
  have "core_view t = core_view (write_cr3 (proc_pml4 p s5) s5)"
    by (rule view_core [OF d])
  also have "\<dots> = core_view (write_cr3 (proc_pml4 p s1) ?s2)"
    using c5 core_fields(5) [OF c5 l] by (simp add: core_view_def write_cr3_def process_set_current_def proc_pml4_def)
  finally show ?thesis
    by (rule enter_ok [OF ok1 p(1), rotated 2]) (use p(2) s1 in simp_all)
qed

lemma demo_kernel_procs [simp]:
  "proc_at 0 demo_kernel = demo_entry 0 ORE_PROC_RUNNING"
  "proc_at (Suc 0) demo_kernel = (demo_entry 1 ORE_PROC_BLOCKED)\<lparr>waiting_for_pid := 3,
     wait_return_rip := 0x8000001000, wait_return_rsp := 0x8fffffff00\<rparr>"
  "proc_at 2 demo_kernel = demo_child 2 ORE_PROC_RUNNING"
  "proc_at 3 demo_kernel = demo_child 3 ORE_PROC_READY"
  "process_count demo_kernel = 4" "current_proc demo_kernel = Some 2" "cr3 demo_kernel = 0x2000"
  "length (processes demo_kernel) = 32" "kernel_proc demo_kernel = Some 0"
  by (simp_all add: demo_kernel_def proc_at_def)

lemma demo_child_fields [simp]:
  "pid (demo_child i st) = i" "pstate (demo_child i st) = st" "parent_pid (demo_child i st) = 1"
  "pml4_phys (address_space (demo_child i st)) = 0x1000 * ucast i"
  "length (handles (demo_child i st)) = ORE_MAX_HANDLES" "length (user_allocs (demo_child i st)) = ORE_MAX_USER_ALLOCS"
  "parent_pid (demo_entry i st) = 0"
  "length (handles (demo_entry i st)) = ORE_MAX_HANDLES" "length (user_allocs (demo_entry i st)) = ORE_MAX_USER_ALLOCS"
  by (simp_all add: demo_child_def demo_entry_def zero_process_def)

lemma demo_kernel_ok: "sched_ok demo_kernel"
proof -
  have p: "proc_ok demo_kernel" by (simp add: proc_ok_def all_less_4)
  have "slot_ok {2} {} demo_kernel i" if "1 \<le> i" "i < 4" for i
  proof -
    from that consider "i = 1" | "i = 2" | "i = 3" by linarith
    then show ?thesis by cases (simp_all add: slot_ok_def live_child_def)
  qed
  with p show ?thesis by (simp add: sched_ok_def table_ok_def proc_pml4_def)
qed

lemma quiet_env_ok: "env_ok quiet_env"
  by (simp add: env_ok_def quiet_env_def)

text \<open>
  C21. Every run of system calls and interrupts keeps the process table consistent: exactly one user
  process is running, it is the current one, the loaded page table is its own, every process was
  created by an older one, and every process that is blocked waits for a child of its own that has
  not exited (no wake-up is lost). The commands of loaded modules are assumed to leave the process
  table and \<open>cr3\<close> alone.
\<close>

theorem kernel_keeps_process_table:
  assumes "env_ok env" "sched_ok s" "kernel_run env s t"
  shows "sched_ok t \<and> (\<exists>c. current_proc t = Some c \<and> cr3 t = proc_pml4 c t
      \<and> {i \<in> {1..<unat (process_count t)}. pstate (proc_at i t) = ORE_PROC_RUNNING} = {c})
    \<and> (\<forall>i \<in> {1..<unat (process_count t)}. unat (parent_pid (proc_at i t)) < i
        \<and> (pstate (proc_at i t) = ORE_PROC_BLOCKED \<longrightarrow> live_child i t))"
proof -
  from assms(3) have ok: "sched_ok t"
  proof induction
    case start
    show ?case by (rule assms(2))
  next
    case (user t m ip sp)
    show ?case by (intro view_ok [OF _ user.IH]) (simp add: sched_view_def)
  next
    case (call t number a1 a2 a3 a4 r u)
    show ?case by (rule dispatch_ok [OF assms(1) call.IH call.hyps(2)])
  next
    case (interrupt t vec addr f r u)
    show ?case by (rule isr_ok [OF interrupt.IH interrupt.hyps(2)])
  qed
  obtain c where c: "1 \<le> c" "c < unat (process_count t)" "current_proc t = Some c"
    "pstate (proc_at c t) = ORE_PROC_RUNNING" "cr3 t = proc_pml4 c t" "table_ok {c} {} t"
    by (rule sched_okE [OF ok])
  have sl: "slot_ok {c} {} t i" if "1 \<le> i" "i < unat (process_count t)" for i
    by (rule table_okD(2) [OF c(6) that])
  have "{i \<in> {1..<unat (process_count t)}. pstate (proc_at i t) = ORE_PROC_RUNNING} = {c}"
    (is "?R = _")
  proof (intro equalityI subsetI)
    fix i assume "i \<in> ?R"
    then show "i \<in> {c}" using sl [of i] by (simp add: slot_ok_def)
  next
    fix i assume "i \<in> {c}"
    with c(1,2,4) show "i \<in> ?R" by simp
  qed
  moreover have "\<forall>i \<in> {1..<unat (process_count t)}. unat (parent_pid (proc_at i t)) < i
      \<and> (pstate (proc_at i t) = ORE_PROC_BLOCKED \<longrightarrow> live_child i t)"
    using sl by (simp add: slot_ok_def)
  ultimately show ?thesis using ok c(3,5) by blast
qed

lemma yield_call: "syscall_dispatch env 4 a1 a2 a3 a4 s = Inr (0, snd (schedule_next_from_syscall (count_syscall s)))"
  by (simp add: syscall_dispatch_def run_syscall_def sysno_def ore_syscalls_def sys_yield_def)

theorem kernel_keeps_process_table_witness:
  "env_ok (quiet_env :: scheduler sys_env) \<and> sched_ok demo_kernel
    \<and> (\<exists>c. current_proc (snd (schedule_next_from_syscall (count_syscall demo_kernel))) = Some c)"
  using kernel_keeps_process_table [OF quiet_env_ok demo_kernel_ok kernel_run.call [OF kernel_run.start yield_call]]
    quiet_env_ok demo_kernel_ok by blast

text \<open>
  The invariant holds when the first process starts: after \<open>process_init\<close> on the zeroed table and a
  successful \<open>user_init_spawn\<close>.
\<close>

lemma boot_sched_ok:
  assumes "processes s = replicate 32 zero_process" "user_init_spawn path (process_init s) = Inr (r, t)"
  shows "sched_ok t"
  by (rule init_spawn_ok [OF process_init_ok [OF assms(1)] assms(2)])

lemma proc_at_override [simp]: "proc_at p (syscall_override_return a b s) = proc_at p s"
  by (simp add: proc_at_def syscall_override_return_def)

lemma resume_fields:
  assumes "p < length (processes s)"
  shows "current_proc (resume_parent p s) = Some p" "g_sysret_rip (resume_parent p s) = wait_return_rip (proc_at p s)"
    "g_sysret_rsp (resume_parent p s) = wait_return_rsp (proc_at p s)" "g_sysret_override (resume_parent p s) = 1"
    "cr3 (resume_parent p s) = proc_pml4 p s"
    "proc_at i (resume_parent p s) = (if i = p then (proc_at p s)\<lparr>pstate := ORE_PROC_RUNNING, wait_return_rip := 0,
       wait_return_rsp := 0, waiting_for_pid := 0\<rparr> else proc_at i s)"
  using assms by (simp_all add: resume_parent_def Let_def process_set_current_def write_cr3_def syscall_override_return_def
      update_proc_def proc_pml4_def proc_at_def nth_list_update)

text \<open>
  C31. The exit of any child resumes a waiting parent. When the parent of the exiting process has the
  return point of a wait set, \<open>sys_exit\<close> returns into the parent at that point with the exit code of the
  exiting process, whichever child the parent waits for: \<open>waiting_for_pid\<close> is cleared without being
  compared, and the process waited for is left as it was.
\<close>

theorem exit_resumes_any_waiter:
  assumes "sched_ok s" "current_proc s = Some c" "par = unat (parent_pid (proc_at c s))" "1 \<le> par"
    "wait_return_rip (proc_at par s) \<noteq> 0" "wait_return_rsp (proc_at par s) \<noteq> 0"
  shows "\<exists>t. sys_exit a s = Inr (ucast (ucast a :: u32), t) \<and> current_proc t = Some par
    \<and> g_sysret_rip t = wait_return_rip (proc_at par s) \<and> g_sysret_rsp t = wait_return_rsp (proc_at par s)
    \<and> g_sysret_override t = 1 \<and> cr3 t = proc_pml4 par s
    \<and> waiting_for_pid (proc_at par t) = 0 \<and> pstate (proc_at par t) = ORE_PROC_RUNNING
    \<and> exited (proc_at c t) = 1 \<and> pstate (proc_at c t) = ORE_PROC_EXITED
    \<and> (\<forall>i. i \<noteq> par \<longrightarrow> i \<noteq> c \<longrightarrow> proc_at i t = proc_at i s)"
proof -
  obtain c' where c': "1 \<le> c'" "c' < unat (process_count s)" "c' < length (processes s)" "current_proc s = Some c'"
    "process_current s = Some c'" "table_ok {c'} {} s" by (rule sched_okE [OF assms(1)])
  have "c' = c" using c'(4) assms(2) by simp
  note c = c' [unfolded this]
  let ?e = "exit_state a c s"
  note at = exit_state_at [OF c(3)]
  have lt: "par < c" using table_okD(2) [OF c(6,1,2)] assms(3) by (simp add: slot_ok_def)
  have f: "process_find (parent_pid (proc_at c s)) ?e = Some par"
    using process_find_pid [OF table_okD(1) [OF exit_state_ok [OF c(6,1,2)]], of "parent_pid (proc_at c s)"] assms(3) lt c(2)
    by (simp add: at)
  have p0: "parent_pid (proc_at c s) \<noteq> 0" using assms(3,4) by auto
  have "sys_exit a s = Inr (ucast (ucast a :: u32), resume_parent par ?e)"
    using f p0 lt assms(5,6) unfolding sys_exit_def c(5) option.case Let_def exit_state_def [symmetric] by (simp add: at)
  moreover have "par < length (processes ?e)" "proc_pml4 par ?e = proc_pml4 par s"
    using lt c(3) by (simp_all add: exit_state_def proc_pml4_def)
  ultimately show ?thesis
    using lt by (auto simp: resume_fields at)
qed

theorem exit_resumes_any_waiter_witness:
  "\<exists>t. sys_exit 7 demo_kernel = Inr (7, t) \<and> current_proc t = Some 1
     \<and> waiting_for_pid (proc_at 1 demo_kernel) = 3 \<and> pstate (proc_at 3 t) = ORE_PROC_READY"
  using exit_resumes_any_waiter [OF demo_kernel_ok, of 2 1 7] by (auto simp: demo_child_def demo_entry_def)

text \<open>
  C22. Exit never stops the machine while another process is alive: if some other process has not
  exited, the exit of the current process returns into one (its parent, or the next ready process),
  and the process table is consistent again.
\<close>

theorem exit_finds_successor:
  assumes "sched_ok s" "current_proc s = Some c" "i \<in> {1..<unat (process_count s)}" "i \<noteq> c"
    "pstate (proc_at i s) \<noteq> ORE_PROC_EXITED"
  shows "\<exists>r t d. sys_exit a s = Inr (r, t) \<and> sched_ok t \<and> current_proc t = Some d \<and> d \<noteq> c"
proof -
  obtain c' where c': "1 \<le> c'" "c' < unat (process_count s)" "c' < length (processes s)" "current_proc s = Some c'"
    "process_current s = Some c'" "table_ok {c'} {} s" "unat (pid (proc_at c' s)) = c'"
    by (rule sched_okE [OF assms(1)])
  have cc: "c' = c" using c'(4) assms(2) by simp
  note c = c' [unfolded cc]
  let ?e = "exit_state a c s" and ?par = "unat (parent_pid (proc_at c s))"
  note at = exit_state_at [OF c(3)]
  have own: "unat (pid (proc_at c s)) < unat (process_count ?e)" using c(2,7) by (simp add: at)
  have lt: "?par < c" using table_okD(2) [OF c(6,1,2)] by (simp add: slot_ok_def)
  have "\<exists>r t d. sys_exit a s = Inr (r, t) \<and> current_proc t = Some d \<and> d \<noteq> c"
  proof (cases rule: sys_exit_cases [OF c(6,1,2,5) refl, of a, case_names next_one resume wake])
    case next_one
    have "\<exists>r t d. exit_to_next (pid (proc_at c s)) ?e = Inr (r, t) \<and> current_proc t = Some d \<and> d \<noteq> unat (pid (proc_at c s))"
      by (rule exit_to_next_total [OF next_one(2) own, where i = i]) (use assms(3-5) c(7) in \<open>auto simp: at\<close>)
    with next_one(1) c(7) show ?thesis by simp
  next
    case resume
    moreover have "current_proc (resume_parent ?par ?e) = Some ?par"
      by (simp add: resume_parent_def Let_def syscall_override_return_def write_cr3_def process_set_current_def)
    ultimately show ?thesis using lt by simp
  next
    case wake
    let ?u = "update_proc ?par (\<lambda>q. q\<lparr>waiting_for_pid := 0, pstate := ORE_PROC_READY\<rparr>) ?e"
    have l: "?par < length (processes ?e)" using lt c(3) by (simp add: exit_state_def)
    have ok: "table_ok {} {} ?u"
      by (rule table_update [OF exit_state_ok [OF c(6,1,2)] wake(1)]) (use lt c(2) in \<open>auto simp: keeps_shape_def at\<close>)
    have "\<exists>r t d. exit_to_next (pid (proc_at c s)) ?u = Inr (r, t) \<and> current_proc t = Some d \<and> d \<noteq> unat (pid (proc_at c s))"
      by (rule exit_to_next_total [OF ok, where i = ?par]) (use own wake(1) lt c(2,7) l in \<open>auto simp: at\<close>)
    with wake(2) c(7) show ?thesis by simp
  qed
  with sys_exit_ok [OF assms(1)] show ?thesis by blast
qed

theorem exit_finds_successor_witness:
  "\<exists>r t d. sys_exit 7 demo_kernel = Inr (r, t) \<and> sched_ok t \<and> current_proc t = Some d \<and> d \<noteq> 2"
  using exit_finds_successor [OF demo_kernel_ok, of 2 3] by simp

end
