(* ===== verification/Scheduler_Spec.thy ===== *)
theory Scheduler_Spec
  imports Kernel_Invariant
begin

text \<open>
  Kernel threads: the linked run queues and the scheduler over them.

  \<open>chain\<close> relates a linked list of threads to the list it stands for and \<open>queued\<close> a run queue to its
  content; \<open>fifo_queue\<close> is the interface of a queue, which \<open>enqueue_thread\<close> and \<open>dequeue_thread\<close> meet.
  \<open>threads_inv\<close> is the invariant of the scheduler, \<open>thread_step\<close> one of its operations and \<open>thread_run\<close> a
  sequence of them that counts the ticks.
\<close>

subsection \<open>Definitions\<close>

fun chain :: "(thread_ptr \<Rightarrow> Thread) \<Rightarrow> thread_ptr option \<Rightarrow> thread_ptr list \<Rightarrow> bool" where
  "chain ts h [] = (h = None)"
| "chain ts h (x # xs) = (h = Some x \<and> chain ts (tnext (ts x)) xs)"

definition queued :: "u32 \<Rightarrow> 'a scheduler_scheme \<Rightarrow> thread_ptr list \<Rightarrow> bool" where
  "queued c s xs \<longleftrightarrow> unat c < length (sched s) \<and> distinct xs \<and> chain (threads s) (run_queue (sched_at c s)) xs"

text \<open>Two states whose threads differ in their links only, and whose CPUs differ in their run queue only.\<close>

definition same_threads :: "'a scheduler_scheme \<Rightarrow> 'a scheduler_scheme \<Rightarrow> bool" where
  "same_threads s t \<longleftrightarrow> (\<forall>x. (threads t x)\<lparr>tnext := None\<rparr> = (threads s x)\<lparr>tnext := None\<rparr>)
     \<and> map (\<lambda>q. q\<lparr>run_queue := None\<rparr>) (sched t) = map (\<lambda>q. q\<lparr>run_queue := None\<rparr>) (sched s)
     \<and> thread_count t = thread_count s"

definition runnable :: "'a scheduler_scheme \<Rightarrow> u32 \<Rightarrow> thread_ptr set" where
  "runnable s c = {Kthread i | i. i < unat (thread_count s) \<and> tstate (threads s (Kthread i)) = THREAD_RUNNABLE
     \<and> tcpu (threads s (Kthread i)) = c}"

fun current_ok :: "'a scheduler_scheme \<Rightarrow> u32 \<Rightarrow> thread_ptr option \<Rightarrow> bool" where
  "current_ok s c (Some (Kthread i)) = (c = 0 \<and> i < unat (thread_count s) \<and> tcpu (threads s (Kthread i)) = 0)"
| "current_ok s c _ = True"

text \<open>
  \<open>Q c\<close> is the run queue of the CPU \<open>c\<close>: its runnable threads, each once, except the threads in \<open>E\<close>,
  which have been taken out of a queue and are about to run.
\<close>

definition threads_inv :: "thread_ptr set \<Rightarrow> (u32 \<Rightarrow> thread_ptr list) \<Rightarrow> 'a scheduler_scheme \<Rightarrow> bool" where
  "threads_inv E Q s \<longleftrightarrow> length (sched s) = 64 \<and> thread_count s \<le> MAX_THREADS
     \<and> (\<forall>c. unat c < 64 \<longrightarrow> queued c s (Q c) \<and> set (Q c) = runnable s c - E)
     \<and> (\<forall>i < unat (thread_count s). unat (tid (threads s (Kthread i))) = i + 1 \<and> unat (tcpu (threads s (Kthread i))) < 64)
     \<and> (\<forall>j. tid (threads s (Bootstrap j)) = 0)
     \<and> (\<forall>c. unat c < 64 \<longrightarrow> current_ok s c (sc_current (sched_at c s)))
     \<and> (\<forall>i < unat (thread_count s). tstate (threads s (Kthread i)) = THREAD_RUNNING \<longrightarrow>
          sc_current (sched_at 0 s) = Some (Kthread i))"

text \<open>A change of a thread that keeps its link, its identity and its CPU.\<close>

definition keeps_links :: "(Thread \<Rightarrow> Thread) \<Rightarrow> bool" where
  "keeps_links f \<longleftrightarrow> (\<forall>th. tnext (f th) = tnext th \<and> tid (f th) = tid th \<and> tcpu (f th) = tcpu th)"

definition same_cpus :: "'a scheduler_scheme \<Rightarrow> 'a scheduler_scheme \<Rightarrow> bool" where
  "same_cpus s t \<longleftrightarrow> thread_count t = thread_count s
     \<and> (\<forall>c. unat c < 64 \<longrightarrow> sc_current (sched_at c t) = sc_current (sched_at c s)
          \<and> sc_started (sched_at c t) = sc_started (sched_at c s))"

definition thread_part :: "'a scheduler_scheme \<Rightarrow> (thread_ptr \<Rightarrow> Thread) \<times> SchedulerCpu list \<times> u32" where
  "thread_part s = (threads s, sched s, thread_count s)"

text \<open>The code that calls an operation of the scheduler is not itself waiting in a run queue.\<close>

definition calling :: "'a scheduler_scheme \<Rightarrow> bool" where
  "calling s \<longleftrightarrow> unat (current_cpu_id s) < 64 \<and>
     (\<forall>x. sc_current (sched_at (current_cpu_id s) s) = Some x \<longrightarrow> tstate (threads s x) \<noteq> THREAD_RUNNABLE)"

inductive thread_step :: "bool \<Rightarrow> 'a scheduler_scheme \<Rightarrow> 'a scheduler_scheme \<Rightarrow> bool" where
  create: "thread_create entry_asm addr_of fn arg c name s = Inr (r, t) \<Longrightarrow> thread_step False s t"
| tick: "unat c < 64 \<Longrightarrow> scheduler_tick c sp s = Inr (r, t) \<Longrightarrow> thread_step (c = 0 \<and> sc_started (sched_at 0 s)) s t"
| sleep: "calling s \<Longrightarrow> thread_step False s (thread_sleep n s)"
| block: "calling s \<Longrightarrow> thread_block q s = (q', t) \<Longrightarrow> thread_step False s t"
| unblock: "i < unat (thread_count s) \<Longrightarrow> thread_unblock (Some (Kthread i)) s = Inr t \<Longrightarrow> thread_step False s t"
| finish: "sc_current (sched_at 0 s) = Some x \<Longrightarrow> tstate (threads s x) \<noteq> THREAD_RUNNABLE \<Longrightarrow>
    thread_bootstrap (\<lambda>_ _ s. Inr s) x s = Inr t \<Longrightarrow> thread_step False s t"
| start: "unat (current_cpu_id s) < 64 \<Longrightarrow> sc_current (sched_at (current_cpu_id s) s) = None \<Longrightarrow>
    thread_step False s (scheduler_start_current_cpu s)"
| other: "thread_part t = thread_part s \<Longrightarrow> thread_step False s t"

inductive thread_run :: "nat \<Rightarrow> 'a scheduler_scheme \<Rightarrow> 'a scheduler_scheme \<Rightarrow> bool" where
  none: "thread_run 0 s s"
| step: "thread_run n s t \<Longrightarrow> thread_step b t u \<Longrightarrow> thread_run (n + of_bool b) s u"

text \<open>A run with \<open>n\<close> ticks in which the thread \<open>x\<close> stays runnable.\<close>

inductive waits :: "thread_ptr \<Rightarrow> nat \<Rightarrow> 'a scheduler_scheme \<Rightarrow> 'a scheduler_scheme \<Rightarrow> bool" for x where
  none: "waits x 0 s s"
| step: "waits x n s t \<Longrightarrow> thread_step b t u \<Longrightarrow> tstate (threads u x) = THREAD_RUNNABLE \<Longrightarrow> waits x (n + of_bool b) s u"

definition demo_threads :: scheduler where
  "demo_threads = demo_kernel\<lparr>
     sched := \<lparr>sc_current = Some (Bootstrap 0), run_queue = Some (Kthread (Suc 0)), sc_switches = 0, sc_started = True\<rparr>
       # replicate 63 \<lparr>sc_current = None, run_queue = None, sc_switches = 0, sc_started = False\<rparr>,
     threads := (\<lambda>x. case x of
        Bootstrap j \<Rightarrow> \<lparr>tid = 0, tstate = THREAD_RUNNING, tcpu = 0, saved_sp = 0, tstack_base = 0, tstack_top = 0,
          tswitches = 0, tentry = 0, targ = 0, tname = None, wake_tick = 0, tnext = None\<rparr>
      | Kthread i \<Rightarrow> \<lparr>tid = word_of_nat (i + 1), tstate = THREAD_RUNNABLE, tcpu = 0, saved_sp = 0x5000 + word_of_nat i,
          tstack_base = 0, tstack_top = 0, tswitches = 0, tentry = 0x100000, targ = 0, tname = None, wake_tick = 0,
          tnext = if i = 1 then Some (Kthread 0) else None\<rparr>),
     thread_count := 2\<rparr>"

definition demo_sleeper :: scheduler where
  "demo_sleeper = update_thread (Kthread 0) (\<lambda>th. th\<lparr>tstate := THREAD_RUNNING\<rparr>)
     (update_sched 0 (\<lambda>q. q\<lparr>sc_current := Some (Kthread 0), run_queue := None\<rparr>) (demo_threads\<lparr>thread_count := 1\<rparr>))"

subsection \<open>Linked lists\<close>

lemma chain_cong: "(\<And>x. x \<in> set xs \<Longrightarrow> tnext (ts x) = tnext (us x)) \<Longrightarrow> chain ts h xs = chain us h xs"
  by (induction xs arbitrary: h) auto

lemma chain_unique: "chain ts h xs \<Longrightarrow> chain ts h ys \<Longrightarrow> xs = ys"
proof (induction xs arbitrary: h ys)
  case Nil
  then show ?case by (cases ys) auto
next
  case (Cons x xs)
  then show ?case by (cases ys) auto
qed

lemma queue_tail_chain: "chain ts (tnext (ts x)) xs \<Longrightarrow> queue_tail ts x = Some (last (x # xs))"
proof (induction xs arbitrary: x)
  case Nil
  then show ?case by (subst queue_tail.simps) simp
next
  case (Cons y ys)
  then show ?case by (subst queue_tail.simps) simp
qed

lemma chain_snoc:
  "chain ts h xs \<Longrightarrow> xs \<noteq> [] \<Longrightarrow> distinct xs \<Longrightarrow> t \<notin> set xs \<Longrightarrow> tnext (ts t) = None \<Longrightarrow>
    chain (ts(last xs := (ts (last xs))\<lparr>tnext := Some t\<rparr>)) h (xs @ [t])"
proof (induction xs arbitrary: h)
  case Nil
  then show ?case by simp
next
  case (Cons x xs)
  then show ?case by (cases xs) (auto simp: fun_upd_def)
qed

lemma sched_at_update:
  "unat c < length (sched s) \<Longrightarrow> sched_at c (update_sched c f s) = f (sched_at c s)"
  "d \<noteq> c \<Longrightarrow> sched_at d (update_sched c f s) = sched_at d s"
  "length (sched (update_sched c f s)) = length (sched s)" "threads (update_sched c f s) = threads s"
  "thread_count (update_sched c f s) = thread_count s"
  by (simp_all add: sched_at_def update_sched_def unat_eq_iff nth_list_update)

lemma update_thread_fields [simp]:
  "sched (update_thread t f s) = sched s" "thread_count (update_thread t f s) = thread_count s"
  "threads (update_thread t f s) = (threads s)(t := f (threads s t))" "sched_at c (update_thread t f s) = sched_at c s"
  by (simp_all add: update_thread_def sched_at_def)

subsection \<open>The run queue is a FIFO queue\<close>

locale fifo_queue =
  fixes queue :: "'s \<Rightarrow> 'x list \<Rightarrow> bool" and enq :: "'x \<Rightarrow> 's \<Rightarrow> halt + 's" and deq :: "'s \<Rightarrow> 'x option \<times> 's"
  assumes enq_law: "queue s xs \<Longrightarrow> x \<notin> set xs \<Longrightarrow> \<exists>t. enq x s = Inr t \<and> queue t (xs @ [x])"
    and deq_nil: "queue s [] \<Longrightarrow> deq s = (None, s)"
    and deq_cons: "queue s (x # xs) \<Longrightarrow> \<exists>t. deq s = (Some x, t) \<and> queue t xs"
begin

fun enqs :: "'x list \<Rightarrow> 's \<Rightarrow> halt + 's" where
  "enqs [] s = Inr s"
| "enqs (x # xs) s = kbind (enq x s) (enqs xs)"

fun deqs :: "nat \<Rightarrow> 's \<Rightarrow> 'x list \<times> 's" where
  "deqs 0 s = ([], s)"
| "deqs (Suc n) s = (case deq s of (None, t) \<Rightarrow> ([], t) | (Some x, t) \<Rightarrow> (let (xs, u) = deqs n t in (x # xs, u)))"

lemma enqs_append:
  "queue s xs \<Longrightarrow> distinct ys \<Longrightarrow> set xs \<inter> set ys = {} \<Longrightarrow> \<exists>t. enqs ys s = Inr t \<and> queue t (xs @ ys)"
proof (induction ys arbitrary: xs s)
  case Nil
  then show ?case by simp
next
  case (Cons y ys)
  then obtain t where t: "enq y s = Inr t" "queue t (xs @ [y])" using enq_law [of s xs y] by auto
  from Cons.IH [OF t(2)] Cons.prems obtain u where "enqs ys t = Inr u" "queue u (xs @ y # ys)" by auto
  with t(1) show ?case by (simp add: kbind_def)
qed

lemma deqs_take: "queue s xs \<Longrightarrow> fst (deqs n s) = take n xs \<and> queue (snd (deqs n s)) (drop n xs)"
proof (induction n arbitrary: s xs)
  case 0
  then show ?case by simp
next
  case (Suc n)
  then show ?case
  proof (cases xs)
    case Nil
    with Suc.prems deq_nil [of s] show ?thesis by simp
  next
    case (Cons y ys)
    with Suc.prems deq_cons [of s y ys] obtain t where t: "deq s = (Some y, t)" "queue t ys" by auto
    from Suc.IH [OF t(2)] t(1) Cons show ?thesis by (simp add: case_prod_unfold)
  qed
qed

lemma fifo:
  assumes "queue s xs" "distinct ys" "set xs \<inter> set ys = {}"
  shows "\<exists>t. enqs ys s = Inr t \<and> fst (deqs (length xs + length ys) t) = xs @ ys"
proof -
  from enqs_append [OF assms] obtain t where "enqs ys s = Inr t" "queue t (xs @ ys)" by blast
  with deqs_take [of t "xs @ ys" "length xs + length ys"] show ?thesis by simp
qed

end

lemma enqueue_queued:
  assumes "queued c s xs" "t \<notin> set xs"
  shows "\<exists>u. enqueue_thread c t s = Inr u \<and> queued c u (xs @ [t]) \<and> same_threads s u
    \<and> (\<forall>d ys. d \<noteq> c \<longrightarrow> queued d s ys \<longrightarrow> t \<notin> set ys \<longrightarrow> set xs \<inter> set ys = {} \<longrightarrow> queued d u ys)"
proof -
  let ?s1 = "update_thread t (\<lambda>th. th\<lparr>tnext := None\<rparr>) s"
  have c: "unat c < length (sched s)" and d: "distinct xs" and ch: "chain (threads s) (run_queue (sched_at c s)) xs"
    using assms(1) by (simp_all add: queued_def)
  have keep: "chain (threads ?s1) h ys = chain (threads s) h ys" if "t \<notin> set ys" for h ys
    by (rule chain_cong) (use that in auto)
  show ?thesis
  proof (cases xs)
    case Nil
    with ch have "enqueue_thread c t s = Inr (update_sched c (\<lambda>q. q\<lparr>run_queue := Some t\<rparr>) ?s1)"
      by (simp add: enqueue_thread_def)
    moreover have "same_threads s (update_sched c (\<lambda>q. q\<lparr>run_queue := Some t\<rparr>) ?s1)"
      using c by (auto simp: same_threads_def update_sched_def nth_list_update intro!: nth_equalityI)
    ultimately show ?thesis
      using c Nil keep by (auto simp: queued_def sched_at_update)
  next
    case (Cons h ys)
    let ?u = "update_thread (last xs) (\<lambda>th. th\<lparr>tnext := Some t\<rparr>) ?s1"
    have h: "run_queue (sched_at c s) = Some h" using ch Cons by simp
    have ch1: "chain (threads ?s1) (run_queue (sched_at c s)) xs" using ch keep assms(2) by simp
    have "queue_tail (threads ?s1) h = Some (last xs)"
      using ch1 Cons queue_tail_chain [of "threads ?s1" h ys] by simp
    then have "enqueue_thread c t s = Inr ?u"
      using h by (simp add: enqueue_thread_def of_loop_def kbind_def)
    moreover have "chain (threads ?u) (run_queue (sched_at c s)) (xs @ [t])"
      using chain_snoc [OF ch1 _ d assms(2)] Cons by simp
    moreover have "queued e ?u zs" if "queued e s zs" "t \<notin> set zs" "set xs \<inter> set zs = {}" for e zs
    proof -
      have "last xs \<notin> set zs" using that(3) Cons by (metis disjoint_iff last_in_set list.distinct(1))
      then have "chain (threads ?u) g zs = chain (threads ?s1) g zs" for g by (intro chain_cong) auto
      with that(1) keep [OF that(2)] show ?thesis by (simp add: queued_def)
    qed
    moreover have "same_threads s ?u" using assms(2) by (simp add: same_threads_def)
    ultimately show ?thesis using c d assms(2) by (auto simp: queued_def)
  qed
qed

lemma dequeue_queued:
  assumes "queued c s (t # xs)"
  shows "\<exists>u. dequeue_thread c s = (Some t, u) \<and> queued c u xs \<and> same_threads s u
    \<and> (\<forall>d ys. d \<noteq> c \<longrightarrow> queued d s ys \<longrightarrow> t \<notin> set ys \<longrightarrow> queued d u ys)"
proof -
  let ?u = "update_thread t (\<lambda>th. th\<lparr>tnext := None\<rparr>) (update_sched c (\<lambda>q. q\<lparr>run_queue := tnext (threads s t)\<rparr>) s)"
  have c: "unat c < length (sched s)" using assms by (simp add: queued_def)
  have "chain (threads ?u) h ys = chain (threads s) h ys" if "t \<notin> set ys" for h ys
    by (rule chain_cong) (use that in \<open>auto simp: sched_at_update\<close>)
  moreover have "dequeue_thread c s = (Some t, ?u)" using assms by (simp add: dequeue_thread_def queued_def)
  moreover have "same_threads s ?u"
    using c by (auto simp: same_threads_def update_sched_def nth_list_update intro!: nth_equalityI)
  ultimately show ?thesis using assms c by (auto simp: queued_def sched_at_update)
qed

interpretation runq: fifo_queue "queued c" "enqueue_thread c" "dequeue_thread c" for c
proof
  fix s :: "'a scheduler_scheme" and xs x
  show "queued c s xs \<Longrightarrow> x \<notin> set xs \<Longrightarrow> \<exists>t. enqueue_thread c x s = Inr t \<and> queued c t (xs @ [x])"
    using enqueue_queued [of c s xs x] by blast
  show "queued c s [] \<Longrightarrow> dequeue_thread c s = (None, s)" by (simp add: queued_def dequeue_thread_def)
  show "queued c s (x # xs) \<Longrightarrow> \<exists>t. dequeue_thread c s = (Some x, t) \<and> queued c t xs"
    using dequeue_queued [of c s x xs] by blast
qed

lemma threads_invD:
  assumes "threads_inv E Q s"
  shows "length (sched s) = 64" "thread_count s \<le> MAX_THREADS" "unat c < 64 \<Longrightarrow> queued c s (Q c)"
    "unat c < 64 \<Longrightarrow> set (Q c) = runnable s c - E"
    "i < unat (thread_count s) \<Longrightarrow> unat (tid (threads s (Kthread i))) = i + 1"
    "i < unat (thread_count s) \<Longrightarrow> unat (tcpu (threads s (Kthread i))) < 64"
    "tid (threads s (Bootstrap j)) = 0" "unat c < 64 \<Longrightarrow> current_ok s c (sc_current (sched_at c s))"
    "i < unat (thread_count s) \<Longrightarrow> tstate (threads s (Kthread i)) = THREAD_RUNNING \<Longrightarrow> sc_current (sched_at 0 s) = Some (Kthread i)"
  using assms unfolding threads_inv_def by blast+

lemma in_runnable [simp]:
  "Kthread i \<in> runnable s c \<longleftrightarrow> i < unat (thread_count s) \<and> tstate (threads s (Kthread i)) = THREAD_RUNNABLE
     \<and> tcpu (threads s (Kthread i)) = c" "Bootstrap j \<notin> runnable s c"
  by (auto simp: runnable_def)

lemma same_threadsD:
  assumes "same_threads s t"
  shows "tid (threads t x) = tid (threads s x)" "tstate (threads t x) = tstate (threads s x)"
    "tcpu (threads t x) = tcpu (threads s x)" "saved_sp (threads t x) = saved_sp (threads s x)"
    "thread_count t = thread_count s" "length (sched t) = length (sched s)"
    "unat c < length (sched s) \<Longrightarrow> sc_current (sched_at c t) = sc_current (sched_at c s)"
    "unat c < length (sched s) \<Longrightarrow> sc_started (sched_at c t) = sc_started (sched_at c s)"
proof -
  have x: "(threads t x)\<lparr>tnext := None\<rparr> = (threads s x)\<lparr>tnext := None\<rparr>" for x
    using assms by (simp add: same_threads_def)
  from x [of x] show "tid (threads t x) = tid (threads s x)" "tstate (threads t x) = tstate (threads s x)"
    "tcpu (threads t x) = tcpu (threads s x)" "saved_sp (threads t x) = saved_sp (threads s x)"
    by (cases "threads t x"; cases "threads s x"; simp)+
  show "thread_count t = thread_count s" using assms by (simp add: same_threads_def)
  have m: "map (\<lambda>q. q\<lparr>run_queue := None\<rparr>) (sched t) = map (\<lambda>q. q\<lparr>run_queue := None\<rparr>) (sched s)"
    using assms by (simp add: same_threads_def)
  then show l: "length (sched t) = length (sched s)" by (metis length_map)
  have "(sched_at c t)\<lparr>run_queue := None\<rparr> = (sched_at c s)\<lparr>run_queue := None\<rparr>" if "unat c < length (sched s)"
    using arg_cong [OF m, of "\<lambda>l. l ! unat c"] that l by (simp add: sched_at_def)
  then show "unat c < length (sched s) \<Longrightarrow> sc_current (sched_at c t) = sc_current (sched_at c s)"
    "unat c < length (sched s) \<Longrightarrow> sc_started (sched_at c t) = sc_started (sched_at c s)"
    by (cases "sched_at c t"; cases "sched_at c s"; simp)+
qed

lemma same_threads_refl [simp]: "same_threads s s" by (simp add: same_threads_def)

lemma runnable_same: "same_threads s t \<Longrightarrow> runnable t c = runnable s c"
  by (simp add: runnable_def same_threadsD)

lemma current_ok_same: "same_threads s t \<Longrightarrow> current_ok t c h = current_ok s c h"
  by (cases "(s, c, h)" rule: current_ok.cases) (simp_all add: same_threadsD)

text \<open>The part of the invariant that does not depend on the links.\<close>

lemma threads_inv_same:
  assumes inv: "threads_inv E Q s" and same: "same_threads s t"
    and q: "\<And>c. unat c < 64 \<Longrightarrow> queued c t (Q' c)" "\<And>c. unat c < 64 \<Longrightarrow> set (Q' c) = runnable s c - E'"
  shows "threads_inv E' Q' t"
proof -
  note d = threads_invD [OF inv] and e = same_threadsD [OF same]
  show ?thesis
    unfolding threads_inv_def e(1-3,5,6)
    using q d(1,2,5-9) e(7) by (simp add: runnable_same [OF same] current_ok_same [OF same])
qed

lemma runnable_cpu: "x \<in> runnable s c \<Longrightarrow> x \<in> runnable s d \<Longrightarrow> c = d"
  by (auto simp: runnable_def)

lemma update_keeps_queued:
  "(\<forall>th. tnext (f th) = tnext th) \<or> x \<notin> set xs \<Longrightarrow> queued c (update_thread x f s) xs = queued c s xs"
  unfolding queued_def by (simp, intro impI conj_cong refl chain_cong) auto

lemma current_ok_update: "(\<And>th. tcpu (f th) = tcpu th) \<Longrightarrow> current_ok (update_thread x f s) c h = current_ok s c h"
  by (cases "(s, c, h)" rule: current_ok.cases) auto

text \<open>A change of a thread that stays where it is.\<close>

lemma update_inv:
  assumes inv: "threads_inv E Q s" and f: "keeps_links f" "tstate (f (threads s x)) = tstate (threads s x)"
  shows "threads_inv E Q (update_thread x f s)"
proof -
  note d = threads_invD [OF inv]
  have "y \<in> runnable (update_thread x f s) c \<longleftrightarrow> y \<in> runnable s c" for y c
    using f by (cases y) (auto simp: keeps_links_def)
  then have "runnable (update_thread x f s) c = runnable s c" for c by blast
  moreover have "queued c (update_thread x f s) (Q c)" if "unat c < 64" for c
    using d(3) [OF that] f(1) by (subst update_keeps_queued) (simp_all add: keeps_links_def)
  moreover have "current_ok (update_thread x f s) c h = current_ok s c h" for c h
    by (rule current_ok_update) (use f(1) in \<open>simp add: keeps_links_def\<close>)
  ultimately show ?thesis
    unfolding threads_inv_def using d(1,2,4-9) f by (auto simp: keeps_links_def)
qed

text \<open>A thread that is in no queue stops, or becomes runnable, or is given new links.\<close>

lemma leave_inv:
  assumes inv: "threads_inv E Q s" and x: "tstate (threads s x) \<noteq> THREAD_RUNNABLE"
    and f: "\<And>th. tid (f th) = tid th" "\<And>th. tcpu (f th) = tcpu th" "tstate (f (threads s x)) \<noteq> THREAD_RUNNING"
  shows "threads_inv (if tstate (f (threads s x)) = THREAD_RUNNABLE then insert x E else E) Q (update_thread x f s)"
    (is "threads_inv ?E Q ?t")
proof -
  note d = threads_invD [OF inv]
  have notin: "x \<notin> set (Q c)" if "unat c < 64" for c
    using d(4) [OF that] x by (cases x) auto
  have "y \<in> runnable ?t c - ?E \<longleftrightarrow> y \<in> runnable s c - E" for y c
    using f x by (cases y; cases "y = x") auto
  then have "runnable ?t c - ?E = runnable s c - E" for c by blast
  moreover have "queued c ?t (Q c)" if "unat c < 64" for c
    using d(3) [OF that] notin [OF that] by (subst update_keeps_queued) simp_all
  moreover have "current_ok ?t c h = current_ok s c h" for c h by (rule current_ok_update) (rule f(2))
  ultimately show ?thesis
    unfolding threads_inv_def using d(1,2,4-9) f by auto
qed

lemma enqueue_inv:
  assumes inv: "threads_inv (insert x E) Q s" and x: "x \<in> runnable s c" "x \<notin> E" and c: "unat c < 64"
  shows "\<exists>u. enqueue_thread c x s = Inr u \<and> threads_inv E (Q(c := Q c @ [x])) u \<and> same_threads s u"
proof -
  note d = threads_invD [OF inv]
  have notin: "x \<notin> set (Q e)" if "unat e < 64" for e
    using d(4) [OF that] by auto
  from enqueue_queued [OF d(3) [OF c] notin [OF c]] obtain u where
    u: "enqueue_thread c x s = Inr u" "queued c u (Q c @ [x])" "same_threads s u"
    "\<And>e ys. e \<noteq> c \<Longrightarrow> queued e s ys \<Longrightarrow> x \<notin> set ys \<Longrightarrow> set (Q c) \<inter> set ys = {} \<Longrightarrow> queued e u ys" by blast
  have sep: "set (Q c) \<inter> set (Q e) = {}" if "e \<noteq> c" "unat e < 64" for e
    using d(4) [OF c] d(4) [OF that(2)] runnable_cpu that(1) by (metis DiffD1 disjoint_iff)
  have "threads_inv E (Q(c := Q c @ [x])) u"
  proof (rule threads_inv_same [OF inv u(3)])
    fix e :: u32
    assume e: "unat e < 64"
    show "queued e u ((Q(c := Q c @ [x])) e)"
      using u(2) u(4) [OF _ d(3) [OF e] notin [OF e] sep [OF _ e]] by (cases "e = c") auto
    have "e \<noteq> c \<Longrightarrow> x \<notin> runnable s e" using x(1) runnable_cpu by blast
    then show "set ((Q(c := Q c @ [x])) e) = runnable s e - E"
      using d(4) [OF e] x by (cases "e = c") auto
  qed
  with u(1,3) show ?thesis by blast
qed

text \<open>A thread of no queue becomes runnable and joins the queue of its CPU.\<close>

lemma make_runnable_inv:
  assumes inv: "threads_inv E Q s" and i: "i < unat (thread_count s)" "Kthread i \<notin> E"
    and st: "tstate (threads s (Kthread i)) \<noteq> THREAD_RUNNABLE" and c: "tcpu (threads s (Kthread i)) = c"
    and f: "keeps_links f" "\<And>th. tstate (f th) = THREAD_RUNNABLE"
  shows "\<exists>u. enqueue_thread c (Kthread i) (update_thread (Kthread i) f s) = Inr u
    \<and> threads_inv E (Q(c := Q c @ [Kthread i])) u \<and> same_threads (update_thread (Kthread i) f s) u"
proof (rule enqueue_inv)
  show "threads_inv (insert (Kthread i) E) Q (update_thread (Kthread i) f s)"
    using leave_inv [OF inv st, of f] f by (simp add: keeps_links_def)
  show "Kthread i \<in> runnable (update_thread (Kthread i) f s) c" using i(1) c f by (simp add: keeps_links_def)
  show "unat c < 64" using threads_invD(6) [OF inv i(1)] c by simp
qed (fact i(2))

lemma dequeue_inv:
  assumes inv: "threads_inv {} Q s" and c: "unat c < 64" "Q c = x # xs"
  shows "\<exists>u. dequeue_thread c s = (Some x, u) \<and> threads_inv {x} (Q(c := xs)) u \<and> same_threads s u"
proof -
  note d = threads_invD [OF inv]
  have q: "queued c s (x # xs)" using d(3) [OF c(1)] c(2) by simp
  from dequeue_queued [OF q] obtain u where u: "dequeue_thread c s = (Some x, u)" "queued c u xs" "same_threads s u"
    "\<And>e ys. e \<noteq> c \<Longrightarrow> queued e s ys \<Longrightarrow> x \<notin> set ys \<Longrightarrow> queued e u ys" by blast
  have x: "x \<in> runnable s c" "x \<notin> set xs" using d(4) [OF c(1)] c(2) q by (auto simp: queued_def)
  then have notin: "x \<notin> set (Q e)" if "e \<noteq> c" "unat e < 64" for e
    using d(4) [OF that(2)] runnable_cpu that(1) by (metis DiffD1)
  have "threads_inv {x} (Q(c := xs)) u"
  proof (rule threads_inv_same [OF inv u(3)])
    fix e :: u32
    assume e: "unat e < 64"
    show "queued e u ((Q(c := xs)) e)"
      using u(2) u(4) [OF _ d(3) [OF e] notin [OF _ e]] by (cases "e = c") auto
    show "set ((Q(c := xs)) e) = runnable s e - {x}"
      using d(4) [OF e] c(2) x notin [OF _ e] by (cases "e = c") auto
  qed
  with u(1,3) show ?thesis by blast
qed

subsection \<open>Operations\<close>

lemma threads_inv_cong:
  assumes "threads t = threads s" "sched t = sched s" "thread_count t = thread_count s"
  shows "threads_inv E Q t \<longleftrightarrow> threads_inv E Q s"
proof -
  have "queued c t = queued c s" "runnable t c = runnable s c" "sched_at c t = sched_at c s" for c
    by (simp_all add: fun_eq_iff queued_def runnable_def sched_at_def assms)
  moreover have "current_ok t c h = current_ok s c h" for c h
    by (cases "(s, c, h)" rule: current_ok.cases) (simp_all add: assms)
  ultimately show ?thesis by (simp add: threads_inv_def assms)
qed

lemma same_cpus_trans: "same_cpus s t \<Longrightarrow> same_cpus t u \<Longrightarrow> same_cpus s u"
  by (simp add: same_cpus_def)

lemma same_cpusI: "threads_inv E Q s \<Longrightarrow> same_threads (update_thread x f s) u \<Longrightarrow> same_cpus s u"
  using same_threadsD(5,7,8) [of "update_thread x f s" u] by (simp add: same_cpus_def threads_invD(1))

lemma wake_loop_inv:
  assumes "threads_inv {} Q s" "unat c < 64" "\<forall>i \<in> set is. i < unat (thread_count s)"
  shows "\<exists>t ys. wake_loop c now is s = Inr t \<and> threads_inv {} (Q(c := Q c @ ys)) t \<and> same_cpus s t"
  using assms
proof (induction "is" arbitrary: s Q)
  case Nil
  then show ?case by (intro exI [of _ s] exI [of _ "[]"]) (simp add: same_cpus_def)
next
  case (Cons i ks)
  let ?th = "threads s (Kthread i)"
  show ?case
  proof (cases "tcpu ?th = c \<and> tstate ?th = THREAD_SLEEPING \<and> wake_tick ?th \<le> now")
    case True
    have i: "i < unat (thread_count s)" using Cons.prems by simp
    obtain u where u: "enqueue_thread c (Kthread i) (update_thread (Kthread i) (\<lambda>t. t\<lparr>tstate := THREAD_RUNNABLE\<rparr>) s) = Inr u"
      "threads_inv {} (Q(c := Q c @ [Kthread i])) u"
      "same_threads (update_thread (Kthread i) (\<lambda>t. t\<lparr>tstate := THREAD_RUNNABLE\<rparr>) s) u"
      using make_runnable_inv [OF Cons.prems(1) i, of c "\<lambda>t. t\<lparr>tstate := THREAD_RUNNABLE\<rparr>"] True by (auto simp: keeps_links_def)
    have su: "same_cpus s u" by (rule same_cpusI [OF Cons.prems(1) u(3)])
    have ks: "\<forall>i \<in> set ks. i < unat (thread_count u)" using Cons.prems(3) su by (simp add: same_cpus_def)
    from Cons.IH [OF u(2) Cons.prems(2) ks] obtain t ys where
      t: "wake_loop c now ks u = Inr t" "threads_inv {} (Q(c := Q c @ [Kthread i] @ ys)) t" "same_cpus u t"
      unfolding fun_upd_upd fun_upd_same append_assoc by blast
    have "wake_loop c now (i # ks) s = Inr t" using u(1) t(1) True by (simp add: Let_def kbind_def)
    with t(2) same_cpus_trans [OF su t(3)] show ?thesis by blast
  next
    case False
    with Cons show ?thesis by (auto simp: Let_def)
  qed
qed

lemma wake_sleepers_inv:
  assumes "threads_inv {} Q s" "unat c < 64"
  shows "\<exists>t ys. wake_sleepers c s = Inr t \<and> threads_inv {} (Q(c := Q c @ ys)) t \<and> same_cpus s t"
  unfolding wake_sleepers_def by (rule wake_loop_inv [OF assms]) auto

lemma enqueue_sp: "enqueue_thread c x s = Inr t \<Longrightarrow> saved_sp (threads t y) = saved_sp (threads s y)"
  by (auto simp: enqueue_thread_def Let_def kbind_Inr_iff sched_at_update split: option.splits)

lemma wake_loop_sp: "wake_loop c now ks s = Inr t \<Longrightarrow> saved_sp (threads t y) = saved_sp (threads s y)"
proof (induction ks arbitrary: s)
  case Nil
  then show ?case by simp
next
  case (Cons i ks)
  then show ?case by (auto simp: Let_def kbind_Inr_iff dest: enqueue_sp split: if_splits)
qed

lemma put_back_sp:
  "put_back c sp cu s = Inr t \<Longrightarrow> tid (threads s x) \<noteq> 0 \<Longrightarrow>
    saved_sp (threads t x) = (if cu = Some x then sp else saved_sp (threads s x))"
  by (auto simp: put_back_def dest: enqueue_sp split: option.splits if_splits)

lemma put_back_inv:
  assumes inv: "threads_inv {x} Q s" and x: "x \<in> runnable s 0" and cur: "sc_current (sched_at 0 s) = cu"
  shows "\<exists>t ys. put_back 0 sp cu s = Inr t \<and> threads_inv {x} (Q(0 := Q 0 @ ys)) t \<and> same_cpus s t \<and> x \<in> runnable t 0
    \<and> (\<forall>i < unat (thread_count t). tstate (threads t (Kthread i)) \<noteq> THREAD_RUNNING)"
proof -
  note d = threads_invD [OF inv]
  have same: "\<exists>t ys. put_back 0 sp cu s = Inr t \<and> threads_inv {x} (Q(0 := Q 0 @ ys)) t \<and> same_cpus s t \<and> x \<in> runnable t 0
    \<and> (\<forall>i < unat (thread_count t). tstate (threads t (Kthread i)) \<noteq> THREAD_RUNNING)"
    if "put_back 0 sp cu s = Inr t" "threads_inv {x} Q t" "same_cpus s t" "x \<in> runnable t 0"
      "\<forall>i < unat (thread_count t). tstate (threads t (Kthread i)) \<noteq> THREAD_RUNNING" for t
    using that by (intro exI [of _ t] exI [of _ "[]"]) simp
  show ?thesis
  proof (cases cu)
    case None
    then show ?thesis
      using inv x d(9) cur by (intro same [of s]) (auto simp: put_back_def same_cpus_def)
  next
    case (Some y)
    show ?thesis
    proof (cases y)
      case (Bootstrap j)
      then show ?thesis
        using inv x d(7,9) cur Some by (intro same [of s]) (auto simp: put_back_def same_cpus_def)
    next
      case (Kthread i)
      have i: "i < unat (thread_count s)" "tcpu (threads s (Kthread i)) = 0"
        using d(8) [of 0] cur Some Kthread by simp_all
      have tid: "tid (threads s (Kthread i)) \<noteq> 0" using d(5) [OF i(1)] by (metis add_is_0 one_neq_zero unat_0)
      let ?f = "\<lambda>th. th\<lparr>saved_sp := sp, tstate := THREAD_RUNNABLE\<rparr>" and ?g = "\<lambda>th. th\<lparr>saved_sp := sp\<rparr>"
      show ?thesis
      proof (cases "tstate (threads s y) = THREAD_RUNNING")
        case True
        then have ne: "Kthread i \<notin> {x}" using x Kthread by auto
        obtain u where u: "enqueue_thread 0 (Kthread i) (update_thread (Kthread i) ?f s) = Inr u"
          "threads_inv {x} (Q(0 := Q 0 @ [Kthread i])) u" "same_threads (update_thread (Kthread i) ?f s) u"
          using make_runnable_inv [OF inv i(1) ne _ i(2), of ?f] True Kthread by (auto simp: keeps_links_def)
        have "x \<in> runnable u 0" unfolding runnable_same [OF u(3)] using x ne by (cases x) auto
        moreover have "tstate (threads u (Kthread k)) \<noteq> THREAD_RUNNING" if "k < unat (thread_count u)" for k
          using that same_threadsD(2,5) [OF u(3)] d(9) [of k] cur Some Kthread by auto
        moreover have "put_back 0 sp cu s = Inr u" using u(1) True tid Some Kthread by (simp add: put_back_def)
        ultimately show ?thesis using u(2) same_cpusI [OF inv u(3)] by blast
      next
        case False
        have "put_back 0 sp cu s = Inr (update_thread y ?g s)" using False tid Some Kthread by (simp add: put_back_def)
        moreover have "threads_inv {x} Q (update_thread y ?g s)" by (rule update_inv [OF inv]) (simp_all add: keeps_links_def)
        moreover have "x \<in> runnable (update_thread y ?g s) 0" using x by (cases x) auto
        moreover have "\<forall>k < unat (thread_count (update_thread y ?g s)). tstate (threads (update_thread y ?g s) (Kthread k)) \<noteq> THREAD_RUNNING"
          using d(9) cur Some Kthread False by auto
        moreover have "same_cpus s (update_thread y ?g s)" by (simp add: same_cpus_def)
        ultimately show ?thesis by (intro same)
      qed
    qed
  qed
qed

text \<open>The thread that was taken out of the queue runs.\<close>

lemma run_inv:
  assumes inv: "threads_inv {Kthread i} Q s" and i: "Kthread i \<in> runnable s 0"
    and idle: "\<forall>k < unat (thread_count s). tstate (threads s (Kthread k)) \<noteq> THREAD_RUNNING"
    and f: "keeps_links f" "\<And>th. tstate (f th) = THREAD_RUNNING"
    and g: "\<And>q. sc_current (g q) = Some (Kthread i)" "\<And>q. run_queue (g q) = run_queue q"
  shows "threads_inv {} Q (update_sched 0 g (update_thread (Kthread i) f s))"
proof -
  note d = threads_invD [OF inv]
  let ?t = "update_thread (Kthread i) f s" and ?u = "update_sched 0 g (update_thread (Kthread i) f s)"
  have l: "unat (0::u32) < length (sched ?t)" using d(1) by simp
  have at: "run_queue (sched_at c ?u) = run_queue (sched_at c s)"
    "sc_current (sched_at c ?u) = (if c = 0 then Some (Kthread i) else sc_current (sched_at c s))" for c
    using g sched_at_update(1) [OF l] sched_at_update(2) [of c 0 g ?t] by (cases "c = 0"; simp)+
  have q: "queued c ?u (Q c)" if "unat c < 64" for c
    using d(3) [OF that] at(1) [of c] d(1) update_keeps_queued [of f "Kthread i" "Q c" c s] f(1)
    by (simp add: queued_def sched_at_update keeps_links_def)
  have "y \<in> runnable ?u c \<longleftrightarrow> y \<in> runnable s c - {Kthread i}" for y c
    using i f by (cases y) (auto simp: sched_at_update keeps_links_def)
  then have run: "set (Q c) = runnable ?u c - {}" if "unat c < 64" for c using d(4) [OF that] by auto
  have cur: "current_ok ?u c (sc_current (sched_at c ?u))" if "unat c < 64" for c
  proof (cases "c = 0")
    case True
    then show ?thesis using i f(1) by (simp add: at(2)) (simp add: sched_at_update keeps_links_def)
  next
    case False
    with d(8) [OF that] f(1) show ?thesis
      unfolding at(2) by (cases "(s, c, sc_current (sched_at c s))" rule: current_ok.cases)
        (auto simp: sched_at_update keeps_links_def)
  qed
  show ?thesis
    unfolding threads_inv_def using d(1,2,5-7) q run cur idle f at(2) [of 0]
    by (auto simp: sched_at_update keeps_links_def)
qed

lemma tick_inv:
  assumes inv: "threads_inv {} Q s" and on: "sc_started (sched_at 0 s)"
  shows "\<exists>r t Q' ys. scheduler_tick 0 sp s = Inr (r, t) \<and> threads_inv {} Q' t \<and> thread_count t = thread_count s
    \<and> sc_started (sched_at 0 t)
    \<and> (case Q 0 @ ys of [] \<Rightarrow> r = 0 \<and> Q' 0 = []
       | x # xs \<Rightarrow> (\<exists>zs. Q' 0 = xs @ zs) \<and> sc_current (sched_at 0 t) = Some x \<and> tstate (threads t x) = THREAD_RUNNING
          \<and> r = saved_sp (threads t x) \<and> r = (if sc_current (sched_at 0 s) = Some x then sp else saved_sp (threads s x)))"
proof -
  obtain s1 ys where s1: "wake_sleepers 0 s = Inr s1" "threads_inv {} (Q(0 := Q 0 @ ys)) s1" "same_cpus s s1"
    using wake_sleepers_inv [OF inv, of 0] by auto
  show ?thesis
  proof (cases "Q 0 @ ys")
    case Nil
    have "dequeue_thread 0 s1 = (None, s1)"
      using threads_invD(3) [OF s1(2), of 0] Nil by (simp add: queued_def dequeue_thread_def)
    then have "scheduler_tick 0 sp s = Inr (0, s1)"
      using on s1(1) by (simp add: scheduler_tick_def kbind_def)
    then show ?thesis
      using s1(2,3) Nil on by (intro exI [of _ 0] exI [of _ s1] exI [of _ "Q(0 := Q 0 @ ys)"] exI [of _ ys])
        (simp add: same_cpus_def)
  next
    case (Cons x xs)
    obtain s2 where s2: "dequeue_thread 0 s1 = (Some x, s2)" "threads_inv {x} (Q(0 := xs)) s2" "same_threads s1 s2"
      using dequeue_inv [OF s1(2), of 0 x xs] Cons by auto
    have x1: "x \<in> runnable s1 0" using threads_invD(4) [OF s1(2), of 0] Cons by auto
    then have x2: "x \<in> runnable s2 0" unfolding runnable_same [OF s2(3)] .
    then obtain i where i: "x = Kthread i" by (cases x) auto
    have "sc_current (sched_at 0 s2) = sc_current (sched_at 0 s1)"
      using same_threadsD(7) [OF s2(3), of 0] threads_invD(1) [OF s1(2)] by simp
    from put_back_inv [OF s2(2) x2 this, of sp] obtain s3 zs where
      s3: "put_back 0 sp (sc_current (sched_at 0 s1)) s2 = Inr s3" "threads_inv {x} (Q(0 := xs @ zs)) s3" "same_cpus s2 s3"
        "x \<in> runnable s3 0" "\<forall>i < unat (thread_count s3). tstate (threads s3 (Kthread i)) \<noteq> THREAD_RUNNING"
      by auto
    have "tid (threads s2 x) \<noteq> 0" using threads_invD(5) [OF s2(2), of i] x2 i by (metis add_is_0 in_runnable(1) one_neq_zero unat_0)
    from put_back_sp [OF s3(1) this] have sp: "saved_sp (threads s3 x) = (if sc_current (sched_at 0 s) = Some x then sp else saved_sp (threads s x))"
      using same_threadsD(4) [OF s2(3), of x] wake_loop_sp [OF s1(1) [unfolded wake_sleepers_def], of x] s1(3)
      by (simp add: same_cpus_def)
    let ?f = "\<lambda>th. th\<lparr>tstate := THREAD_RUNNING, tswitches := tswitches th + 1\<rparr>"
    let ?g = "\<lambda>q. q\<lparr>sc_current := Some x, sc_switches := sc_switches q + 1\<rparr>"
    let ?s5 = "update_sched 0 ?g (update_thread x ?f s3)"
    let ?s6 = "if trace_switches ?s5 < 8 then ?s5\<lparr>trace_switches := trace_switches ?s5 + 1\<rparr> else ?s5"
    have s5: "threads_inv {} (Q(0 := xs @ zs)) ?s5"
      unfolding i by (rule run_inv [OF s3(2,4) [unfolded i] s3(5)]) (simp_all add: keeps_links_def)
    then have s6: "threads_inv {} (Q(0 := xs @ zs)) ?s6"
      by (subst threads_inv_cong [of _ ?s5]) simp_all
    have sp6: "saved_sp (threads ?s6 x) = saved_sp (threads s3 x)" by (simp add: sched_at_update)
    then have tick: "scheduler_tick 0 sp s = Inr (saved_sp (threads s3 x), ?s6)"
      using on s1(1) s2(1) s3(1) by (simp add: scheduler_tick_def kbind_def Let_def)
    have l: "unat (0::u32) < length (sched s3)" using threads_invD(1) [OF s3(2)] by simp
    have "sc_started (sched_at 0 s3)" "thread_count s3 = thread_count s"
      using s1(3) same_threadsD(5,8) [OF s2(3)] s3(3) on threads_invD(1) [OF s1(2)] by (simp_all add: same_cpus_def)
    then have "thread_count ?s6 = thread_count s" "sc_started (sched_at 0 ?s6)" "sc_current (sched_at 0 ?s6) = Some x"
       "tstate (threads ?s6 x) = THREAD_RUNNING"
      using l by (simp_all add: sched_at_def update_sched_def)
    with tick s6 Cons sp sp6 show ?thesis
      by (intro exI [of _ "saved_sp (threads s3 x)"] exI [of _ ?s6] exI [of _ "Q(0 := xs @ zs)"] exI [of _ ys]) simp
  qed
qed

inductive_cases thread_stepE: "thread_step b s t"

lemma thread_part_fold: "(\<And>x t. thread_part (f x t) = thread_part t) \<Longrightarrow> thread_part (fold f xs s) = thread_part s"
  by (induction xs arbitrary: s) simp_all

lemma thread_part_upd [simp]:
  "thread_part (bitmap_set p s) = thread_part s" "thread_part (free_page_count_update f s) = thread_part s"
  "thread_part (used_page_count_update f s) = thread_part s" "thread_part (mem_update g s) = thread_part s"
  by (simp_all add: bitmap_set_def thread_part_def)

lemma thread_part_pmm [simp]: "thread_part (snd (pmm_alloc_pages n s)) = thread_part s"
  by (simp add: pmm_alloc_pages_def mark_pages_def thread_part_fold Let_def split: option.split)

lemma parked_inv:
  assumes "threads_inv {} Q s" "tstate (threads s x) \<noteq> THREAD_RUNNABLE" "\<And>th. tid (f th) = tid th" "\<And>th. tcpu (f th) = tcpu th"
    "\<And>th. tstate (f th) \<noteq> THREAD_RUNNING" "\<And>th. tstate (f th) \<noteq> THREAD_RUNNABLE"
  shows "threads_inv {} Q (update_thread x f s)"
  using leave_inv [OF assms(1,2), of f] assms(3-6) by simp

lemma sleep_inv: "threads_inv {} Q s \<Longrightarrow> calling s \<Longrightarrow> threads_inv {} Q (thread_sleep n s)"
  by (auto simp: thread_sleep_def Let_def calling_def parked_inv split: option.split)

lemma block_inv: "threads_inv {} Q s \<Longrightarrow> calling s \<Longrightarrow> thread_block q s = (q', t) \<Longrightarrow> threads_inv {} Q t"
  by (auto simp: thread_block_def Let_def calling_def parked_inv split: option.splits if_splits)

lemma finish_inv:
  "threads_inv {} Q s \<Longrightarrow> tstate (threads s x) \<noteq> THREAD_RUNNABLE \<Longrightarrow> thread_bootstrap (\<lambda>_ _ s. Inr s) x s = Inr t \<Longrightarrow>
    threads_inv {} Q t"
  by (auto simp: thread_bootstrap_def kbind_def parked_inv)

lemma start_inv:
  assumes inv: "threads_inv {} Q s" and c: "unat (current_cpu_id s) < 64" "sc_current (sched_at (current_cpu_id s) s) = None"
  shows "threads_inv {} Q (scheduler_start_current_cpu s)"
proof -
  note d = threads_invD [OF inv]
  let ?t = "scheduler_start_current_cpu s"
  have l: "unat (current_cpu_id s) < length (sched s)" using c(1) d(1) by simp
  have at: "run_queue (sched_at e ?t) = run_queue (sched_at e s)"
    "sc_current (sched_at e ?t) = (if e = current_cpu_id s then Some (Bootstrap (unat (current_cpu_id s))) else sc_current (sched_at e s))" for e
    using l by (cases "e = current_cpu_id s"; simp add: scheduler_start_current_cpu_def Let_def sched_at_update)+
  have f: "threads ?t (Kthread i) = threads s (Kthread i)" "tid (threads ?t (Bootstrap j)) = 0" "thread_count ?t = thread_count s"
    "length (sched ?t) = length (sched s)" "tnext (threads ?t x) = tnext (threads s x)" for i j x
    using d(7) by (simp_all add: scheduler_start_current_cpu_def Let_def sched_at_update)
  have q: "queued e ?t (Q e)" if "unat e < 64" for e
    using d(3) [OF that] chain_cong [of "Q e" "threads ?t" "threads s"] f(4,5) by (simp add: queued_def at)
  have r: "runnable ?t e = runnable s e" for e by (simp add: runnable_def f)
  have cur: "current_ok ?t e (sc_current (sched_at e ?t))" if "unat e < 64" for e
    using d(8) [OF that] unfolding at(2) by (cases "(s, e, sc_current (sched_at e s))" rule: current_ok.cases) (auto simp: f)
  show ?thesis
    unfolding threads_inv_def r using d(1,2,4-6,9) q cur c(2) by (auto simp: f at(2))
qed

lemma unblock_inv:
  assumes inv: "threads_inv {} Q s" and i: "i < unat (thread_count s)"
  shows "\<exists>t ys. thread_unblock (Some (Kthread i)) s = Inr t \<and> threads_inv {} (Q(tcpu (threads s (Kthread i)) := Q (tcpu (threads s (Kthread i))) @ ys)) t
    \<and> (ys \<noteq> [] \<longrightarrow> tstate (threads s (Kthread i)) \<noteq> THREAD_RUNNABLE)"
proof (cases "tstate (threads s (Kthread i)) = THREAD_RUNNABLE \<or> tstate (threads s (Kthread i)) = THREAD_RUNNING")
  case True
  with inv show ?thesis by (intro exI [of _ s] exI [of _ "[]"]) (simp add: thread_unblock_def)
next
  case False
  from make_runnable_inv [OF inv i _ _ refl, of "\<lambda>t. t\<lparr>tstate := THREAD_RUNNABLE\<rparr>"] False obtain u where
    "enqueue_thread (tcpu (threads s (Kthread i))) (Kthread i)
       (update_thread (Kthread i) (\<lambda>t. t\<lparr>tstate := THREAD_RUNNABLE\<rparr>) s) = Inr u"
    "threads_inv {} (Q(tcpu (threads s (Kthread i)) := Q (tcpu (threads s (Kthread i))) @ [Kthread i])) u"
    by (auto simp: keeps_links_def)
  with False show ?thesis by (intro exI [of _ u] exI [of _ "[Kthread i]"]) (simp add: thread_unblock_def)
qed

text \<open>A slot of the table becomes a runnable thread.\<close>

lemma new_thread_inv:
  assumes inv: "threads_inv {} Q s" and n: "thread_count s < MAX_THREADS" and c: "unat c < 64"
    and t: "sched t = sched s" "thread_count t = thread_count s + 1"
      "\<And>x. x \<noteq> Kthread (unat (thread_count s)) \<Longrightarrow> threads t x = threads s x"
      "tid (threads t (Kthread (unat (thread_count s)))) = thread_count s + 1"
      "tcpu (threads t (Kthread (unat (thread_count s)))) = c"
      "tstate (threads t (Kthread (unat (thread_count s)))) = THREAD_RUNNABLE"
  shows "threads_inv {Kthread (unat (thread_count s))} Q t" "Kthread (unat (thread_count s)) \<in> runnable t c"
proof -
  note d = threads_invD [OF inv]
  let ?n = "unat (thread_count s)"
  have u: "unat (thread_count s + 1) = ?n + 1" "?n < 32"
    using n by (simp_all add: MAX_THREADS_def word_less_nat_alt unat_add_exact)
  then show "Kthread ?n \<in> runnable t c" using t by simp
  have run: "runnable t e - {Kthread ?n} = runnable s e" for e
  proof (rule set_eqI)
    fix x
    show "x \<in> runnable t e - {Kthread ?n} \<longleftrightarrow> x \<in> runnable s e"
      using t(2) t(3) [of x] u(1) by (cases x) auto
  qed
  have notin: "Kthread ?n \<notin> set (Q e)" if "unat e < 64" for e using d(4) [OF that] by auto
  have q: "queued e t (Q e)" if "unat e < 64" for e
  proof -
    have "chain (threads t) h (Q e) = chain (threads s) h (Q e)" for h
      by (rule chain_cong) (use t(3) notin [OF that] in metis)
    with d(3) [OF that] show ?thesis by (simp add: queued_def sched_at_def t(1))
  qed
  have at: "sched_at e t = sched_at e s" for e by (simp add: sched_at_def t(1))
  have cur: "current_ok t e (sc_current (sched_at e t))" if "unat e < 64" for e
    unfolding at using d(8) [OF that] t(2) u(1)
    by (cases "(s, e, sc_current (sched_at e s))" rule: current_ok.cases) (auto simp: t(3))
  have old: "threads t (Kthread i) = threads s (Kthread i)" if "i < ?n" for i using that by (intro t(3)) auto
  have "thread_count t \<le> MAX_THREADS" using u by (simp add: t(2) word_le_nat_alt MAX_THREADS_def)
  moreover have "unat (tid (threads t (Kthread i))) = i + 1 \<and> unat (tcpu (threads t (Kthread i))) < 64
      \<and> (tstate (threads t (Kthread i)) = THREAD_RUNNING \<longrightarrow> sc_current (sched_at 0 t) = Some (Kthread i))"
    if "i < unat (thread_count t)" for i
  proof (cases "i = ?n")
    case True
    then show ?thesis using t(4-6) u(1) c by simp
  next
    case False
    then have "i < ?n" using that u(1) t(2) by simp
    then show ?thesis using d(5,6,9) old by (simp add: at)
  qed
  ultimately show "threads_inv {Kthread ?n} Q t"
    unfolding threads_inv_def using d(1,4,7) q run cur t(1,3) by auto
qed

lemma create_made:
  assumes inv: "threads_inv {} Q s" and al: "pmm_alloc_pages THREAD_STACK_PAGES s = (stack, s1)"
    and ok: "fn \<noteq> 0" "c < ORE_MAX_CPUS" "thread_count s < MAX_THREADS" "stack \<noteq> 0"
  shows "\<exists>t. thread_create ea ao fn arg c name s = Inr (uint (thread_count s + 1), t)
    \<and> threads_inv {} (Q(c := Q c @ [Kthread (unat (thread_count s))])) t
    \<and> (\<forall>e. unat e < 64 \<longrightarrow> sc_current (sched_at e t) = sc_current (sched_at e s)
         \<and> sc_started (sched_at e t) = sc_started (sched_at e s))"
proof -
  have tp: "threads s1 = threads s" "sched s1 = sched s" "thread_count s1 = thread_count s"
    using thread_part_pmm [of THREAD_STACK_PAGES s] al by (simp_all add: thread_part_def)
  have s1: "threads_inv {} Q s1" using inv threads_inv_cong [OF tp] by simp
  let ?n = "unat (thread_count s)" and ?top = "stack + ucast THREAD_STACK_PAGES * 4096"
  obtain sp m where st: "build_initial_stack ea (ao ?n) ?top (mem s1) = (sp, m)" by fastforce
  define s3 where "s3 = (update_thread (Kthread ?n) (\<lambda>th. th\<lparr>tid := thread_count s + 1, tstate := THREAD_RUNNABLE,
                      tcpu := c, tstack_base := stack, tstack_top := ?top, tswitches := 0, tentry := fn,
                      targ := arg, tname := name, wake_tick := 0, saved_sp := sp\<rparr>) (s1\<lparr>mem := m\<rparr>))
                   \<lparr>thread_count := thread_count s + 1\<rparr>"
  have c: "unat c < 64" using ok(2) by (simp add: word_less_nat_alt ORE_MAX_CPUS_def)
  have n: "thread_count s1 < MAX_THREADS" using ok(3) tp(3) by simp
  have f: "sched s3 = sched s1" "thread_count s3 = thread_count s1 + 1"
    "x \<noteq> Kthread (unat (thread_count s1)) \<Longrightarrow> threads s3 x = threads s1 x"
    "tid (threads s3 (Kthread (unat (thread_count s1)))) = thread_count s1 + 1"
    "tcpu (threads s3 (Kthread (unat (thread_count s1)))) = c"
    "tstate (threads s3 (Kthread (unat (thread_count s1)))) = THREAD_RUNNABLE" for x
    by (simp_all add: s3_def tp update_thread_def)
  note new = new_thread_inv [OF s1 n c f, unfolded tp(3)]
  from enqueue_inv [OF new _ c] obtain u where u: "enqueue_thread c (Kthread ?n) s3 = Inr u"
    "threads_inv {} (Q(c := Q c @ [Kthread ?n])) u" "same_threads s3 u" by auto
  have "thread_create ea ao fn arg c name s = Inr (uint (thread_count s + 1), u)"
    using ok(1,4) ok(2,3) [unfolded not_le [symmetric]] al st u(1) by (simp add: thread_create_def Let_def s3_def [symmetric] kbind_def)
  moreover have "sched_at e s3 = sched_at e s" for e by (simp add: sched_at_def f(1) tp(2))
  ultimately show ?thesis
    using u(2) same_threadsD(7,8) [OF u(3)] f(1) tp(2) threads_invD(1) [OF inv] by auto
qed

lemma create_inv:
  assumes inv: "threads_inv {} Q s"
  shows "\<exists>r t ys. thread_create ea ao fn arg c name s = Inr (r, t) \<and> threads_inv {} (Q(c := Q c @ ys)) t"
proof -
  obtain stack s1 where al: "pmm_alloc_pages THREAD_STACK_PAGES s = (stack, s1)" by fastforce
  have s1: "threads_inv {} Q s1"
    using inv threads_inv_cong [of s1 s] thread_part_pmm [of THREAD_STACK_PAGES s] al by (simp add: thread_part_def)
  have skip: "\<exists>r t ys. thread_create ea ao fn arg c name s = Inr (r, t) \<and> threads_inv {} (Q(c := Q c @ ys)) t"
    if "thread_create ea ao fn arg c name s = Inr (- 1, t)" "threads_inv {} Q t" for t
    using that by (intro exI [of _ "- 1"] exI [of _ t] exI [of _ "[]"]) simp
  show ?thesis
  proof (cases "fn = 0 \<or> ORE_MAX_CPUS \<le> c \<or> MAX_THREADS \<le> thread_count s \<or> stack = 0")
    case True
    then show ?thesis
      using skip [of s] skip [of s1] inv s1 al by (auto simp: thread_create_def Let_def)
  next
    case False
    then show ?thesis using create_made [OF inv al, of fn c ea ao arg name] by (auto simp: not_le)
  qed
qed

lemma idle_tick: "c \<noteq> 0 \<or> \<not> sc_started (sched_at 0 s) \<Longrightarrow> scheduler_tick c sp s = Inr (0, s)"
  by (auto simp: scheduler_tick_def)

lemma step_inv:
  assumes inv: "threads_inv {} Q s" and step: "thread_step b s t"
  shows "\<exists>Q'. threads_inv {} Q' t \<and> (\<exists>ys. if b then (case Q 0 @ ys of [] \<Rightarrow> Q' 0 = []
     | x # xs \<Rightarrow> (\<exists>zs. Q' 0 = xs @ zs) \<and> tstate (threads t x) = THREAD_RUNNING) else Q' 0 = Q 0 @ ys)"
proof -
  have keep: "\<exists>Q'. threads_inv {} Q' t \<and> (\<exists>ys. Q' 0 = Q 0 @ ys)" if "threads_inv {} (Q(c := Q c @ ys)) t" for c ys
    using that by (intro exI [of _ "Q(c := Q c @ ys)"]) (auto intro: exI [of _ "[]"])
  have stay: "\<exists>Q'. threads_inv {} Q' t \<and> (\<exists>ys. Q' 0 = Q 0 @ ys)" if "threads_inv {} Q t"
    using that by (intro exI [of _ Q]) (auto intro: exI [of _ "[]"])
  from step show ?thesis
  proof cases
    case (create ea ao fn arg c name r)
    then show ?thesis using create_inv [OF inv, of ea ao fn arg c name] keep by auto
  next
    case (tick c sp r)
    show ?thesis
    proof (cases "c = 0 \<and> sc_started (sched_at 0 s)")
      case True
      from tick_inv [OF inv conjunct2 [OF True], of sp] obtain r' t' Q' ys where
        t: "scheduler_tick 0 sp s = Inr (r', t')" "threads_inv {} Q' t'"
        "case Q 0 @ ys of [] \<Rightarrow> r' = 0 \<and> Q' 0 = []
         | x # xs \<Rightarrow> (\<exists>zs. Q' 0 = xs @ zs) \<and> sc_current (sched_at 0 t') = Some x \<and> tstate (threads t' x) = THREAD_RUNNING
            \<and> r' = saved_sp (threads t' x) \<and> r' = (if sc_current (sched_at 0 s) = Some x then sp else saved_sp (threads s x))" by blast
      have "t' = t" "b" using t(1) tick True by simp_all
      with t(2,3) show ?thesis by (intro exI [of _ Q'] conjI exI [of _ ys]) (auto split: list.splits)
    next
      case False
      with tick idle_tick [of c s sp] inv stay show ?thesis by auto
    qed
  next
    case (sleep n)
    with sleep_inv [OF inv, of n] stay show ?thesis by simp
  next
    case (block q q')
    with block_inv [OF inv, of q q' t] stay show ?thesis by simp
  next
    case (unblock i)
    with unblock_inv [OF inv, of i] keep show ?thesis by auto
  next
    case (finish x)
    with finish_inv [OF inv, of x t] stay show ?thesis by simp
  next
    case start
    with start_inv [OF inv] stay show ?thesis by simp
  next
    case other
    then have "threads_inv {} Q t" using inv threads_inv_cong [of t s] by (simp add: thread_part_def)
    with other stay show ?thesis by simp
  qed
qed

lemma run_threads_inv: "thread_run n s t \<Longrightarrow> threads_inv {} Q s \<Longrightarrow> \<exists>Q'. threads_inv {} Q' t"
  by (induction rule: thread_run.induct) (use step_inv in blast)+

lemma init_inv:
  assumes "length (sched s) = 64" "\<And>j. tid (threads s (Bootstrap j)) = 0"
  shows "threads_inv {} (\<lambda>_. []) (scheduler_init s)"
  using assms by (simp add: threads_inv_def scheduler_init_def queued_def sched_at_def runnable_def)

lemma waits_position:
  assumes "waits x n s t" "threads_inv {} Q s" "k < length (Q 0)" "Q 0 ! k = x"
  shows "\<exists>Q' j. threads_inv {} Q' t \<and> j < length (Q' 0) \<and> Q' 0 ! j = x \<and> n + j \<le> k"
  using assms
proof (induction rule: waits.induct)
  case (none s)
  then show ?case by (metis add_0 order_refl)
next
  case (step n s t b u)
  then obtain Q1 j where Q1: "threads_inv {} Q1 t" "j < length (Q1 0)" "Q1 0 ! j = x" "n + j \<le> k" by blast
  from step_inv [OF Q1(1) step.hyps(2)] obtain Q2 ys where
    Q2: "threads_inv {} Q2 u" "if b then (case Q1 0 @ ys of [] \<Rightarrow> Q2 0 = []
     | x # xs \<Rightarrow> (\<exists>zs. Q2 0 = xs @ zs) \<and> tstate (threads u x) = THREAD_RUNNING) else Q2 0 = Q1 0 @ ys" by blast
  show ?case
  proof (cases b)
    case False
    with Q2(2) Q1 have "j < length (Q2 0)" "Q2 0 ! j = x" by (simp_all add: nth_append)
    with Q2(1) Q1(4) False show ?thesis by auto
  next
    case True
    obtain y xs where q: "Q1 0 @ ys = y # xs" using Q1(2) by (cases "Q1 0 @ ys") auto
    with Q2(2) True obtain zs where zs: "Q2 0 = xs @ zs" "tstate (threads u y) = THREAD_RUNNING" by auto
    have at: "(y # xs) ! j = x" "j < length (y # xs)" unfolding q [symmetric] using Q1 by (simp_all add: nth_append)
    then obtain i where i: "j = Suc i" using zs(2) step.hyps(3) by (cases j) auto
    with at zs(1) have "i < length (Q2 0)" "Q2 0 ! i = x" by (simp_all add: nth_append)
    with Q2(1) Q1(4) True i show ?thesis by auto
  qed
qed

lemma demo_threads_fields:
  "run_queue (sched_at 0 demo_threads) = Some (Kthread (Suc 0))" "tnext (threads demo_threads (Kthread (Suc 0))) = Some (Kthread 0)"
  "tnext (threads demo_threads (Kthread 0)) = None" "length (sched demo_threads) = 64" "thread_count demo_threads = 2"
  "c \<noteq> 0 \<Longrightarrow> unat c < 64 \<Longrightarrow> run_queue (sched_at c demo_threads) = None"
  "tstate (threads demo_threads (Kthread i)) = THREAD_RUNNABLE" "tcpu (threads demo_threads (Kthread i)) = 0"
  "tid (threads demo_threads (Kthread i)) = word_of_nat (i + 1)" "tid (threads demo_threads (Bootstrap j)) = 0"
  "c \<noteq> 0 \<Longrightarrow> unat c < 64 \<Longrightarrow> sc_current (sched_at c demo_threads) = None"
  "sc_current (sched_at 0 demo_threads) = Some (Bootstrap 0)" "sc_started (sched_at 0 demo_threads)"
  by (simp_all add: demo_threads_def sched_at_def nth_Cons' unat_gt_0 unat_eq_zero)

lemma demo_threads_sp: "saved_sp (threads demo_threads (Kthread (Suc 0))) = 0x5001"
  by (simp add: demo_threads_def)

lemma demo_threads_inv: "threads_inv {} (\<lambda>c. if c = 0 then [Kthread (Suc 0), Kthread 0] else []) demo_threads"
proof -
  note d = demo_threads_fields
  have "x \<in> runnable demo_threads c \<longleftrightarrow> x \<in> set (if c = 0 then [Kthread (Suc 0), Kthread 0] else [])" for x c
    by (cases x) (auto simp: d less_2_cases_iff)
  then have r: "set (if c = 0 then [Kthread (Suc 0), Kthread 0] else []) = runnable demo_threads c" for c by blast
  have q: "queued c demo_threads (if c = 0 then [Kthread (Suc 0), Kthread 0] else [])" if "unat c < 64" for c
    using that d(6) [of c] by (simp add: queued_def d(1-4))
  have "current_ok demo_threads c (sc_current (sched_at c demo_threads))" if "unat c < 64" for c
    using that d(11) [of c] by (cases "c = 0") (simp_all add: d(12))
  moreover have "unat (tid (threads demo_threads (Kthread i))) = i + 1" if "i < 2" for i
    using that unfolding d by (auto simp: less_2_cases_iff)
  ultimately show ?thesis
    unfolding threads_inv_def r [symmetric] using q by (simp add: d MAX_THREADS_def)
qed

lemma wake_loop_none:
  "\<forall>i \<in> set ks. tstate (threads s (Kthread i)) = THREAD_SLEEPING \<longrightarrow> now < wake_tick (threads s (Kthread i)) \<Longrightarrow>
    wake_loop c now ks s = Inr s"
  by (induction ks) (auto simp: Let_def not_le)

lemma demo_sleeper_fields:
  "run_queue (sched_at c demo_sleeper) = (if c = 0 then None else run_queue (sched_at c demo_threads))"
  "sc_current (sched_at c demo_sleeper) = (if c = 0 then Some (Kthread 0) else sc_current (sched_at c demo_threads))"
  "sc_started (sched_at c demo_sleeper) = sc_started (sched_at c demo_threads)"
  "length (sched demo_sleeper) = 64" "thread_count demo_sleeper = 1" "current_cpu_id demo_sleeper = 0"
  "threads demo_sleeper (Kthread 0) = (threads demo_threads (Kthread 0))\<lparr>tstate := THREAD_RUNNING\<rparr>"
  "threads demo_sleeper (Bootstrap j) = threads demo_threads (Bootstrap j)" "g_timer_ticks demo_sleeper = replicate 64 0"
  using demo_threads_fields(4)
  by (simp_all add: demo_sleeper_def sched_at_def update_sched_def update_thread_def nth_list_update
      current_cpu_id_def demo_threads_def demo_kernel_def nth_Cons' unat_gt_0 unat_eq_zero)

lemma demo_sleeper_inv: "threads_inv {} (\<lambda>_. []) demo_sleeper"
proof -
  note d = demo_sleeper_fields and e = demo_threads_fields
  have "x \<notin> runnable demo_sleeper c" for x c by (cases x) (auto simp: d)
  then have r: "runnable demo_sleeper c = {}" for c by blast
  have q: "queued c demo_sleeper []" if "unat c < 64" for c
    using that e(6) [of c] by (simp add: queued_def d)
  have "current_ok demo_sleeper c (sc_current (sched_at c demo_sleeper))" if "unat c < 64" for c
    using that e(11) [of c] by (cases "c = 0") (simp_all add: d e)
  then show ?thesis
    unfolding threads_inv_def r using q by (simp add: d e MAX_THREADS_def)
qed

subsection \<open>Properties\<close>

text \<open>
  C29. The linked run queue of a CPU behaves as a first-in first-out list: threads appended to it come out
  after the ones that were there, in the order of their arrival. An operation changes nothing of a thread
  but its link and leaves the queues of the other CPUs alone.
\<close>

theorem run_queue_fifo:
  assumes "queued c s xs"
  shows "(distinct ys \<and> set xs \<inter> set ys = {} \<longrightarrow> (\<exists>t. fifo_queue.enqs (enqueue_thread c) ys s = Inr t
        \<and> fst (fifo_queue.deqs (dequeue_thread c) (length xs + length ys) t) = xs @ ys))
    \<and> (x \<notin> set xs \<longrightarrow> (\<exists>t. enqueue_thread c x s = Inr t \<and> queued c t (xs @ [x]) \<and> same_threads s t
        \<and> (\<forall>d zs. d \<noteq> c \<longrightarrow> queued d s zs \<longrightarrow> x \<notin> set zs \<longrightarrow> set xs \<inter> set zs = {} \<longrightarrow> queued d t zs)))
    \<and> (case xs of [] \<Rightarrow> dequeue_thread c s = (None, s)
       | y # us \<Rightarrow> (\<exists>t. dequeue_thread c s = (Some y, t) \<and> queued c t us \<and> same_threads s t
           \<and> (\<forall>d zs. d \<noteq> c \<longrightarrow> queued d s zs \<longrightarrow> y \<notin> set zs \<longrightarrow> queued d t zs)))"
  using assms runq.fifo [OF assms, of ys] enqueue_queued [OF assms, of x] runq.deq_nil [of c s] dequeue_queued [of c s]
  by (auto split: list.split)

theorem run_queue_fifo_witness:
  "\<exists>t. fifo_queue.enqs (enqueue_thread 0) [Kthread 2, Kthread 3] demo_threads = Inr t
     \<and> fst (fifo_queue.deqs (dequeue_thread 0) 4 t) = [Kthread (Suc 0), Kthread 0, Kthread 2, Kthread 3]"
proof -
  have "queued 0 demo_threads [Kthread (Suc 0), Kthread 0]"
    using threads_invD(3) [OF demo_threads_inv, of 0] by simp
  from run_queue_fifo [OF this, of "[Kthread 2, Kthread 3]" "Kthread 2"] show ?thesis by (simp add: numeral_eq_Suc)
qed


lemma demo_boot:
  "current_cpu_id (scheduler_init demo_threads) = 0" "sc_current (sched_at 0 (scheduler_init demo_threads)) = None"
  "sc_started (sched_at 0 (scheduler_start_current_cpu (scheduler_init demo_threads)))"
  "thread_count (scheduler_start_current_cpu (scheduler_init demo_threads)) = 0"
  "fst (pmm_alloc_pages THREAD_STACK_PAGES (scheduler_start_current_cpu (scheduler_init demo_threads))) \<noteq> 0"
proof -
  show c: "current_cpu_id (scheduler_init demo_threads) = 0"
    by (simp add: scheduler_init_def current_cpu_id_def demo_threads_def demo_kernel_def)
  show "sc_current (sched_at 0 (scheduler_init demo_threads)) = None"
    by (simp add: scheduler_init_def sched_at_def demo_threads_def)
  have l: "length (sched (scheduler_init demo_threads)) = 64" by (simp add: scheduler_init_def demo_threads_fields)
  show "sc_started (sched_at 0 (scheduler_start_current_cpu (scheduler_init demo_threads)))"
    "thread_count (scheduler_start_current_cpu (scheduler_init demo_threads)) = 0"
    using l by (simp_all add: scheduler_start_current_cpu_def c sched_at_update Let_def) (simp add: scheduler_init_def)
  let ?u = "scheduler_start_current_cpu (scheduler_init demo_threads)"
  have u: "bitmap ?u = (\<lambda>_. 0)" "total_page_count ?u = 272"
    by (simp_all add: scheduler_start_current_cpu_def Let_def c scheduler_init_def update_sched_def update_thread_def demo_threads_def demo_kernel_def)
  have "alloc_scan ?u 4 256 0 0 = Some 256"
    using u by (simp add: alloc_scan.simps bitmap_test_def)
  then show "fst (pmm_alloc_pages THREAD_STACK_PAGES ?u) \<noteq> 0"
    by (simp add: pmm_alloc_pages_def THREAD_STACK_PAGES_def Let_def)
qed




text \<open>
  C30. The only running thread cannot sleep. When a kernel thread calls \<open>thread_sleep\<close> while no other
  thread is runnable, the tick that \<open>thread_yield\<close> raises finds an empty run queue and returns into the
  sleeping thread, before the time it asked for: \<open>thread_sleep\<close> returns at once, with the thread still
  marked as sleeping.
\<close>

theorem thread_sleep_alone:
  assumes "threads_inv {} Q s" "Q 0 = []" "current_cpu_id s = 0" "sc_current (sched_at 0 s) = Some (Kthread i)"
    "sc_started (sched_at 0 s)" "thread_part u = thread_part (thread_sleep n s)" "timer_ticks 0 u < timer_ticks 0 s + n"
    "\<forall>k < unat (thread_count s). k \<noteq> i \<longrightarrow> tstate (threads s (Kthread k)) = THREAD_SLEEPING \<longrightarrow>
       timer_ticks 0 u < wake_tick (threads s (Kthread k))"
  shows "scheduler_tick 0 sp u = Inr (0, u) \<and> tstate (threads u (Kthread i)) = THREAD_SLEEPING
    \<and> timer_ticks 0 u < wake_tick (threads u (Kthread i))"
proof -
  note d = threads_invD [OF assms(1)]
  have i: "i < unat (thread_count s)" using d(8) [of 0] assms(4) by simp
  then have tid: "tid (threads s (Kthread i)) \<noteq> 0" using d(5) [OF i] by (metis add_is_0 one_neq_zero unat_0)
  let ?t = "update_thread (Kthread i) (\<lambda>th. th\<lparr>wake_tick := timer_ticks 0 s + n, tstate := THREAD_SLEEPING\<rparr>) s"
  have u: "threads u = threads ?t" "sched u = sched s" "thread_count u = thread_count s"
    using assms(3,4,6) tid by (simp_all add: thread_sleep_def thread_part_def)
  have "wake_sleepers 0 u = Inr u"
    unfolding wake_sleepers_def by (rule wake_loop_none) (use assms(7,8) in \<open>auto simp: u\<close>)
  moreover have "run_queue (sched_at 0 u) = None" using d(3) [of 0] assms(2) by (simp add: queued_def sched_at_def u)
  moreover have "sc_started (sched_at 0 u)" using assms(5) by (simp add: sched_at_def u)
  ultimately have "scheduler_tick 0 sp u = Inr (0, u)" by (simp add: scheduler_tick_def dequeue_thread_def kbind_def)
  then show ?thesis using assms(7) by (simp add: u)
qed

theorem thread_sleep_alone_witness:
  "scheduler_tick 0 0x7000 (timer_interrupt (thread_sleep 2 demo_sleeper)) = Inr (0, timer_interrupt (thread_sleep 2 demo_sleeper))"
proof -
  note d = demo_sleeper_fields
  let ?t = "thread_sleep 2 demo_sleeper"
  have t: "?t = update_thread (Kthread 0) (\<lambda>th. th\<lparr>wake_tick := 2, tstate := THREAD_SLEEPING\<rparr>) demo_sleeper"
    by (simp add: thread_sleep_def d demo_threads_fields timer_ticks_def ORE_MAX_CPUS_def)
  have "current_cpu_id ?t = 0" "g_timer_ticks ?t = replicate 64 0"
    using d(6,9) by (simp_all add: t update_thread_def current_cpu_id_def)
  then have u: "thread_part (timer_interrupt ?t) = thread_part ?t" "timer_ticks 0 (timer_interrupt ?t) = 1"
    by (simp_all add: timer_interrupt_def timer_ticks_def thread_part_def ORE_MAX_CPUS_def Let_def)
  show ?thesis
    using thread_sleep_alone [OF demo_sleeper_inv refl d(6) _ _ u(1), of 0 "0x7000"] u(2)
    by (simp add: d demo_threads_fields timer_ticks_def ORE_MAX_CPUS_def)
qed

end
