(* ===== verification/Fairness.thy ===== *)
theory Fairness
  imports Kernel_Invariant
begin

text \<open>
  Fairness of the user processes over whole histories of the kernel.

  \<open>kernel_step\<close> is one step of the machine that the kernel sees: user code, a system call
  (\<open>syscall_dispatch\<close>) or an interrupt (\<open>isr_dispatch\<close>). \<open>ready_run\<close> is a history in which a given
  process stays ready, with the number of changes of the current process. A switch is either the
  round-robin one (\<open>next_ready_process\<close>), which comes nearer to the process, or one of the direct ones
  (\<open>sys_wait\<close>, \<open>sys_exec_image\<close> and \<open>sys_exit\<close>). \<open>progress\<close> accounts for the second kind: a process blocked
  in a wait counts 1 and an exited one 2, so entering a child adds 1 and an exit that resumes the
  parent adds 2 - 1. It never falls and is at most 62.
\<close>

subsection \<open>Definitions\<close>

text \<open>A saved return point for the exit of a child; \<open>wait_ok\<close>: only a blocked process has one.\<close>

definition waits_here :: "Process \<Rightarrow> bool" where
  "waits_here q \<longleftrightarrow> wait_return_rip q \<noteq> 0 \<and> wait_return_rsp q \<noteq> 0"

definition wait_ok :: "'a process_scheme \<Rightarrow> bool" where
  "wait_ok s \<longleftrightarrow> (\<forall>i \<in> {1..<unat (process_count s)}. waits_here (proc_at i s) \<longrightarrow> pstate (proc_at i s) = ORE_PROC_BLOCKED)"

text \<open>
  How far the processes of the table have come: a process that waits for a child counts 1, one that
  has exited counts 2.
\<close>

definition progress_of :: "u32 \<Rightarrow> nat" where
  "progress_of st = (if st = ORE_PROC_BLOCKED then 1 else if st = ORE_PROC_EXITED then 2 else 0)"

definition progress :: "'a process_scheme \<Rightarrow> nat" where
  "progress s = (\<Sum>i \<in> {1..<unat (process_count s)}. progress_of (pstate (proc_at i s)))"

text \<open>Nothing that concerns the choice of the next process has happened.\<close>

definition quiet :: "'a process_scheme \<Rightarrow> 'a process_scheme \<Rightarrow> bool" where
  "quiet s t \<longleftrightarrow> sched_ok t \<and> wait_ok t \<and> progress t = progress s \<and> current_proc t = current_proc s"

definition cur_of :: "'a process_scheme \<Rightarrow> nat" where
  "cur_of s = the (current_proc s)"

text \<open>
  What a step of the kernel does to a process \<open>r\<close> that is ready before and after it: the current process
  stays, or the processes come further, or the next process is nearer to \<open>r\<close> in the cyclic order.
\<close>

definition fair_step :: "nat \<Rightarrow> 'a process_scheme \<Rightarrow> 'a process_scheme \<Rightarrow> bool" where
  "fair_step r s t \<longleftrightarrow> wait_ok t \<and> progress s \<le> progress t
     \<and> (current_proc t = current_proc s \<or> progress s < progress t
        \<or> cyc_wait 32 (cur_of t) r < cyc_wait 32 (cur_of s) r)"

inductive kernel_step :: "'a scheduler_scheme sys_env \<Rightarrow> 'a scheduler_scheme \<Rightarrow> 'a scheduler_scheme \<Rightarrow> bool"
  for env :: "'a scheduler_scheme sys_env" where
  user: "kernel_step env t (t\<lparr>mem := m, g_syscall_user_rip := ip, g_syscall_user_rsp := sp\<rparr>)"
| call: "syscall_dispatch env number a1 a2 a3 a4 t = Inr (x, u) \<Longrightarrow> kernel_step env t u"
| interrupt: "isr_dispatch vec addr f t = Inr (x, u) \<Longrightarrow> kernel_step env t u"

text \<open>
  A history in which the process \<open>r\<close> stays ready; it counts how often the current process changes,
  whatever the reason: a timer tick, a yield, a wait, the start of a program, an exit.
\<close>

definition is_ready :: "nat \<Rightarrow> 'a process_scheme \<Rightarrow> bool" where
  "is_ready r s \<longleftrightarrow> r \<in> {1..<unat (process_count s)} \<and> pstate (proc_at r s) = ORE_PROC_READY"

inductive ready_run :: "'a scheduler_scheme sys_env \<Rightarrow> nat \<Rightarrow> nat \<Rightarrow> 'a scheduler_scheme \<Rightarrow> 'a scheduler_scheme \<Rightarrow> bool"
  for env :: "'a scheduler_scheme sys_env" and r :: nat where
  start: "ready_run env r 0 s s"
| step: "ready_run env r n s t \<Longrightarrow> kernel_step env t u \<Longrightarrow> is_ready r u \<Longrightarrow>
    ready_run env r (n + of_bool (current_proc u \<noteq> current_proc t)) s u"

definition demo_fair :: scheduler where
  "demo_fair = update_proc 1 (\<lambda>q. q\<lparr>pstate := ORE_PROC_READY, waiting_for_pid := 0, wait_return_rip := 0,
     wait_return_rsp := 0\<rparr>) demo_kernel"

subsection \<open>Progress\<close>

lemma progress_le: "progress_of st \<le> 2"
  by (simp add: progress_of_def)

lemma progress_bound: "proc_ok s \<Longrightarrow> progress s \<le> 62"
proof -
  assume "proc_ok s"
  then have "unat (process_count s) \<le> 32" by (rule proc_okD)
  moreover have "progress s \<le> 2 * card {1..<unat (process_count s)}"
    unfolding progress_def
    using sum_bounded_above [of "{1..<unat (process_count s)}" "\<lambda>i. progress_of (pstate (proc_at i s))" 2] progress_le
    by (simp add: mult.commute)
  ultimately show ?thesis by simp
qed

lemma progress_update:
  assumes "1 \<le> p" "p < unat (process_count s)" "p < length (processes s)"
  shows "progress (update_proc p f s) + progress_of (pstate (proc_at p s)) = progress s + progress_of (pstate (f (proc_at p s)))"
proof -
  have p: "p \<in> {1..<unat (process_count s)}" using assms by simp
  have "(\<Sum>i \<in> {1..<unat (process_count s)} - {p}. progress_of (pstate (proc_at i (update_proc p f s))))
      = (\<Sum>i \<in> {1..<unat (process_count s)} - {p}. progress_of (pstate (proc_at i s)))"
    by (rule sum.cong) auto
  moreover have "progress (update_proc p f s) = progress_of (pstate (f (proc_at p s)))
      + (\<Sum>i \<in> {1..<unat (process_count s)} - {p}. progress_of (pstate (proc_at i (update_proc p f s))))"
    unfolding progress_def update_proc_fields(2) using assms(3) by (subst sum.remove [OF _ p]) simp_all
  moreover have "progress s = progress_of (pstate (proc_at p s))
      + (\<Sum>i \<in> {1..<unat (process_count s)} - {p}. progress_of (pstate (proc_at i s)))"
    unfolding progress_def by (subst sum.remove [OF _ p]) simp_all
  ultimately show ?thesis by simp
qed

lemma core_slots:
  assumes "core_view t = core_view s" "proc_ok s"
  shows "progress t = progress s" "wait_ok t = wait_ok s" "cur_of t = cur_of s"
proof -
  note g = core_globals [OF assms(1)]
  have l: "i < length (processes s)" if "i < unat (process_count s)" for i
    using that proc_okD(1,3) [OF assms(2)] by simp
  note f = core_fields [OF assms(1) l]
  show "progress t = progress s" unfolding progress_def g(2) by (rule sum.cong) (simp_all add: f)
  show "wait_ok t = wait_ok s" unfolding wait_ok_def g(2) by (rule ball_cong) (simp_all add: f waits_here_def)
  show "cur_of t = cur_of s" by (simp add: cur_of_def g)
qed

lemma sched_proc_ok: "sched_ok s \<Longrightarrow> proc_ok s"
  by (rule sched_okE)

lemma quiet_refl: "sched_ok s \<Longrightarrow> wait_ok s \<Longrightarrow> quiet s s"
  by (simp add: quiet_def)

lemma quiet_trans: "quiet s t \<Longrightarrow> quiet t u \<Longrightarrow> quiet s u"
  by (simp add: quiet_def)

lemma quiet_core: "quiet s t \<Longrightarrow> core_view u = core_view t \<Longrightarrow> quiet s u"
  using sched_ok_core [of u t] core_slots [of u t] core_globals(4) [of u t] sched_proc_ok [of t]
  by (auto simp: quiet_def)

lemma quiet_view: "quiet s t \<Longrightarrow> sched_view u = sched_view t \<Longrightarrow> quiet s u"
  by (rule quiet_core [OF _ view_core])

lemma quiet_fair: "quiet s t \<Longrightarrow> fair_step r s t"
  by (simp add: quiet_def fair_step_def)

lemma wait_ok_update:
  assumes "wait_ok s" "waits_here (f (proc_at p s)) \<longrightarrow> pstate (f (proc_at p s)) = ORE_PROC_BLOCKED"
  shows "wait_ok (update_proc p f s)"
  using assms by (auto simp: wait_ok_def)

lemma wait_okD: "wait_ok s \<Longrightarrow> 1 \<le> i \<Longrightarrow> i < unat (process_count s) \<Longrightarrow> pstate (proc_at i s) \<noteq> ORE_PROC_BLOCKED \<Longrightarrow>
    \<not> waits_here (proc_at i s)"
  by (auto simp: wait_ok_def)

lemma current_irrelevant [simp]:
  "progress (s\<lparr>current_proc := c\<rparr>) = progress s" "wait_ok (s\<lparr>current_proc := c\<rparr>) = wait_ok s"
  "progress (s\<lparr>cr3 := x\<rparr>) = progress s" "wait_ok (s\<lparr>cr3 := x\<rparr>) = wait_ok s"
  by (simp_all add: progress_def wait_ok_def)

text \<open>Entering a process that is ready.\<close>

lemma entered:
  assumes ok: "proc_ok s" "wait_ok s" and p: "1 \<le> p" "p < unat (process_count s)" "pstate (proc_at p s) = ORE_PROC_READY"
    and t: "core_view t = core_view (write_cr3 (proc_pml4 p s) (process_set_current (Some p) s))"
  shows "progress t = progress s" "wait_ok t" "current_proc t = Some p" "cur_of t = p" "pstate (proc_at p t) = ORE_PROC_RUNNING"
proof -
  let ?u = "write_cr3 (proc_pml4 p s) (process_set_current (Some p) s)"
  let ?g = "\<lambda>r. r\<lparr>pstate := ORE_PROC_RUNNING\<rparr>"
  have l: "p < length (processes s)" using p(2) proc_okD(1,3) [OF ok(1)] by linarith
  have u: "?u = (update_proc p ?g (s\<lparr>current_proc := Some p\<rparr>))\<lparr>cr3 := proc_pml4 p s\<rparr>"
    by (simp add: write_cr3_def process_set_current_def)
  have pk: "proc_ok ?u"
    unfolding u using proc_ok_update [of "s\<lparr>current_proc := Some p\<rparr>" ?g p] ok(1) p(2)
    by (simp add: keeps_shape_def proc_ok_def)
  have "progress (update_proc p ?g (s\<lparr>current_proc := Some p\<rparr>)) + progress_of (pstate (proc_at p s)) = progress s + 0"
    using progress_update [of p "s\<lparr>current_proc := Some p\<rparr>" ?g] p(1,2) l by (simp add: progress_of_def)
  then have "progress ?u = progress s" unfolding u using p(3) by (simp add: progress_of_def)
  moreover have "\<not> waits_here (proc_at p s)" using wait_okD [OF ok(2) p(1,2)] p(3) by simp
  then have "wait_ok ?u" unfolding u using wait_ok_update [of "s\<lparr>current_proc := Some p\<rparr>" ?g p] ok(2) by (simp add: waits_here_def)
  ultimately show "progress t = progress s" "wait_ok t" using core_slots [OF t pk] by simp_all
  show c: "current_proc t = Some p" using core_globals(4) [OF t] by (simp add: u)
  then show "cur_of t = p" by (simp add: cur_of_def)
  show "pstate (proc_at p t) = ORE_PROC_RUNNING" using core_fields(2) [OF t] l by (simp add: u)
qed

text \<open>The cyclic order does not depend on the number of processes.\<close>

lemma cyc_wait_32:
  assumes "cyc_wait n p r < cyc_wait n e r" "1 \<le> p" "p < n" "1 \<le> e" "e < n" "r < n" "n \<le> 32"
  shows "cyc_wait 32 p r < cyc_wait 32 e r"
  using assms by (auto simp: cyc_wait_def split: if_splits)

lemma next_nearer:
  assumes s: "sched_ok s" "current_proc s = Some c" and n: "next_ready_process (pid (proc_at c s)) s = Some p"
    and r: "1 \<le> r" "r < unat (process_count s)" "pstate (proc_at r s) = ORE_PROC_READY" "p \<noteq> r"
  shows "cyc_wait 32 p r < cyc_wait 32 c r"
proof -
  obtain c' where c: "1 \<le> c'" "c' < unat (process_count s)" "current_proc s = Some c'"
    "pstate (proc_at c' s) = ORE_PROC_RUNNING" "unat (pid (proc_at c' s)) = c'" "proc_ok s"
    by (rule sched_okE [OF s(1)])
  have cc: "c' = c" using s(2) c(3) by simp
  note c = c [unfolded cc]
  note ok = proc_okD [OF c(6)]
  have "r \<noteq> c" using c(4) r(3) by auto
  then have "pid (proc_at r s) \<noteq> pid (proc_at c s)" using ok(6) [OF r(2)] c(5) by metis
  then have o: "ready_other (pid (proc_at c s)) s r" using r(3) by (simp add: ready_other_def)
  have e: "unat (pid (proc_at c s)) < unat (process_count s)" using c(2,5) by simp
  have rr: "r \<in> {1..<unat (process_count s)}" using r(1,2) by simp
  note closer = next_ready_closer [OF ok(2,3) e n o rr r(4)]
  show ?thesis
    by (rule cyc_wait_32 [OF closer(1) [unfolded c(5)] closer(2,3) c(1,2) r(2) ok(3)])
qed

subsection \<open>Switches that the scheduler chooses\<close>

text \<open>The running process becomes ready and the next one is entered.\<close>

lemma switch_fair:
  assumes s: "sched_ok s" "wait_ok s" "current_proc s = Some c"
    and n: "next_ready_process (pid (proc_at c s)) s = Some p"
    and f: "keeps_shape f" "pstate (f (proc_at c s)) = ORE_PROC_READY"
      "waits_here (f (proc_at c s)) = waits_here (proc_at c s)"
    and t: "core_view t = core_view (write_cr3 (proc_pml4 p (update_proc c f s)) (process_set_current (Some p) (update_proc c f s)))"
    and r: "1 \<le> r" "r < unat (process_count s)" "pstate (proc_at r s) = ORE_PROC_READY" "pstate (proc_at r t) = ORE_PROC_READY"
  shows "fair_step r s t"
proof -
  obtain c' where c': "1 \<le> c'" "c' < unat (process_count s)" "c' < length (processes s)" "current_proc s = Some c'"
    "pstate (proc_at c' s) = ORE_PROC_RUNNING" "unat (pid (proc_at c' s)) = c'" "proc_ok s"
    by (rule sched_okE [OF s(1)])
  have cc: "c' = c" using s(3) c'(4) by simp
  note c = c' [unfolded cc]
  have e: "unat (pid (proc_at c s)) < unat (process_count s)" using c(2,6) by simp
  note p = next_ready_Some [OF c(7) e n]
  let ?u = "update_proc c f s"
  have nw: "\<not> waits_here (proc_at c s)" using wait_okD [OF s(2) c(1,2)] c(5) by simp
  have u: "proc_ok ?u" "wait_ok ?u"
    using proc_ok_update [OF c(7) f(1)] wait_ok_update [OF s(2), of f c] nw f(3) by simp_all
  have pu: "progress ?u = progress s"
    using progress_update [OF c(1,2,3), of f] f(2) c(5) by (simp add: progress_of_def)
  have "pstate (proc_at p ?u) = ORE_PROC_READY" using p(3,4) c(6) by simp
  note en = entered [OF u p(1) _ this t]
  have pc: "p < unat (process_count ?u)" using p(2) by simp
  have "p \<noteq> r" using en(5) [OF pc] r(4) by auto
  with next_nearer [OF s(1,3) n r(1-3)] have "cyc_wait 32 p r < cyc_wait 32 c r" by simp
  then show ?thesis
    using en(1,2,4) [OF pc] pu s(3) by (simp add: fair_step_def cur_of_def [of s])
qed

lemma yield_fair:
  assumes "sched_ok s" "wait_ok s" "1 \<le> r" "r < unat (process_count s)" "pstate (proc_at r s) = ORE_PROC_READY"
    "pstate (proc_at r (snd (schedule_next_from_syscall s))) = ORE_PROC_READY"
  shows "fair_step r s (snd (schedule_next_from_syscall s))"
proof -
  obtain c where c: "current_proc s = Some c" "process_current s = Some c" "pstate (proc_at c s) = ORE_PROC_RUNNING"
    "current_pid s = pid (proc_at c s)"
    by (rule sched_okE [OF assms(1)])
  show ?thesis
  proof (cases "next_ready_process (pid (proc_at c s)) s")
    case None
    with c quiet_fair [OF quiet_refl [OF assms(1,2)]] show ?thesis by (simp add: schedule_next_from_syscall_def)
  next
    case (Some p)
    let ?f = "\<lambda>q. q\<lparr>saved_user_rip := syscall_user_rip_current s, saved_user_rsp := syscall_user_rsp_current s,
      pstate := ORE_PROC_READY\<rparr>"
    have t: "snd (schedule_next_from_syscall s) = enter_process_from_syscall p (update_proc c ?f s)"
      using Some c by (simp add: schedule_next_from_syscall_def park_current_def)
    show ?thesis
      unfolding t
      by (rule switch_fair [OF assms(1,2) c(1) Some _ _ _ enter_core assms(3-5) assms(6) [unfolded t]])
        (simp_all add: keeps_shape_def waits_here_def)
  qed
qed

lemma enter_core_cong:
  assumes "core_view u = core_view s" "p < length (processes s)"
  shows "core_view (write_cr3 (proc_pml4 p u) (process_set_current (Some p) u))
    = core_view (write_cr3 (proc_pml4 p s) (process_set_current (Some p) s))"
proof -
  have c: "core_of (proc_at p u) = core_of (proc_at p s)" by (rule core_at [OF assms])
  then have "core_of ((proc_at p u)\<lparr>pstate := ORE_PROC_RUNNING\<rparr>) = core_of ((proc_at p s)\<lparr>pstate := ORE_PROC_RUNNING\<rparr>)"
    by (simp add: core_of_def)
  moreover have "map core_of (processes u) = map core_of (processes s)" using assms(1) by (simp add: core_view_def)
  ultimately show ?thesis
    using core_globals [OF assms(1)] core_fields(5) [OF assms]
    by (simp add: core_view_def write_cr3_def process_set_current_def update_proc_def map_update proc_at_def)
qed

lemma tick_fair:
  assumes "sched_ok s" "wait_ok s" "1 \<le> r" "r < unat (process_count s)" "pstate (proc_at r s) = ORE_PROC_READY"
    and k: "process_schedule_user_tick f s = (sw, f1, t)" and rt: "pstate (proc_at r t) = ORE_PROC_READY"
  shows "fair_step r s t"
  using k
proof (cases rule: tick_cases)
  case stay
  with quiet_fair [OF quiet_refl [OF assms(1,2)]] show ?thesis by simp
next
  case (switch a b)
  obtain c where c: "current_proc s = Some c" "process_current s = Some c" "c < unat (process_count s)"
    "unat (pid (proc_at c s)) = c" "proc_ok s" by (rule sched_okE [OF assms(1)])
  have a: "a = c" using switch(2) c(2) by simp
  have b: "b < length (processes s)"
    using next_ready_Some(2) [OF c(5) _ switch(6)] a c(3,4) proc_okD(1,3) [OF c(5)] by simp
  let ?t = "update_proc a (switch_out f) s"
  define g where "g = (\<lambda>q :: Process. if has_user_frame (proc_at b ?t) \<noteq> 0 then q
    else q\<lparr>user_frame := fresh_user_frame (proc_at b ?t), has_user_frame := 1\<rparr>)"
  have g: "core_of (g q) = core_of q" for q by (simp add: g_def core_of_def)
  have t2: "core_view (update_proc b g ?t) = core_view ?t" by (rule update_core) (rule g)
  have "t = write_cr3 (proc_pml4 b (process_set_current (Some b) (update_proc b g ?t)))
      (process_set_current (Some b) (update_proc b g ?t))"
    using switch(8) by (auto simp: Let_def g_def update_proc_def)
  then have "core_view t = core_view (write_cr3 (proc_pml4 b ?t) (process_set_current (Some b) ?t))"
    using enter_core_cong [OF t2, of b] b by (simp add: proc_pml4_def process_set_current_def)
  then show ?thesis
    unfolding a
    by (intro switch_fair [OF assms(1,2) c(1) switch(6) [unfolded a] _ _ _ _ assms(3-5) rt])
      (simp_all add: keeps_shape_def waits_here_def switch_out_def)
qed

subsection \<open>Direct entries\<close>

lemma exit_state_progress:
  assumes s: "sched_ok s" "wait_ok s" "current_proc s = Some c"
  shows "progress (exit_state a c s) = progress s + 2" "wait_ok (exit_state a c s)" "proc_ok (exit_state a c s)"
    "process_count (exit_state a c s) = process_count s"
proof -
  obtain c' where c': "1 \<le> c'" "c' < unat (process_count s)" "c' < length (processes s)" "current_proc s = Some c'"
    "pstate (proc_at c' s) = ORE_PROC_RUNNING" "proc_ok s"
    by (rule sched_okE [OF s(1)])
  have cc: "c' = c" using s(3) c'(4) by simp
  note c = c' [unfolded cc]
  show "progress (exit_state a c s) = progress s + 2"
    unfolding exit_state_def using progress_update [OF c(1-3)] c(5) by (simp add: progress_of_def)
  have "\<not> waits_here (proc_at c s)" using wait_okD [OF s(2) c(1,2)] c(5) by simp
  then show "wait_ok (exit_state a c s)" unfolding exit_state_def by (intro wait_ok_update [OF s(2)]) (simp add: waits_here_def)
  show "proc_ok (exit_state a c s)" unfolding exit_state_def by (rule proc_ok_update [OF c(6)]) (simp add: keeps_shape_def)
  show "process_count (exit_state a c s) = process_count s" by (simp add: exit_state_def)
qed

lemma exit_to_next_progress:
  assumes "proc_ok s" "wait_ok s" "unat e < unat (process_count s)" "exit_to_next e s = Inr (x, t)"
  shows "progress t = progress s" "wait_ok t"
proof -
  obtain p where p: "next_ready_process e s = Some p" "t = enter_process_from_syscall p s"
    using assms(4) by (auto simp: exit_to_next_def split: option.splits)
  note n = next_ready_Some [OF assms(1,3) p(1)]
  show "progress t = progress s" "wait_ok t"
    unfolding p(2) by (rule entered [OF assms(1,2) n(1,2,4) enter_core])+
qed

text \<open>A blocked process becomes ready again.\<close>

lemma unblocked:
  assumes "proc_ok s" "wait_ok s" "1 \<le> p" "p < unat (process_count s)" "pstate (proc_at p s) = ORE_PROC_BLOCKED"
    "keeps_shape f" "pstate (f (proc_at p s)) = ORE_PROC_READY" "\<not> waits_here (f (proc_at p s))"
  shows "progress s = progress (update_proc p f s) + 1" "wait_ok (update_proc p f s)" "proc_ok (update_proc p f s)"
proof -
  have l: "p < length (processes s)" using assms(4) proc_okD(1,3) [OF assms(1)] by linarith
  show "progress s = progress (update_proc p f s) + 1"
    using progress_update [OF assms(3,4) l, of f] assms(5,7) by (simp add: progress_of_def)
  show "wait_ok (update_proc p f s)" by (rule wait_ok_update [OF assms(2)]) (use assms(8) in simp)
  show "proc_ok (update_proc p f s)" by (rule proc_ok_update [OF assms(1,6)])
qed

lemma exit_fair:
  assumes s: "sched_ok s" "wait_ok s" and x: "sys_exit a s = Inr (x, t)"
  shows "wait_ok t \<and> progress s < progress t"
proof -
  obtain c where c: "1 \<le> c" "c < unat (process_count s)" "c < length (processes s)" "current_proc s = Some c"
    "process_current s = Some c" "table_ok {c} {} s" "unat (pid (proc_at c s)) = c"
    by (rule sched_okE [OF s(1)])
  let ?e = "exit_state a c s" and ?par = "unat (parent_pid (proc_at c s))"
  note e = exit_state_progress [OF s c(4), of a]
  have own: "unat (pid (proc_at c s)) < unat (process_count ?e)" using c(2,7) e(4) by simp
  have lt: "?par < c" using table_okD(2) [OF c(6,1,2)] by (simp add: slot_ok_def)
  have at: "proc_at ?par ?e = proc_at ?par s" using lt by (simp add: exit_state_at [OF c(3)])
  have pc: "?par < unat (process_count ?e)" using lt c(2) e(4) by simp
  show ?thesis
  proof (cases rule: sys_exit_cases [OF c(6,1,2,5) refl, of a, case_names next_one resume wake])
    case next_one
    with exit_to_next_progress [OF e(3,2) own] x e(1) show ?thesis by simp
  next
    case resume
    let ?f = "\<lambda>q. q\<lparr>wait_return_rip := 0, wait_return_rsp := 0, waiting_for_pid := 0, pstate := ORE_PROC_READY\<rparr>"
    have l: "?par < length (processes ?e)" using lt c(3) by (simp add: exit_state_def)
    have b: "pstate (proc_at ?par ?e) = ORE_PROC_BLOCKED"
      using wait_okD [OF e(2) resume(1) pc] resume(3) by (auto simp: waits_here_def at)
    note u = unblocked [OF e(3,2) resume(1) pc b, of ?f]
    have k: "keeps_shape ?f" "pstate (?f (proc_at ?par ?e)) = ORE_PROC_READY" "\<not> waits_here (?f (proc_at ?par ?e))"
      by (simp_all add: keeps_shape_def waits_here_def)
    have "core_view t = core_view (write_cr3 (proc_pml4 ?par (update_proc ?par ?f ?e))
        (process_set_current (Some ?par) (update_proc ?par ?f ?e)))"
      using resume_core [OF l] resume(2) x l by (simp add: proc_pml4_def)
    note en = entered [OF u(3,2) [OF k] resume(1) _ _ this]
    show ?thesis using en(1,2) u(1) [OF k] e(1) pc l by simp
  next
    case wake
    let ?f = "\<lambda>q. q\<lparr>waiting_for_pid := 0, pstate := ORE_PROC_READY\<rparr>"
    have k: "keeps_shape ?f" "pstate (?f (proc_at ?par ?e)) = ORE_PROC_READY" "\<not> waits_here (?f (proc_at ?par ?e))"
      using wake(3) by (simp_all add: keeps_shape_def waits_here_def at)
    have b: "pstate (proc_at ?par ?e) = ORE_PROC_BLOCKED" using wake(4) by (simp add: at)
    note u = unblocked [OF e(3,2) wake(1) pc b k]
    have "exit_to_next (pid (proc_at c s)) (update_proc ?par ?f ?e) = Inr (x, t)" using wake(2) x by simp
    with exit_to_next_progress [OF u(3,2) _ this] own u(1) e(1) show ?thesis by simp
  qed
qed

lemma wait_enter_fair:
  assumes s: "sched_ok s" "wait_ok s" "current_proc s = Some c"
    and k: "1 \<le> k" "k < unat (process_count s)" "pstate (proc_at k s) = ORE_PROC_READY"
  shows "wait_ok (wait_and_enter c k s) \<and> progress s < progress (wait_and_enter c k s)"
proof -
  obtain c' where c': "1 \<le> c'" "c' < unat (process_count s)" "c' < length (processes s)" "current_proc s = Some c'"
    "pstate (proc_at c' s) = ORE_PROC_RUNNING" "proc_ok s"
    by (rule sched_okE [OF s(1)])
  have cc: "c' = c" using s(3) c'(4) by simp
  note c = c' [unfolded cc]
  let ?f = "\<lambda>q. q\<lparr>wait_return_rip := syscall_user_rip_current s, wait_return_rsp := syscall_user_rsp_current s,
    waiting_for_pid := pid (proc_at k s), pstate := ORE_PROC_BLOCKED\<rparr>"
  let ?u = "update_proc c ?f s"
  have u: "proc_ok ?u" "wait_ok ?u"
    by (rule proc_ok_update [OF c(6)], simp add: keeps_shape_def) (rule wait_ok_update [OF s(2)], simp)
  have "progress ?u = progress s + 1" using progress_update [OF c(1-3), of ?f] c(5) by (simp add: progress_of_def)
  moreover have "pstate (proc_at k ?u) = ORE_PROC_READY" using k(3) c(5) by auto
  ultimately show ?thesis
    unfolding wait_and_enter_def using entered(1,2) [OF u k(1) _ _ enter_core] k(2) by simp
qed

subsection \<open>New processes\<close>

lemma create_kernel_quiet:
  assumes s: "table_ok R {} s" "wait_ok s" and cr: "process_create_kernel name s = (Some k, u)"
  shows "progress u = progress s" "wait_ok u" "proc_ok u"
proof -
  note sp = create_kernel_spec [OF table_okD(1) [OF s(1)] cr]
  show "proc_ok u" by (rule table_okD(1) [OF create_kernel_ok [OF s(1) cr]])
  have k: "1 \<le> k" using proc_okD(2) [OF table_okD(1) [OF s(1)]] sp(1) by simp
  have old: "i < k \<Longrightarrow> proc_at i u = proc_at i s" for i by (rule sp(8)) simp
  have "{1..<unat (process_count u)} = insert k {1..<unat (process_count s)}" using sp(1,3) k by auto
  moreover have "progress_of (pstate (proc_at k u)) = 0" using sp(10) by (simp add: progress_of_def)
  moreover have "(\<Sum>i \<in> {1..<unat (process_count s)}. progress_of (pstate (proc_at i u))) = progress s"
    unfolding progress_def using old sp(1) by (intro sum.cong) auto
  ultimately show "progress u = progress s" unfolding progress_def [of u] using sp(1) by simp
  have "waits_here (proc_at i u) \<longrightarrow> pstate (proc_at i u) = ORE_PROC_BLOCKED" if "1 \<le> i" "i < Suc k" for i
  proof (cases "i = k")
    case True
    then show ?thesis using sp(14) by (simp add: waits_here_def)
  next
    case False
    then show ?thesis using s(2) that old [of i] sp(1) by (auto simp: wait_ok_def)
  qed
  then show "wait_ok u" using sp(3) by (simp add: wait_ok_def)
qed

lemma create_user_quiet:
  assumes s: "sched_ok s" "wait_ok s" and cr: "process_create_user name s = Inr (kp, t)"
  shows "quiet s t" "kp = Some k \<Longrightarrow> 1 \<le> k \<and> k < unat (process_count t) \<and> pstate (proc_at k t) = ORE_PROC_READY"
proof -
  obtain c where c: "table_ok {c} {} s" "proc_ok s" by (rule sched_okE [OF s(1)])
  note ok = create_user_ok [OF s(1) cr]
  have "progress t = progress s \<and> wait_ok t
    \<and> (\<forall>k. kp = Some k \<longrightarrow> 1 \<le> k \<and> k < unat (process_count t) \<and> pstate (proc_at k t) = ORE_PROC_READY)"
  proof (cases "process_create_kernel name s")
    case (Pair kq u)
    show ?thesis
    proof (cases kq)
      case None
      then have "u = s" using Pair proc_okD(4) [OF c(2)]
        by (auto simp: process_create_kernel_def Let_def address_space_clone_kernel_def split: if_splits)
      with None Pair s cr show ?thesis by (simp add: process_create_user_def)
    next
      case (Some k)
      with Pair have ck: "process_create_kernel name s = (Some k, u)" by simp
      note sp = create_kernel_spec [OF c(2) ck] and cq = create_kernel_quiet [OF c(1) s(2) ck]
      obtain root v where v: "vmm_create_user_pml4 u = Inr (root, v)"
        and t: "kp = Some k" "t = update_proc k (\<lambda>q. q\<lparr>address_space := (address_space q)\<lparr>pml4_phys := root\<rparr>,
          user_alloc_next := 0x000000a000000000\<rparr>) v"
        using cr ck by (auto simp: process_create_user_def kbind_Inr_iff)
      have vc: "core_view v = core_view u" by (rule view_core [OF vmm_views(4) [OF v]])
      note g = core_globals [OF vc] and cs = core_slots [OF vc cq(3)]
      have k: "1 \<le> k" "k < unat (process_count v)" "k < length (processes v)"
        using sp(1,2,3,7) g proc_okD(1,2) [OF c(2)] by simp_all
      have st: "pstate (proc_at k v) = ORE_PROC_READY" using core_fields(2) [OF vc] sp(7,10) k(3) g(1) by simp
      have "progress t = progress v"
        unfolding t(2)
        using progress_update [OF k, of "\<lambda>q. q\<lparr>address_space := (address_space q)\<lparr>pml4_phys := root\<rparr>,
          user_alloc_next := 0x000000a000000000\<rparr>"] by simp
      moreover have "wait_ok t"
        unfolding t(2) by (rule wait_ok_update)
          (use cs(2) cq(2) wait_okD [of v k] k(1,2) st in \<open>auto simp: waits_here_def\<close>)
      ultimately show ?thesis using cs(1) cq(1) k st t by simp
    qed
  qed
  with ok show "quiet s t" "kp = Some k \<Longrightarrow> 1 \<le> k \<and> k < unat (process_count t) \<and> pstate (proc_at k t) = ORE_PROC_READY"
    by (simp_all add: quiet_def)
qed

lemma make_ready_quiet:
  assumes q: "quiet s u" and c: "current_proc u = Some c" "c < k" "k < unat (process_count u)" "parent_pid (proc_at k u) = 0"
    and st: "1 \<le> k" "pstate (proc_at k u) = ORE_PROC_READY"
  shows "quiet s (make_ready args k u)"
proof -
  have u: "sched_ok u" "wait_ok u" "progress u = progress s" "current_proc u = current_proc s" using q by (simp_all add: quiet_def)
  have p: "proc_ok u" by (rule sched_proc_ok [OF u(1)])
  have l: "k < length (processes u)" using c(3) proc_okD(1,3) [OF p] by linarith
  note m = make_ready_ok [OF u(1) c, of args]
  have "progress (make_ready args k u) = progress u"
    unfolding make_ready_def using progress_update [OF st(1) c(3) l] st(2) by (simp add: progress_of_def)
  moreover have "wait_ok (make_ready args k u)"
    unfolding make_ready_def by (rule wait_ok_update [OF u(2)]) (use wait_okD [OF u(2) st(1) c(3)] st(2) in \<open>simp add: waits_here_def\<close>)
  ultimately show ?thesis using m(1,2) u(3,4) c(1) by (simp add: quiet_def)
qed

text \<open>A child that was created and loaded.\<close>

lemma child_loaded_quiet:
  assumes s: "sched_ok s" "wait_ok s" and cr: "process_create_user name s = Inr (Some k, t)" and u: "core_view u = core_view t"
  shows "quiet s u" "1 \<le> k" "k < unat (process_count u)" "pstate (proc_at k u) = ORE_PROC_READY"
    "quiet s (make_ready args k u)" "pstate (proc_at k (make_ready args k u)) = ORE_PROC_READY"
    "process_count (make_ready args k u) = process_count u"
proof -
  note cu = create_user_quiet [OF s cr]
  show q: "quiet s u" by (rule quiet_core [OF cu(1) u])
  have k: "1 \<le> k" "k < unat (process_count t)" "pstate (proc_at k t) = ORE_PROC_READY" using cu(2) by simp_all
  have p: "proc_ok t" using cu(1) by (auto simp: quiet_def sched_proc_ok)
  have l: "k < length (processes t)" using k(2) proc_okD(1,3) [OF p] by linarith
  show k1: "1 \<le> k" "k < unat (process_count u)" "pstate (proc_at k u) = ORE_PROC_READY"
    using k core_globals [OF u] core_fields(2) [OF u l] by simp_all
  obtain c where c: "sched_ok u" "current_proc u = Some c" "c < k" "k < unat (process_count u)" "parent_pid (proc_at k u) = 0"
    by (rule child_loaded [OF s(1) cr u])
  show "quiet s (make_ready args k u)" by (rule make_ready_quiet [OF q c(2-5) k1(1,3)])
  show "pstate (proc_at k (make_ready args k u)) = ORE_PROC_READY" "process_count (make_ready args k u) = process_count u"
    by (rule make_ready_ok [OF c])+
qed

lemma free_return_quiet: "quiet s u \<Longrightarrow> free_and_return b code u = Inr (r, t) \<Longrightarrow> quiet s t"
  by (erule quiet_view) (rule free_return_view)

lemma spawn_image_quiet:
  assumes "quiet s u" "spawn_image path args img sz u = Inr (r, t)"
  shows "quiet s t"
proof -
  have u: "sched_ok u" "wait_ok u" using assms(1) by (simp_all add: quiet_def)
  obtain cp s1 where cr: "process_create_user (Some path) u = Inr (cp, s1)"
    using assms(2) by (auto simp: spawn_image_def kbind_Inr_iff)
  have "quiet u t"
  proof (cases cp)
    case None
    with assms(2) cr free_return_quiet [OF create_user_quiet(1) [OF u cr]] show ?thesis by (simp add: spawn_image_def)
  next
    case (Some k)
    obtain err s2 where ld: "load_image k img sz s1 = Inr (err, s2)"
      using assms(2) cr Some by (auto simp: spawn_image_def kbind_Inr_iff)
    have v2: "core_view s2 = core_view s1" by (rule load_image_core [OF ld])
    show ?thesis
    proof (cases "err < 0")
      case True
      with assms(2) cr Some ld free_return_quiet [OF quiet_core [OF create_user_quiet(1) [OF u cr] v2]] show ?thesis
        by (simp add: spawn_image_def)
    next
      case False
      obtain s3 where fr: "kfree img s2 = Inr s3"
        using assms(2) cr Some ld False by (auto simp: spawn_image_def kbind_Inr_iff)
      have v3: "core_view s3 = core_view s1" using view_core [OF kfree_view [OF fr]] v2 by simp
      have "core_view t = core_view (make_ready args k s3)"
        using assms(2) cr Some ld False fr
        by (auto simp: spawn_image_def Let_def intro!: view_core split: if_splits)
      then show ?thesis by (rule quiet_core [OF child_loaded_quiet(5) [OF u cr [unfolded Some] v3]])
    qed
  qed
  with assms(1) show ?thesis by (rule quiet_trans)
qed

lemma run_image_fair:
  assumes q: "quiet s u" and run: "run_image args img len u = Inr (r, t)"
  shows "quiet s t \<or> wait_ok t \<and> progress s < progress t"
proof -
  have u: "sched_ok u" "wait_ok u" "progress u = progress s" using q by (simp_all add: quiet_def)
  obtain cp s1 where cr: "process_create_user (Some (lit ''ore-image'')) u = Inr (cp, s1)"
    using run by (auto simp: run_image_def kbind_Inr_iff)
  show ?thesis
  proof (cases cp)
    case None
    with run cr free_return_quiet [OF create_user_quiet(1) [OF u(1,2) cr]] quiet_trans [OF q] show ?thesis by (auto simp: run_image_def)
  next
    case (Some k)
    obtain err s2 s3 where ld: "load_ore_image_into_process k img len s1 = Inr (err, s2)" and fr: "kfree img s2 = Inr s3"
      using run cr Some by (auto simp: run_image_def kbind_Inr_iff)
    have v3: "core_view s3 = core_view s1" using view_core [OF kfree_view [OF fr]] load_ore_image_core [OF ld] by simp
    note cl = child_loaded_quiet [OF u(1,2) cr [unfolded Some] v3]
    obtain c where c: "current_proc (make_ready args k s3) = Some c" using cl(5) [of args] sched_okE [of "make_ready args k s3"] by (metis quiet_def)
    have "t = s3 \<or> t = wait_and_enter c k (make_ready args k s3)"
      using run cr Some ld fr c by (auto simp: run_image_def Let_def process_current_def split: if_splits)
    then show ?thesis
    proof
      assume "t = s3"
      with cl(1) quiet_trans [OF q] show ?thesis by blast
    next
      assume t: "t = wait_and_enter c k (make_ready args k s3)"
      have m: "sched_ok (make_ready args k s3)" "wait_ok (make_ready args k s3)" "progress (make_ready args k s3) = progress s"
        using cl(5) [of args] u(3) by (simp_all add: quiet_def)
      show ?thesis
        using wait_enter_fair [OF m(1,2) c cl(2) _ cl(6)] cl(3) cl(7) [of args] m(3) by (simp add: t)
    qed
  qed
qed

lemma spawn_call_quiet:
  assumes "sched_ok s" "wait_ok s" "sys_spawn a1 a2 s = Inr (r, t)"
  shows "quiet s t"
proof -
  note q = quiet_refl [OF assms(1,2)]
  have mem: "quiet s u \<Longrightarrow> quiet s (mem_update f u)" for u f by (rule quiet_view) simp_all
  have "ends (quiet s) (sys_spawn a1 a2 s)"
    unfolding sys_spawn_def Let_def
    by (intro ends_cases ends_rules q)
      (auto simp: ends_def q intro: quiet_view [OF q kmalloc_view] quiet_view [OF _ vfs_read_view(2)]
        free_return_quiet [OF mem] spawn_image_quiet [OF mem] split: if_splits)
  with assms(3) show ?thesis by (rule endsD)
qed

lemma exec_call_fair:
  assumes "sched_ok s" "wait_ok s" "sys_exec_image a1 a2 a3 s = Inr (r, t)"
  shows "quiet s t \<or> wait_ok t \<and> progress s < progress t"
proof -
  note q = quiet_refl [OF assms(1,2)]
  have mem: "quiet s u \<Longrightarrow> quiet s (mem_update f u)" for u f by (rule quiet_view) simp_all
  show ?thesis
  proof (cases "t = s")
    case True
    with q show ?thesis by simp
  next
    case False
    with assms(3) obtain img s1 where k: "kmalloc a2 s = Inr (img, s1)"
      and r: "t = s1 \<or> (\<exists>e. free_and_return img e s1 = Inr (r, t))
        \<or> (\<exists>args data. run_image args img a2 (s1\<lparr>mem := write_bytes (mem s1) img data\<rparr>) = Inr (r, t))"
      by (auto simp: sys_exec_image_def kbind_Inr_iff split: if_splits sum.splits) blast
    have q1: "quiet s s1" by (rule quiet_view [OF q kmalloc_view [OF k]])
    with r free_return_quiet [OF q1] run_image_fair [OF mem [OF q1]] show ?thesis by blast
  qed
qed

lemma wait_call_fair:
  assumes "sched_ok s" "wait_ok s" "sys_wait a s = Inr (r, t)"
  shows "quiet s t \<or> wait_ok t \<and> progress s < progress t"
proof -
  obtain c where c: "1 \<le> c" "current_proc s = Some c" "process_current s = Some c" "table_ok {c} {} s"
    "unat (pid (proc_at c s)) = c" "proc_ok s" by (rule sched_okE [OF assms(1)])
  show ?thesis
  proof (cases "t = s")
    case True
    with quiet_refl [OF assms(1,2)] show ?thesis by simp
  next
    case False
    with assms(3) c(3) obtain k where f: "process_find (ucast a) s = Some k"
      and k: "parent_pid (proc_at k s) = pid (proc_at c s)" "pstate (proc_at k s) = ORE_PROC_READY"
        "t = wait_and_enter c k s"
      by (auto simp: sys_wait_def split: option.splits if_splits)
    have "k \<noteq> 0"
    proof
      assume "k = 0"
      with k(1) table_okD(3) [OF c(4)] have "unat (pid (proc_at c s)) = 0" by simp
      with c(1,5) show False by simp
    qed
    with wait_enter_fair [OF assms(1,2) c(2) _ process_find_Some(2) [OF c(6) f] k(2)] k(3) show ?thesis by simp
  qed
qed

subsection \<open>Steps of the kernel\<close>

lemma run_syscall_fair:
  assumes env: "env_ok env" and s: "sched_ok s" "wait_ok s" and run: "run_syscall env number a1 a2 a3 a4 s = Inr (x, t)"
    and r: "1 \<le> r" "r < unat (process_count s)" "pstate (proc_at r s) = ORE_PROC_READY" "pstate (proc_at r t) = ORE_PROC_READY"
  shows "fair_step r s t"
proof (cases "sysno number")
  case None
  with run quiet_fair [OF quiet_refl [OF s]] show ?thesis by (simp add: run_syscall_def)
next
  case (Some call)
  have direct: "quiet s t \<or> wait_ok t \<and> progress s < progress t \<Longrightarrow> fair_step r s t"
    using quiet_fair by (auto simp: fair_step_def)
  note keep = quiet_fair [OF quiet_core [OF quiet_refl [OF s]]]
  note view = keep [OF view_core]
  show ?thesis
  proof (cases call)
    case ORE_SYS_EXIT
    with run Some exit_fair [OF s] direct show ?thesis by (auto simp: run_syscall_def)
  next
    case ORE_SYS_YIELD
    then have "t = snd (schedule_next_from_syscall s)" using run Some by (simp add: run_syscall_def sys_yield_def)
    with yield_fair [OF s r(1-3)] r(4) show ?thesis by simp
  next
    case ORE_SYS_WAIT
    with run Some wait_call_fair [OF s] direct show ?thesis by (auto simp: run_syscall_def)
  next
    case ORE_SYS_SPAWN
    with run Some spawn_call_quiet [OF s] direct show ?thesis by (auto simp: run_syscall_def)
  next
    case ORE_SYS_EXEC_IMAGE
    with run Some exec_call_fair [OF s] direct show ?thesis by (auto simp: run_syscall_def)
  next
    case ORE_SYS_GETPID
    with run Some quiet_fair [OF quiet_refl [OF s]] show ?thesis by (auto simp: run_syscall_def sys_getpid_def)
  qed (use run Some in \<open>auto simp: run_syscall_def intro: keep view dest: file_call_cores console_call_views
        info_call_views kcmd_view [OF env] terrain_call_view\<close>)
qed

lemma fair_core:
  assumes "fair_step r u t" "core_view u = core_view s" "proc_ok s"
  shows "fair_step r s t"
  using assms(1) core_slots [OF assms(2,3)] core_globals(4) [OF assms(2)] by (simp add: fair_step_def)

lemma fair_core2:
  assumes "fair_step r s u" "core_view t = core_view u" "proc_ok u"
  shows "fair_step r s t"
  using assms(1) core_slots [OF assms(2,3)] core_globals(4) [OF assms(2)] by (simp add: fair_step_def)

lemma dispatch_fair:
  assumes env: "env_ok env" and s: "sched_ok s" "wait_ok s" and run: "syscall_dispatch env number a1 a2 a3 a4 s = Inr (x, t)"
    and r: "1 \<le> r" "r < unat (process_count s)" "pstate (proc_at r s) = ORE_PROC_READY" "pstate (proc_at r t) = ORE_PROC_READY"
  shows "fair_step r s t"
proof -
  let ?u = "count_syscall s"
  note p = sched_proc_ok [OF s(1)]
  have l: "r < length (processes s)" using r(2) proc_okD(1,3) [OF p] by linarith
  note cc = count_core [of s]
  have "fair_step r ?u t"
    by (rule run_syscall_fair [OF env sched_ok_core [OF cc s(1)] _ _ r(1)])
      (use s(2) run r core_slots(2) [OF cc p] core_globals [OF cc] core_fields(2) [OF cc l] in
        \<open>simp_all add: syscall_dispatch_def\<close>)
  then show ?thesis by (rule fair_core [OF _ cc p])
qed

lemma isr_fair:
  assumes s: "sched_ok s" "wait_ok s" and run: "isr_dispatch vec addr f s = Inr (x, t)"
    and r: "1 \<le> r" "r < unat (process_count s)" "pstate (proc_at r s) = ORE_PROC_READY" "pstate (proc_at r t) = ORE_PROC_READY"
  shows "fair_step r s t"
proof -
  let ?u = "timer_interrupt s"
  have vu: "sched_view ?u = sched_view s" by simp
  note cu = view_core [OF vu] and p = sched_proc_ok [OF s(1)]
  have l: "r < length (processes s)" using r(2) proc_okD(1,3) [OF p] by linarith
  have u: "sched_ok ?u" "wait_ok ?u" "r < unat (process_count ?u)" "pstate (proc_at r ?u) = ORE_PROC_READY"
    using sched_ok_core [OF cu s(1)] core_slots(2) [OF cu p] s(2) r(2,3) core_globals [OF cu] core_fields(2) [OF cu l] by simp_all
  obtain sw f1 s2 where sw: "(if current_cpu_id s = 0 then process_schedule_user_tick f ?u else (0, f, ?u)) = (sw, f1, s2)"
    by (metis surj_pair)
  have v: "sched_view t = sched_view s2"
    using run sw by (auto simp: isr_dispatch_def Let_def panic_def kbind_Inr_iff dest!: scheduler_tick_view split: if_splits)
  have ok2: "sched_ok s2" using sw u(1) tick_ok [OF u(1)] by (auto split: if_splits)
  have "processes t = processes s2" using v by (simp add: sched_view_def)
  then have r2: "pstate (proc_at r s2) = ORE_PROC_READY" using r(4) by (simp add: proc_at_def)
  have "fair_step r ?u s2"
    using sw tick_fair [OF u(1,2) r(1) u(3,4) _ r2] quiet_fair [OF quiet_refl [OF u(1,2)]] by (auto split: if_splits)
  then have "fair_step r s s2" by (rule fair_core [OF _ cu p])
  then show ?thesis by (rule fair_core2 [OF _ view_core [OF v] sched_proc_ok [OF ok2]])
qed

lemma kernel_step_fair:
  assumes "env_ok env" "sched_ok s" "wait_ok s" "kernel_step env s t" "is_ready r s" "is_ready r t"
  shows "sched_ok t" "fair_step r s t"
proof -
  have r: "1 \<le> r" "r < unat (process_count s)" "pstate (proc_at r s) = ORE_PROC_READY" "pstate (proc_at r t) = ORE_PROC_READY"
    using assms(5,6) by (simp_all add: is_ready_def)
  from assms(4) have "sched_ok t \<and> fair_step r s t"
  proof cases
    case (user m ip sp)
    have "sched_view t = sched_view s" by (simp add: user sched_view_def)
    from quiet_view [OF quiet_refl [OF assms(2,3)] this] show ?thesis using quiet_fair by (auto simp: quiet_def)
  next
    case (call number a1 a2 a3 a4 x)
    from dispatch_ok [OF assms(1,2) call] dispatch_fair [OF assms(1-3) call r] show ?thesis by simp
  next
    case (interrupt vec addr f x)
    from isr_ok [OF assms(2) interrupt] isr_fair [OF assms(2,3) interrupt r] show ?thesis by simp
  qed
  then show "sched_ok t" "fair_step r s t" by simp_all
qed

lemma cur_bounds: "sched_ok s \<Longrightarrow> r \<in> {1..<unat (process_count s)} \<Longrightarrow> 1 \<le> cyc_wait 32 (cur_of s) r \<and> cyc_wait 32 (cur_of s) r \<le> 31"
proof -
  assume s: "sched_ok s" and r: "r \<in> {1..<unat (process_count s)}"
  obtain c where c: "c < unat (process_count s)" "current_proc s = Some c" "proc_ok s" by (rule sched_okE [OF s])
  with r proc_okD(3) [OF c(3)] cyc_wait_bounds [of c 32 r] show ?thesis by (simp add: cur_of_def)
qed

text \<open>
  Each change of the current process brings it nearer to \<open>r\<close>, by at least one of 31 places, or the
  processes further, by at least 1 of 62.
\<close>

lemma ready_run_potential:
  assumes "env_ok env" "ready_run env r n s t" "sched_ok s" "wait_ok s" "is_ready r s"
  shows "sched_ok t \<and> wait_ok t \<and> is_ready r t \<and> progress s \<le> progress t
    \<and> n + cyc_wait 32 (cur_of t) r + 31 * progress s \<le> cyc_wait 32 (cur_of s) r + 31 * progress t"
  using assms(2-)
proof (induction rule: ready_run.induct)
  case (start s)
  then show ?case by simp
next
  case (step n s t u)
  then have t: "sched_ok t" "wait_ok t" "is_ready r t" "progress s \<le> progress t"
    "n + cyc_wait 32 (cur_of t) r + 31 * progress s \<le> cyc_wait 32 (cur_of s) r + 31 * progress t" by simp_all
  note u = kernel_step_fair [OF assms(1) t(1,2) step.hyps(2) t(3) step.hyps(3)]
  have w: "wait_ok u" "progress t \<le> progress u" using u(2) by (simp_all add: fair_step_def)
  have b: "1 \<le> cyc_wait 32 (cur_of t) r" "cyc_wait 32 (cur_of u) r \<le> 31"
    using cur_bounds [OF t(1), of r] cur_bounds [OF u(1), of r] t(3) step.hyps(3) by (simp_all add: is_ready_def)
  have "of_bool (current_proc u \<noteq> current_proc t) + cyc_wait 32 (cur_of u) r + 31 * progress t
      \<le> cyc_wait 32 (cur_of t) r + 31 * progress u"
  proof -
    consider "current_proc u = current_proc t" | "progress t < progress u"
      | "cyc_wait 32 (cur_of u) r < cyc_wait 32 (cur_of t) r"
      using u(2) by (auto simp: fair_step_def)
    then show ?thesis
    proof cases
      case 1
      with w(2) show ?thesis by (simp add: cur_of_def)
    next
      case 2
      then have "31 * progress t + 31 \<le> 31 * progress u" by simp
      with b show ?thesis by (simp add: of_bool_def)
    next
      case 3
      then show ?thesis using w(2) by (simp add: of_bool_def)
    qed
  qed
  with t(4,5) u(1) w step.hyps(3) show ?case by simp
qed

lemma boot_wait_ok:
  assumes "processes s = replicate 32 zero_process"
  shows "wait_ok (process_init s)"
  using assms by (simp add: wait_ok_def process_init_def Let_def)

lemma demo_fair_ok: "sched_ok demo_fair" "wait_ok demo_fair" "is_ready 1 demo_fair" "current_proc demo_fair = Some 2"
proof -
  have at: "proc_at (Suc 0) demo_fair = (proc_at (Suc 0) demo_kernel)\<lparr>pstate := ORE_PROC_READY, waiting_for_pid := 0, wait_return_rip := 0,
     wait_return_rsp := 0\<rparr>" "i \<noteq> Suc 0 \<Longrightarrow> proc_at i demo_fair = proc_at i demo_kernel" for i
    by (simp_all add: demo_fair_def)
  obtain c where c: "current_proc demo_kernel = Some c" "table_ok {c} {} demo_kernel" by (rule sched_okE [OF demo_kernel_ok])
  then have "table_ok {2} {} demo_fair"
    unfolding demo_fair_def by (intro table_update [of "{2}" "{}"]) (simp_all add: keeps_shape_def)
  then show "sched_ok demo_fair"
    by (auto simp: sched_ok_def demo_fair_def proc_pml4_def intro!: bexI [of _ 2])
  have "waits_here (proc_at i demo_fair) \<longrightarrow> pstate (proc_at i demo_fair) = ORE_PROC_BLOCKED" if "1 \<le> i" "i < 4" for i
  proof -
    from that consider "i = 1" | "i = 2" | "i = 3" by linarith
    then show ?thesis by cases (simp_all add: at waits_here_def demo_child_def demo_entry_def zero_process_def)
  qed
  then show "wait_ok demo_fair" by (simp add: wait_ok_def demo_fair_def)
  show "is_ready 1 demo_fair" "current_proc demo_fair = Some 2" by (simp_all add: is_ready_def at) (simp_all add: demo_fair_def)
qed

subsection \<open>Properties\<close>

text \<open>
  C14. No starvation. While a user process stays ready, the current process changes less than 31 times,
  plus 31 times the growth of \<open>progress\<close> (1 for a process blocked in a wait, 2 for one that has exited),
  and so less than 1953 times in all, in any history of user code, system calls and interrupts from
  a well-formed kernel state. Every change counts, also the direct ones: a wait and the start of a
  program enter the child, an exit resumes the parent. The bound is on switches, not on time: the timer
  never takes the processor from process 1.
\<close>

theorem round_robin_no_starvation:
  assumes "env_ok env" "sched_ok s" "wait_ok s" "is_ready r s" "ready_run env r n s t"
  shows "n < 31 * (1 + (progress t - progress s)) \<and> n < 1953"
proof -
  note p = ready_run_potential [OF assms(1,5,2-4)]
  have "1 \<le> cyc_wait 32 (cur_of t) r" "cyc_wait 32 (cur_of s) r \<le> 31"
    using cur_bounds [of t r] cur_bounds [of s r] p assms(2,4) by (simp_all add: is_ready_def)
  then have a: "n + 1 + 31 * progress s \<le> 31 + 31 * progress t" "progress s \<le> progress t" using p by simp_all
  moreover have "progress t \<le> 62" using progress_bound [OF sched_proc_ok] p by blast
  ultimately show ?thesis by (simp add: diff_mult_distrib2)
qed

theorem round_robin_no_starvation_witness:
  "\<exists>t. ready_run quiet_env 1 1 demo_fair t \<and> current_proc demo_fair = Some 2 \<and> current_proc t = Some 3
    \<and> 1 < 31 * (1 + (progress t - progress demo_fair))"
proof -
  let ?u = "count_syscall demo_fair" and ?t = "snd (schedule_next_from_syscall (count_syscall demo_fair))"
  have cu: "core_view ?u = core_view demo_fair" by (rule count_core)
  note g = core_globals [OF cu]
  have d: "process_count demo_fair = 4" "length (processes demo_fair) = 32" by (simp_all add: demo_fair_def)
  have f: "pstate (proc_at i ?u) = pstate (proc_at i demo_fair)" "pid (proc_at i ?u) = pid (proc_at i demo_fair)" if "i < 32" for i
    using core_fields [OF cu] that d by simp_all
  have "pstate (proc_at 3 demo_fair) = ORE_PROC_READY" "pid (proc_at 3 demo_fair) = 3" "pstate (proc_at 2 demo_fair) = ORE_PROC_RUNNING"
    "pid (proc_at 2 demo_fair) = 2" "pid (proc_at 1 demo_fair) = 1" "pstate (proc_at 1 demo_fair) = ORE_PROC_READY"
    by (simp_all add: demo_fair_def)
  note at = this f [of 1] f [of 2] f [of 3]
  have pc: "process_current ?u = Some 2" "current_pid ?u = 2"
    using g demo_fair_ok(4) at by (simp_all add: process_current_def current_pid_def)
  have n: "next_ready_process 2 ?u = Some 3"
    using next_ready_scan [of ?u 2] g d at by (simp add: scan_order_def ready_other_def)
  have t: "?t = enter_process_from_syscall 3 (park_current (Some 2) ?u)"
    using pc n by (simp add: schedule_next_from_syscall_def)
  have "current_proc ?t = Some 3" "is_ready 1 ?t"
    unfolding t using g d at
    by (simp_all add: enter_process_from_syscall_def Let_def is_ready_def process_set_current_def write_cr3_def park_current_def)
      (simp_all add: syscall_override_return_def)
  then have "ready_run quiet_env 1 (0 + of_bool (current_proc ?t \<noteq> current_proc demo_fair)) demo_fair ?t"
    by (intro ready_run.step [OF ready_run.start kernel_step.call [OF yield_call]])
  then have "ready_run quiet_env 1 1 demo_fair ?t" using \<open>current_proc ?t = Some 3\<close> demo_fair_ok(4) by simp
  with round_robin_no_starvation [OF quiet_env_ok demo_fair_ok(1-3) this] demo_fair_ok(4) \<open>current_proc ?t = Some 3\<close>
  show ?thesis by blast
qed

end
