(* ===== verification/Spec2Isabelle.thy ===== *)
theory Spec2Isabelle
  imports Pmm_Boot Kheap_Spec Spinlock Vmm_Spaces Usermem_Spec Scheduler_Spec Fairness
begin

text \<open>
  A verification development for OreOS, a small x86-64 kernel with its loader and user programs.

  \<^bold>\<open>Conventions.\<close> Machine integers are words of their width. The kernel's static variables
  form one record that every component extends (\<open>machine\<close>, \<open>pmm\<close>, \<dots>), so that a later component
  calls the operations of an earlier one on the same state. \<open>panic\<close> is the value \<open>Inl message\<close>.
  Console output of \<open>kprintf\<close> is not part of the state.

  \<^bold>\<open>Theories.\<close>
  \<^item> \<open>Prelude\<close>: word types and facts, alignment.
  \<^item> \<open>Machine\<close>: byte-addressed physical memory, little-endian cells, page loops, panics.
  \<^item> \<open>Bootinfo\<close>: the boot protocol of \<open>include/bootinfo.h\<close>.
  \<^item> \<open>Pmm\<close>, \<open>Pmm_Boot\<close>: the physical page allocator \<open>kernel/pmm.c\<close>.
  \<^item> \<open>Kheap\<close>, \<open>Kheap_Spec\<close>: the kernel heap \<open>kernel/heap.c\<close>.
  \<^item> \<open>Spinlock\<close>: the spinlock \<open>kernel/spinlock.c\<close> under interleaving.
\<close>

end
